(* ===== verification/Broker_Prelude.thy ===== *)
theory Broker_Prelude
  imports Main "HOL-Library.Word"
begin

text \<open>
  What every component shares.

  \<^item> Bytes are \<^typ>\<open>8 word\<close>; Python's \<open>bytes\<close> and \<open>bytearray\<close> are lists of them, with
    \<open>slice\<close> for \<open>xs[a:b]\<close>, \<open>le_nat\<close> for \<open>int.from_bytes(xs, "little")\<close> and \<open>le_bytes\<close> for
    \<open>n.to_bytes(k, "little")\<close> (and for the little-endian fields of \<open>struct\<close>).
  \<^item> Python text is modelled by its UTF-8 code units, a \<^typ>\<open>string\<close>; \<open>dec\<close> and \<open>hex_pad\<close> are the
    number formats the messages use, \<open>hex_bytes\<close> is \<open>bytes.hex()\<close>.
  \<^item> The lemmas are about lists, bytes and little-endian numbers, and are collected in
    \<open>bytes_simps\<close>.
\<close>

named_theorems bytes_simps "equations on byte strings and little-endian fields"

type_synonym byte = "8 word"
type_synonym bytes = "byte list"

section \<open>Byte strings\<close>

definition slice :: "nat \<Rightarrow> nat \<Rightarrow> 'a list \<Rightarrow> 'a list" where
  "slice a b xs = take (b - a) (drop a xs)"

lemma length_slice [simp]: "length (slice a b xs) = min (b - a) (length xs - a)"
  by (simp add: slice_def min.commute)

lemma slice_append_left: "b \<le> length xs \<Longrightarrow> slice a b (xs @ ys) = slice a b xs"
  by (auto simp: slice_def)

lemma slice_append_right:
  "length xs \<le> a \<Longrightarrow> slice a b (xs @ ys) = slice (a - length xs) (b - length xs) ys"
  by (auto simp: slice_def)

lemma slice_Cons: "0 < a \<Longrightarrow> slice a b (x # xs) = slice (a - 1) (b - 1) xs"
  by (cases a) (auto simp: slice_def)

lemma slice_all [simp]: "length xs \<le> b \<Longrightarrow> slice 0 b xs = xs"
  by (simp add: slice_def)

lemma slice_drop_join: "a \<le> b \<Longrightarrow> slice a b xs @ drop b xs = drop a xs"
proof -
  assume "a \<le> b"
  then have "drop b xs = drop (b - a) (drop a xs)" by simp
  then show ?thesis by (simp only: slice_def append_take_drop_id)
qed

fun le_nat :: "bytes \<Rightarrow> nat" where
  "le_nat [] = 0"
| "le_nat (b # bs) = unat b + 256 * le_nat bs"

fun le_bytes :: "nat \<Rightarrow> nat \<Rightarrow> bytes" where
  "le_bytes 0 n = []"
| "le_bytes (Suc k) n = of_nat (n mod 256) # le_bytes k (n div 256)"

lemma length_le_bytes [simp, bytes_simps]: "length (le_bytes k n) = k"
  by (induction k arbitrary: n) auto

lemma unat_byte_less [simp]: "unat (b :: byte) < 256"
  using unsigned_less [of b, where 'a = nat] by simp

lemma unat_of_nat_byte [simp]: "unat (of_nat (n mod 256) :: byte) = n mod 256"
  by (simp add: unat_of_nat)

lemma le_nat_bound: "le_nat bs < 256 ^ length bs"
proof (induction bs)
  case (Cons b bs)
  have "unat b + 256 * le_nat bs < 256 + 256 * le_nat bs" by simp
  also have "\<dots> \<le> 256 * 256 ^ length bs"
    using Cons.IH by (simp add: Suc_le_eq [symmetric])
  finally show ?case by simp
qed simp

lemma le_nat_le_bytes: "le_nat (le_bytes k n) = n mod 256 ^ k"
proof (induction k arbitrary: n)
  case (Suc k)
  have "le_nat (le_bytes (Suc k) n) = n mod 256 + 256 * (n div 256 mod 256 ^ k)"
    by (simp only: le_bytes.simps le_nat.simps unat_of_nat_byte Suc.IH)
  also have "\<dots> = n mod 256 ^ Suc k"
    by (simp add: mod_mult2_eq [of n 256 "256 ^ k"])
  finally show ?case .
qed simp

lemma le_nat_le_bytes_small [bytes_simps]: "n < 256 ^ k \<Longrightarrow> le_nat (le_bytes k n) = n"
  by (simp add: le_nat_le_bytes)

lemma of_nat_unat_byte [simp]: "(of_nat (unat b mod 256) :: byte) = b"
  by (simp add: mod_less)

lemma le_bytes_le_nat [bytes_simps]: "length bs = k \<Longrightarrow> le_bytes k (le_nat bs) = bs"
proof (induction bs arbitrary: k)
  case (Cons b bs)
  then obtain k' where k: "k = Suc k'" "length bs = k'" by (cases k) auto
  have "(unat b + 256 * le_nat bs) mod 256 = unat b"
    by (simp add: mod_less)
  moreover have "(unat b + 256 * le_nat bs) div 256 = le_nat bs"
    by (simp add: div_less)
  ultimately show ?case using k Cons.IH by simp
qed simp

lemma mod_add_left_cancel:
  fixes a b c n :: nat
  assumes "(a + b) mod n = (a + c) mod n"
  shows "b mod n = c mod n"
proof -
  have "int (a + b) mod int n = int (a + c) mod int n" using assms by (metis of_nat_mod)
  then have "int b mod int n = int c mod int n" by (simp add: mod_eq_dvd_iff)
  then show ?thesis by (metis nat_int of_nat_mod)
qed

lemma le_nat_inject: "length xs = length ys \<Longrightarrow> le_nat xs = le_nat ys \<Longrightarrow> xs = ys"
  by (metis le_bytes_le_nat)

text \<open>The first \<open>n\<close> pieces of length \<open>k\<close>: \<open>[xs[i:i+k] for i in range(0, n*k, k)]\<close>.\<close>

fun groups :: "nat \<Rightarrow> nat \<Rightarrow> 'a list \<Rightarrow> 'a list list" where
  "groups k 0 xs = []"
| "groups k (Suc n) xs = take k xs # groups k n (drop k xs)"

lemma length_groups [simp]: "length (groups k n xs) = n"
  by (induction n arbitrary: xs) auto

lemma groups_width: "length xs = n * k \<Longrightarrow> x \<in> set (groups k n xs) \<Longrightarrow> length x = k"
proof (induction n arbitrary: xs)
  case (Suc n)
  then show ?case using Suc.IH [of "drop k xs"] by auto
qed simp

lemma concat_groups [bytes_simps]: "length xs = n * k \<Longrightarrow> concat (groups k n xs) = xs"
  by (induction n arbitrary: xs) auto

lemma concat_map_width: "(\<And>x. length (f x) = k) \<Longrightarrow> length (concat (map f xs)) = k * length xs"
  by (induction xs) auto

lemma groups_concat [bytes_simps]:
  "(\<And>x. x \<in> set xss \<Longrightarrow> length x = k) \<Longrightarrow> groups k (length xss) (concat xss) = xss"
  by (induction xss) auto

lemma groups_numeral [simp]:
  "groups k (numeral n) xs = take k xs # groups k (pred_numeral n) (drop k xs)"
  by (simp add: numeral_eq_Suc)

lemma groups_replicate: "k \<noteq> 0 \<Longrightarrow> groups k n (replicate (n * k) x) = replicate n (replicate k x)"
  by (induction n) simp_all

lemma le_nat_zeros [simp]: "le_nat (replicate n 0) = 0"
  by (induction n) simp_all

lemma groups_append:
  "length xs = n * k \<Longrightarrow> groups k (n + m) (xs @ ys) = groups k n xs @ groups k m ys"
  by (induction n arbitrary: xs) (auto simp: drop_append)

section \<open>Python's number formats\<close>

definition hex_digit :: "nat \<Rightarrow> char" where
  "hex_digit d = (''0123456789abcdef'' ! (d mod 16))"

fun dec_nat :: "nat \<Rightarrow> string" where
  "dec_nat n = (if n < 10 then [hex_digit n] else dec_nat (n div 10) @ [hex_digit (n mod 10)])"

declare dec_nat.simps [simp del]

definition dec :: "int \<Rightarrow> string" where
  "dec i = (if i < 0 then CHR ''-'' # dec_nat (nat (- i)) else dec_nat (nat i))"

fun hex_nat :: "nat \<Rightarrow> string" where
  "hex_nat n = (if n < 16 then [hex_digit n] else hex_nat (n div 16) @ [hex_digit (n mod 16)])"

declare hex_nat.simps [simp del]

text \<open>\<open>f"{n:0kx}"\<close>: lower-case hexadecimal, padded with zeros to \<open>k\<close> digits.\<close>

definition hex_pad :: "nat \<Rightarrow> nat \<Rightarrow> string" where
  "hex_pad k n = (let s = hex_nat n in replicate (k - length s) CHR ''0'' @ s)"

definition hex_byte :: "byte \<Rightarrow> string" where
  "hex_byte b = [hex_digit (unat b div 16), hex_digit (unat b mod 16)]"

definition hex_bytes :: "bytes \<Rightarrow> string" where
  "hex_bytes bs = concat (map hex_byte bs)"

lemma length_hex_bytes [simp]: "length (hex_bytes bs) = 2 * length bs"
  by (induction bs) (simp_all add: hex_bytes_def hex_byte_def)

lemma hex_digit_inject: "a < 16 \<Longrightarrow> b < 16 \<Longrightarrow> hex_digit a = hex_digit b \<longleftrightarrow> a = b"
proof -
  have d: "distinct ''0123456789abcdef''" by simp
  assume "a < 16" "b < 16"
  then show ?thesis
    by (simp add: hex_digit_def nth_eq_iff_index_eq [OF d])
qed

lemma hex_byte_inject: "hex_byte a = hex_byte b \<longleftrightarrow> a = b"
proof
  assume "hex_byte a = hex_byte b"
  then have "unat a div 16 = unat b div 16" "unat a mod 16 = unat b mod 16"
    using unat_byte_less [of a] unat_byte_less [of b]
    by (simp_all add: hex_byte_def hex_digit_inject less_mult_imp_div_less)
  then have "unat a = unat b" by (metis div_mult_mod_eq)
  then show "a = b" by (simp add: word_unat_eq_iff)
qed simp

text \<open>Two byte strings with the same hexadecimal text are the same bytes.\<close>

lemma hex_bytes_inject: "hex_bytes xs = hex_bytes ys \<longleftrightarrow> xs = ys"
proof (induction xs arbitrary: ys)
  case Nil
  then show ?case by (cases ys) (simp_all add: hex_bytes_def hex_byte_def)
next
  case (Cons x xs)
  show ?case
  proof (cases ys)
    case Nil
    then show ?thesis by (simp add: hex_bytes_def hex_byte_def)
  next
    case (Cons y ys')
    have "hex_bytes (x # xs) = hex_bytes (y # ys') \<longleftrightarrow>
        hex_byte x = hex_byte y \<and> hex_bytes xs = hex_bytes ys'"
      by (simp add: hex_bytes_def hex_byte_def)
    then show ?thesis using Cons Cons.IH by (simp add: hex_byte_inject)
  qed
qed

end
