(* ===== verification/Errors.thy ===== *)
theory Errors
  imports Broker_Prelude
begin

text \<open>
  \<open>broker/errors.py\<close>: the exception classes of the broker and the built-in ones the source
  raises or catches. An exception value is its class and its text (\<open>str(exc)\<close>); a call that may
  raise returns a value of \<open>exn + 'a\<close>, where \<open>Inl\<close> is the raise. \<open>derives\<close> is the class
  hierarchy; an \<open>except C\<close> clause takes the exceptions of which \<open>isinstance\<close> holds.
\<close>

datatype exn_class =
    BaseException | KeyboardInterrupt | Exception
  | ValueError | TypeError | AttributeError | RuntimeError | AssertionError
  | OSError | FileNotFoundError | UnicodeDecodeError | ImportError | ModuleNotFoundError
  | BrokerError | InvalidPokemon | MailNotSupported | JournalError | InvalidTransition
  | RecoveryRequired | EndpointError | ProtocolError | CommitNotConfirmed | PlaceholderMismatch
  | OtherException string

datatype exn = Exn (class_of: exn_class) (message: string)

text \<open>The bases each class statement names.\<close>

fun bases :: "exn_class \<Rightarrow> exn_class list" where
  "bases BaseException = []"
| "bases KeyboardInterrupt = [BaseException]"
| "bases Exception = [BaseException]"
| "bases ValueError = [Exception]"
| "bases TypeError = [Exception]"
| "bases AttributeError = [Exception]"
| "bases RuntimeError = [Exception]"
| "bases AssertionError = [Exception]"
| "bases OSError = [Exception]"
| "bases FileNotFoundError = [OSError]"
| "bases UnicodeDecodeError = [ValueError]"
| "bases ImportError = [Exception]"
| "bases ModuleNotFoundError = [ImportError]"
| "bases BrokerError = [Exception]"
| "bases InvalidPokemon = [BrokerError, ValueError]"
| "bases MailNotSupported = [InvalidPokemon]"
| "bases JournalError = [BrokerError]"
| "bases InvalidTransition = [JournalError]"
| "bases RecoveryRequired = [BrokerError]"
| "bases EndpointError = [BrokerError]"
| "bases ProtocolError = [EndpointError]"
| "bases CommitNotConfirmed = [EndpointError]"
| "bases PlaceholderMismatch = [RecoveryRequired]"
| "bases (OtherException n) = [Exception]"

text \<open>\<open>type(exc).__name__\<close>\<close>

fun class_name :: "exn_class \<Rightarrow> string" where
  "class_name BaseException = ''BaseException''"
| "class_name KeyboardInterrupt = ''KeyboardInterrupt''"
| "class_name Exception = ''Exception''"
| "class_name ValueError = ''ValueError''"
| "class_name TypeError = ''TypeError''"
| "class_name AttributeError = ''AttributeError''"
| "class_name RuntimeError = ''RuntimeError''"
| "class_name AssertionError = ''AssertionError''"
| "class_name OSError = ''OSError''"
| "class_name FileNotFoundError = ''FileNotFoundError''"
| "class_name UnicodeDecodeError = ''UnicodeDecodeError''"
| "class_name ImportError = ''ImportError''"
| "class_name ModuleNotFoundError = ''ModuleNotFoundError''"
| "class_name BrokerError = ''BrokerError''"
| "class_name InvalidPokemon = ''InvalidPokemon''"
| "class_name MailNotSupported = ''MailNotSupported''"
| "class_name JournalError = ''JournalError''"
| "class_name InvalidTransition = ''InvalidTransition''"
| "class_name RecoveryRequired = ''RecoveryRequired''"
| "class_name EndpointError = ''EndpointError''"
| "class_name ProtocolError = ''ProtocolError''"
| "class_name CommitNotConfirmed = ''CommitNotConfirmed''"
| "class_name PlaceholderMismatch = ''PlaceholderMismatch''"
| "class_name (OtherException n) = n"

section \<open>The class hierarchy\<close>

inductive derives :: "exn_class \<Rightarrow> exn_class \<Rightarrow> bool" where
  derives_refl [intro!]: "derives c c"
| derives_base: "b \<in> set (bases c) \<Longrightarrow> derives b d \<Longrightarrow> derives c d"

text \<open>The distance to \<^const>\<open>BaseException\<close>; it shows that the walk over the bases ends.\<close>

fun class_depth :: "exn_class \<Rightarrow> nat" where
  "class_depth BaseException = 0"
| "class_depth KeyboardInterrupt = 1"
| "class_depth Exception = 1"
| "class_depth FileNotFoundError = 3"
| "class_depth UnicodeDecodeError = 3"
| "class_depth ModuleNotFoundError = 3"
| "class_depth InvalidPokemon = 3"
| "class_depth MailNotSupported = 4"
| "class_depth JournalError = 3"
| "class_depth InvalidTransition = 4"
| "class_depth RecoveryRequired = 3"
| "class_depth EndpointError = 3"
| "class_depth ProtocolError = 4"
| "class_depth CommitNotConfirmed = 4"
| "class_depth PlaceholderMismatch = 4"
| "class_depth _ = 2"

lemma bases_depth: "b \<in> set (bases c) \<Longrightarrow> class_depth b < class_depth c"
  by (cases c) auto

function ancestors :: "exn_class \<Rightarrow> exn_class list" where
  "ancestors c = c # concat (map ancestors (bases c))"
  by pat_completeness auto
termination
  by (relation "measure class_depth") (auto simp: bases_depth)

declare ancestors.simps [simp del]

lemma ancestors_derives: "d \<in> set (ancestors c) \<longleftrightarrow> derives c d"
proof
  show "d \<in> set (ancestors c) \<Longrightarrow> derives c d"
  proof (induction c rule: ancestors.induct)
    case (1 c)
    then show ?case
      by (subst (asm) ancestors.simps) (auto intro: derives_base)
  qed
  show "derives c d \<Longrightarrow> d \<in> set (ancestors c)"
  proof (induction rule: derives.induct)
    case (derives_refl c)
    show ?case by (subst ancestors.simps) simp
  next
    case (derives_base b c d)
    then show ?case by (subst ancestors.simps) auto
  qed
qed

definition isinstance :: "exn \<Rightarrow> exn_class \<Rightarrow> bool" where
  "isinstance e c \<longleftrightarrow> c \<in> set (ancestors (class_of e))"

lemma isinstance_derives: "isinstance e c \<longleftrightarrow> derives (class_of e) c"
  by (simp add: isinstance_def ancestors_derives)

lemma derives_trans: "derives a b \<Longrightarrow> derives b c \<Longrightarrow> derives a c"
  by (induction rule: derives.induct) (auto intro: derives_base)

lemmas isinstance_simps = isinstance_def ancestors.simps

text \<open>\<open>f"{type(exc).__name__}: {exc}"\<close>\<close>

definition exn_text :: "exn \<Rightarrow> string" where
  "exn_text e = class_name (class_of e) @ '': '' @ message e"

end
