(* ===== verification/Streams.thy ===== *)
theory Streams
  imports Errors
begin

text \<open>
  Incremental parsing of a byte stream. \<open>find_sub\<close> is \<open>bytes.find\<close>. A decoder's loop body looks at
  the buffer and waits for more bytes, takes a unit off it, or raises; \<open>stream_step\<close> is these
  three outcomes, each with the buffer it leaves. The locale \<open>stream_decoder\<close> is the contract
  of a decoder that does not depend on how the transport cuts the stream: what a step does on
  a buffer it does on every extension of it, and a buffer that waits may be replaced by what
  it leaves. Its theorems are that feeding a stream in one piece, or in any chunks, is the same.
\<close>

definition starts_with :: "'a list \<Rightarrow> 'a list \<Rightarrow> bool" where
  "starts_with pat xs \<longleftrightarrow> take (length pat) xs = pat"

fun find_sub :: "'a list \<Rightarrow> 'a list \<Rightarrow> nat option" where
  "find_sub pat [] = (if pat = [] then Some 0 else None)"
| "find_sub pat (x # xs) =
    (if starts_with pat (x # xs) then Some 0 else map_option Suc (find_sub pat xs))"

datatype 'f stream_step =
    Wait bytes
  | Emit 'f bytes
  | Fail exn bytes

text \<open>Feeding chunks one after the other, stopping at the first error.\<close>

fun drain_chunks ::
  "(bytes \<Rightarrow> bytes \<times> 'f list \<times> exn option) \<Rightarrow> bytes \<Rightarrow> bytes list \<Rightarrow> bytes \<times> 'f list \<times> exn option"
where
  "drain_chunks drain b [] = (b, [], None)"
| "drain_chunks drain b (c # cs) = (case drain (b @ c) of
      (b', fs, Some e) \<Rightarrow> (b', fs, Some e)
    | (b', fs, None) \<Rightarrow> (case drain_chunks drain b' cs of (b'', gs, r) \<Rightarrow> (b'', fs @ gs, r)))"

section \<open>Finding a pattern\<close>

lemma starts_with_length: "starts_with pat xs \<Longrightarrow> length pat \<le> length xs"
  unfolding starts_with_def by (drule arg_cong [where f = length]) simp

lemma find_sub_Some: "find_sub pat xs = Some k \<Longrightarrow> k \<le> length xs \<and> starts_with pat (drop k xs)"
  by (induction xs arbitrary: k) (auto simp: starts_with_def split: if_splits)

lemma find_sub_least: "find_sub pat xs = Some k \<Longrightarrow> i < k \<Longrightarrow> \<not> starts_with pat (drop i xs)"
proof (induction xs arbitrary: k i)
  case (Cons x xs)
  then show ?case by (cases i) (auto split: if_splits)
qed (auto split: if_splits)

lemma find_sub_None: "find_sub pat xs = None \<Longrightarrow> \<not> starts_with pat (drop i xs)"
proof (induction xs arbitrary: i)
  case (Cons x xs)
  then show ?case by (cases i) (auto split: if_splits)
qed (auto simp: starts_with_def split: if_splits)

lemma find_sub_0: "starts_with pat xs \<Longrightarrow> find_sub pat xs = Some 0"
  by (cases xs) (auto simp: starts_with_def)

lemma find_sub_skip:
  "(\<And>i. i < m \<Longrightarrow> \<not> starts_with pat (drop i xs)) \<Longrightarrow> m \<le> length xs \<Longrightarrow>
   find_sub pat xs = map_option (\<lambda>k. k + m) (find_sub pat (drop m xs))"
proof (induction m arbitrary: xs)
  case 0
  then show ?case by (simp add: option.map_ident)
next
  case (Suc m)
  then obtain y ys where xs: "xs = y # ys" by (cases xs) auto
  have "\<not> starts_with pat (drop i ys)" if "i < m" for i
    using Suc.prems(1) [of "Suc i"] that xs by simp
  then have "find_sub pat ys = map_option (\<lambda>k. k + m) (find_sub pat (drop m ys))"
    using Suc.IH [of ys] Suc.prems(2) xs by simp
  moreover have "\<not> starts_with pat xs" using Suc.prems(1) [of 0] by simp
  ultimately show ?case by (simp add: xs option.map_comp comp_def)
qed

lemma starts_with_append: "starts_with pat xs \<Longrightarrow> starts_with pat (xs @ ys)"
  by (auto simp: starts_with_def take_append dest: arg_cong [where f = length])

lemma starts_with_appendD:
  "starts_with pat (xs @ ys) \<Longrightarrow> length pat \<le> length xs \<Longrightarrow> starts_with pat xs"
  by (simp add: starts_with_def)

lemma find_sub_append_Some: "find_sub pat xs = Some k \<Longrightarrow> find_sub pat (xs @ ys) = Some k"
proof (induction xs arbitrary: k)
  case Nil
  then show ?case by (cases ys) (auto simp: starts_with_def split: if_splits)
next
  case (Cons x xs)
  show ?case
  proof (cases "starts_with pat (x # xs)")
    case True
    then show ?thesis using Cons.prems starts_with_append [of pat "x # xs" ys] by simp
  next
    case False
    then obtain k' where k': "find_sub pat xs = Some k'" "k = Suc k'"
      using Cons.prems by auto
    then have "starts_with pat (drop k' xs)" "k' \<le> length xs"
      using find_sub_Some [OF k'(1)] by simp_all
    then have "length pat \<le> length xs"
      using starts_with_length [of pat "drop k' xs"] by simp
    then have "\<not> starts_with pat (x # xs @ ys)"
      using False starts_with_appendD [of pat "x # xs" ys] by auto
    then show ?thesis using k' Cons.IH by simp
  qed
qed

text \<open>Where a pattern is not found, only the last bytes can begin a later match.\<close>

lemma find_sub_append_None:
  assumes none: "find_sub pat xs = None" and m: "m \<le> length xs"
    and tail: "\<And>i. i < m \<Longrightarrow> length xs < i + length pat \<Longrightarrow> \<not> starts_with pat (drop i (xs @ ys))"
  shows "find_sub pat (xs @ ys) = map_option (\<lambda>k. k + m) (find_sub pat (drop m xs @ ys))"
proof -
  have "\<not> starts_with pat (drop i (xs @ ys))" if "i < m" for i
  proof (cases "length xs < i + length pat")
    case False
    show ?thesis
    proof
      assume "starts_with pat (drop i (xs @ ys))"
      then have "starts_with pat (drop i xs @ ys)" using that m by simp
      then have "starts_with pat (drop i xs)"
        by (rule starts_with_appendD) (use False in simp)
      then show False using find_sub_None [OF none] by simp
    qed
  qed (use that tail in blast)
  then show ?thesis
    using find_sub_skip [of m pat "xs @ ys"] m by simp
qed

section \<open>Decoders that do not see the chunks\<close>

locale stream_decoder =
  fixes step :: "bytes \<Rightarrow> 'f stream_step"
    and drain :: "bytes \<Rightarrow> bytes \<times> 'f list \<times> exn option"
  assumes drain_unfold: "drain b = (case step b of
        Wait b' \<Rightarrow> (b', [], None)
      | Fail e b' \<Rightarrow> (b', [], Some e)
      | Emit f b' \<Rightarrow> (case drain b' of (b'', fs, r) \<Rightarrow> (b'', f # fs, r)))"
    and emit_shorter: "step b = Emit f b' \<Longrightarrow> length b' < length b"
    and wait_extend: "step b = Wait b' \<Longrightarrow> step (b @ c) = step (b' @ c)"
    and emit_extend: "step b = Emit f b' \<Longrightarrow> step (b @ c) = Emit f (b' @ c)"
    and fail_extend: "step b = Fail e b' \<Longrightarrow> step (b @ c) = Fail e (b' @ c)"
begin

lemma drain_induct [case_names drain]:
  assumes "\<And>b. (\<And>f b'. step b = Emit f b' \<Longrightarrow> P b') \<Longrightarrow> P b"
  shows "P b"
proof (induction b rule: length_induct)
  case (1 b)
  then show ?case using assms emit_shorter by blast
qed

lemma drain_wait: "step b = Wait b' \<Longrightarrow> drain b = (b', [], None)"
  by (simp add: drain_unfold [of b])

lemma drain_fail: "step b = Fail e b' \<Longrightarrow> drain b = (b', [], Some e)"
  by (simp add: drain_unfold [of b])

lemma drain_emit:
  "step b = Emit f b' \<Longrightarrow> drain b = (case drain b' of (b'', fs, r) \<Rightarrow> (b'', f # fs, r))"
  by (simp add: drain_unfold [of b])

lemma drain_append_ok:
  "drain b = (b', fs, None) \<Longrightarrow>
   drain (b @ c) = (case drain (b' @ c) of (b'', gs, r) \<Rightarrow> (b'', fs @ gs, r))"
proof (induction b arbitrary: b' fs rule: drain_induct)
  case (drain b)
  show ?case
  proof (cases "step b")
    case (Wait x)
    then have "step (b @ c) = step (x @ c)" by (rule wait_extend)
    then have "drain (b @ c) = drain (x @ c)"
      by (simp add: drain_unfold [of "b @ c"] drain_unfold [of "x @ c"])
    then show ?thesis using drain.prems Wait by (simp add: drain_wait split: prod.splits)
  next
    case (Emit f x)
    obtain y gs r where d: "drain x = (y, gs, r)" by (cases "drain x") auto
    then have eq: "b' = y" "fs = f # gs" "r = None"
      using drain.prems Emit by (simp_all add: drain_emit)
    have "drain (x @ c) = (case drain (b' @ c) of (b'', hs, r) \<Rightarrow> (b'', gs @ hs, r))"
      using drain.IH [OF Emit] d eq by simp
    then show ?thesis
      using emit_extend [OF Emit, of c] eq by (simp add: drain_emit split: prod.splits)
  next
    case (Fail e x)
    then show ?thesis using drain.prems by (simp add: drain_fail)
  qed
qed

lemma drain_append_fail:
  "drain b = (b', fs, Some e) \<Longrightarrow> drain (b @ c) = (b' @ c, fs, Some e)"
proof (induction b arbitrary: b' fs rule: drain_induct)
  case (drain b)
  show ?case
  proof (cases "step b")
    case (Wait x)
    then show ?thesis using drain.prems by (simp add: drain_wait)
  next
    case (Emit f x)
    obtain y gs r where d: "drain x = (y, gs, r)" by (cases "drain x") auto
    then have eq: "b' = y" "fs = f # gs" "r = Some e"
      using drain.prems Emit by (simp_all add: drain_emit)
    then have "drain (x @ c) = (b' @ c, gs, Some e)"
      using drain.IH [OF Emit] d by simp
    then show ?thesis using emit_extend [OF Emit, of c] eq by (simp add: drain_emit)
  next
    case (Fail e' x)
    then show ?thesis using drain.prems fail_extend [OF Fail, of c] by (simp add: drain_fail)
  qed
qed

text \<open>
  A buffer that is settled (nothing can be taken off it now) followed by chunks yields what the
  whole stream yields, as long as the whole stream raises nothing.
\<close>

lemma drain_prefix_ok:
  assumes "drain (b @ c) = (b', fs, None)"
  shows "\<exists>x gs. drain b = (x, gs, None)"
proof (cases "drain b")
  case (fields x gs r)
  show ?thesis
  proof (cases r)
    case (Some e)
    then show ?thesis using drain_append_fail [of b x gs e c] fields assms by simp
  qed (use fields in simp)
qed

lemma drain_chunks_concat:
  assumes "drain (b @ concat cs) = (b', fs, None)" and "drain b = (b, [], None)"
  shows "drain_chunks drain b cs = (b', fs, None)"
  using assms
proof (induction cs arbitrary: b fs)
  case Nil
  then show ?case by simp
next
  case (Cons c cs)
  have whole: "drain ((b @ c) @ concat cs) = (b', fs, None)" using Cons.prems(1) by simp
  then obtain x gs where x: "drain (b @ c) = (x, gs, None)"
    using drain_prefix_ok by blast
  obtain hs where hs: "drain (x @ concat cs) = (b', hs, None)" and fs: "fs = gs @ hs"
    using drain_append_ok [OF x, of "concat cs"] whole by (auto split: prod.splits)
  have "drain (x @ []) = (x, [], None)"
    using drain_append_ok [OF x, of "[]"] x by (auto split: prod.splits)
  then have "drain_chunks drain x cs = (b', hs, None)" using Cons.IH hs by simp
  then show ?case using x fs by simp
qed

end

end
