(* ===== verification/Crc32.thy ===== *)
theory Crc32
  imports Broker_Prelude
begin

unbundle bit_operations_syntax

text \<open>
  \<open>zlib.crc32\<close> as the source uses it (the reflected polynomial \<open>0xEDB88320\<close>, all ones at the start,
  complemented at the end), and the contract of such a byte-wise check: the locale \<open>running_check\<close>
  asks that a step is injective in the running value and in the byte, and proves that a list
  of bytes with one byte changed has another value. The CRC is its interpretation.
\<close>

definition crc_bit :: "32 word \<Rightarrow> 32 word" where
  "crc_bit c = (if bit c 0 then drop_bit 1 c XOR 0xEDB88320 else drop_bit 1 c)"

definition crc_byte :: "32 word \<Rightarrow> byte \<Rightarrow> 32 word" where
  "crc_byte c b = (crc_bit ^^ 8) (c XOR ucast b)"

definition crc32 :: "bytes \<Rightarrow> nat" where
  "crc32 bs = unat (NOT (foldl crc_byte 0xFFFFFFFF bs))"

section \<open>The contract\<close>

locale running_check =
  fixes step :: "'s \<Rightarrow> 'b \<Rightarrow> 's"
  assumes inj_value: "step s b = step t b \<Longrightarrow> s = t"
    and inj_byte: "step s a = step s b \<Longrightarrow> a = b"
begin

lemma fold_inj_value: "foldl step s xs = foldl step t xs \<Longrightarrow> s = t"
proof (induction xs arbitrary: s t)
  case (Cons x xs)
  then have "step s x = step t x" by simp
  then show ?case by (rule inj_value)
qed simp

lemma fold_changed_byte:
  assumes "i < length xs" and "b \<noteq> xs ! i"
  shows "foldl step s (xs[i := b]) \<noteq> foldl step s xs"
proof
  assume eq: "foldl step s (xs[i := b]) = foldl step s xs"
  let ?t = "foldl step s (take i xs)"
  have "foldl step s (take i xs @ xs ! i # drop (Suc i) xs) = foldl step s xs"
    using assms by (simp add: id_take_nth_drop [symmetric])
  moreover have "foldl step s (take i xs @ b # drop (Suc i) xs) = foldl step s (xs[i := b])"
    using assms by (simp add: upd_conv_take_nth_drop)
  ultimately have "foldl step (step ?t b) (drop (Suc i) xs)
      = foldl step (step ?t (xs ! i)) (drop (Suc i) xs)"
    using eq by simp
  then have "step ?t b = step ?t (xs ! i)" by (rule fold_inj_value)
  then show False using assms inj_byte by blast
qed

end

section \<open>The CRC keeps it\<close>

lemma xor_w32_cancel:
  fixes a b k :: "32 word"
  assumes "a XOR k = b XOR k"
  shows "a = b"
proof -
  have "a = (a XOR k) XOR k" by (simp add: xor.assoc)
  also have "\<dots> = b" unfolding assms by (simp add: xor.assoc)
  finally show ?thesis .
qed

text \<open>The top bit of a step is the bottom bit before it, since the polynomial has its top bit set.\<close>

lemma crc_bit_top: "bit (crc_bit c) 31 = bit c 0"
  by (auto simp: crc_bit_def bit_simps bit_numeral_rec dest: bit_imp_le_length)

lemma drop_bit_one_inj:
  fixes c d :: "32 word"
  assumes "drop_bit 1 c = drop_bit 1 d" and "bit c 0 = bit d 0"
  shows "c = d"
proof (rule bit_eqI)
  fix n :: nat
  show "bit c n = bit d n"
  proof (cases n)
    case 0
    then show ?thesis using assms(2) by simp
  next
    case (Suc m)
    have "bit (drop_bit 1 c) m = bit (drop_bit 1 d) m" using assms(1) by simp
    then show ?thesis using Suc by (simp add: bit_drop_bit_eq)
  qed
qed

lemma crc_bit_inj: "crc_bit c = crc_bit d \<Longrightarrow> c = d"
proof -
  assume eq: "crc_bit c = crc_bit d"
  then have b0: "bit c 0 = bit d 0" using crc_bit_top by metis
  then have "drop_bit 1 c = drop_bit 1 d"
    using eq by (auto simp: crc_bit_def split: if_splits dest: xor_w32_cancel)
  then show "c = d" using b0 by (rule drop_bit_one_inj)
qed

lemma crc_bits_inj: "(crc_bit ^^ n) c = (crc_bit ^^ n) d \<Longrightarrow> c = d"
  by (induction n) (auto dest: crc_bit_inj)

lemma crc_byte_inj_value: "crc_byte c b = crc_byte d b \<Longrightarrow> c = d"
  unfolding crc_byte_def by (drule crc_bits_inj) (rule xor_w32_cancel)

lemma crc_byte_inj_byte:
  assumes "crc_byte c a = crc_byte c b"
  shows "a = b"
proof -
  have "(ucast a :: 32 word) XOR c = ucast b XOR c"
    using crc_bits_inj [OF assms [unfolded crc_byte_def]] by (simp add: xor.commute)
  then have "(ucast a :: 32 word) = ucast b" by (rule xor_w32_cancel)
  then have "unat (ucast a :: 32 word) = unat (ucast b :: 32 word)" by simp
  moreover have "unat (ucast x :: 32 word) = unat x" for x :: byte
    by (simp add: unsigned_ucast_eq take_bit_nat_eq_self less_trans [OF unat_byte_less])
  ultimately show ?thesis by (simp add: word_unat_eq_iff)
qed

interpretation crc: running_check crc_byte
  by unfold_locales (auto dest: crc_byte_inj_value crc_byte_inj_byte)

lemma crc32_bound: "crc32 bs < 2 ^ 32"
  using unsigned_less [of "NOT (foldl crc_byte 0xFFFFFFFF bs)", where 'a = nat]
  by (simp add: crc32_def)

lemma crc32_changed_byte: "i < length xs \<Longrightarrow> b \<noteq> xs ! i \<Longrightarrow> crc32 (xs[i := b]) \<noteq> crc32 xs"
  using crc.fold_changed_byte [of i xs b "0xFFFFFFFF"]
  by (simp add: crc32_def word_unat_eq_iff [symmetric] bit.compl_eq_compl_iff)

end
