(* ===== verification/Uuid.thy ===== *)
theory Uuid
  imports Broker_Prelude
begin

text \<open>
  \<open>uuid.UUID\<close> as the source uses it: the value is its 16 bytes (\<open>UUID(bytes=b)\<close>, \<open>u.bytes\<close>),
  \<open>uuid_str\<close> is \<open>str(u)\<close>, and \<open>uuid_text_ok s\<close> says that \<open>UUID(s)\<close> does not raise \<open>ValueError\<close>.
  The constructor drops \<open>urn:\<close>, \<open>uuid:\<close>, braces and hyphens, wants 32 characters and reads them
  with \<open>int(hex, 16)\<close>, which takes surrounding white space, a sign, a \<open>0x\<close> prefix and single
  underscores; digits and spaces outside ASCII, which \<open>int\<close> would take too, are not modelled.
\<close>

typedef uuid = "{bs :: bytes. length bs = 16}"
  morphisms uuid_bytes Abs_uuid
  by (rule exI [of _ "replicate 16 0"]) simp

lemma length_uuid_bytes [simp]: "length (uuid_bytes u) = 16"
  using uuid_bytes [of u] by simp

lemma uuid_bytes_Abs [simp]: "length bs = 16 \<Longrightarrow> uuid_bytes (Abs_uuid bs) = bs"
  by (simp add: Abs_uuid_inverse)

lemma Abs_uuid_bytes [simp]: "Abs_uuid (uuid_bytes u) = u"
  by (rule uuid_bytes_inverse)

lemma uuid_bytes_eq_iff [simp]: "uuid_bytes u = uuid_bytes v \<longleftrightarrow> u = v"
  by (rule uuid_bytes_inject)

definition uuid_str :: "uuid \<Rightarrow> string" where
  "uuid_str u = (let h = hex_bytes (uuid_bytes u) in
     slice 0 8 h @ ''-'' @ slice 8 12 h @ ''-'' @ slice 12 16 h @ ''-'' @ slice 16 20 h @ ''-'' @
     drop 20 h)"

text \<open>\<open>s.replace(pat, "")\<close> for a non-empty \<open>pat\<close>.\<close>

function remove_sub :: "string \<Rightarrow> string \<Rightarrow> string" where
  "remove_sub pat s = (case s of
      [] \<Rightarrow> []
    | c # cs \<Rightarrow>
        if pat \<noteq> [] \<and> take (length pat) s = pat then remove_sub pat (drop (length pat) s)
        else c # remove_sub pat cs)"
  by pat_completeness auto
termination
  by (relation "measure (\<lambda>(pat, s). length s)") auto

declare remove_sub.simps [simp del]

definition strip_chars :: "(char \<Rightarrow> bool) \<Rightarrow> string \<Rightarrow> string" where
  "strip_chars p s = rev (dropWhile p (rev (dropWhile p s)))"

definition ascii_space :: "char \<Rightarrow> bool" where
  "ascii_space c \<longleftrightarrow> c \<in> set [CHR '' '', CHR 0x09, CHR 0x0A, CHR 0x0B, CHR 0x0C, CHR 0x0D,
     CHR 0x1C, CHR 0x1D, CHR 0x1E, CHR 0x1F]"

definition hex_char :: "char \<Rightarrow> bool" where
  "hex_char c \<longleftrightarrow> c \<in> set ''0123456789abcdefABCDEF''"

text \<open>Digits with single underscores between them.\<close>

fun hex_digits_ok :: "string \<Rightarrow> bool" where
  "hex_digits_ok [] = False"
| "hex_digits_ok [c] = hex_char c"
| "hex_digits_ok (c # d # s) =
    (hex_char c \<and> (if d = CHR ''_'' then hex_digits_ok s else hex_digits_ok (d # s)))"

definition int16_text_ok :: "string \<Rightarrow> bool" where
  "int16_text_ok text = (
    let s = strip_chars ascii_space text;
        neg = (take 1 s = ''-'');
        s1 = (if take 1 s = ''-'' \<or> take 1 s = ''+'' then drop 1 s else s);
        s2 = (if take 2 s1 = ''0x'' \<or> take 2 s1 = ''0X''
              then (if take 1 (drop 2 s1) = ''_'' then drop 3 s1 else drop 2 s1) else s1)
    in hex_digits_ok s2 \<and> (neg \<longrightarrow> set s2 \<subseteq> set ''0_''))"

definition uuid_text_ok :: "string \<Rightarrow> bool" where
  "uuid_text_ok text = (
    let h = remove_sub ''uuid:'' (remove_sub ''urn:'' text);
        h = remove_sub ''-'' (strip_chars (\<lambda>c. c \<in> set ''{}'') h)
    in length h = 32 \<and> int16_text_ok h)"

section \<open>What \<open>str\<close> writes, the constructor reads\<close>

lemma hex_digit_hex_char: "hex_char (hex_digit d)"
proof -
  have "hex_digit d \<in> set ''0123456789abcdef''"
    unfolding hex_digit_def by (rule nth_mem) simp
  then show ?thesis by (auto simp: hex_char_def)
qed

lemma hex_bytes_chars: "c \<in> set (hex_bytes bs) \<Longrightarrow> hex_char c"
  by (auto simp: hex_bytes_def hex_byte_def hex_digit_hex_char)

lemma remove_sub_id:
  "pat \<noteq> [] \<Longrightarrow> hd pat \<notin> set s \<Longrightarrow> remove_sub pat s = s"
proof (induction s)
  case Nil
  then show ?case by (simp add: remove_sub.simps)
next
  case (Cons c cs)
  have "take (length pat) (c # cs) \<noteq> pat"
    using Cons.prems by (cases pat) auto
  then show ?case using Cons by (simp add: remove_sub.simps [of pat "c # cs"])
qed

lemma remove_sub_char_append:
  "remove_sub [x] (s @ t) = remove_sub [x] s @ remove_sub [x] t"
proof (induction s)
  case Nil
  then show ?case by (simp add: remove_sub.simps [of _ "[]"])
next
  case (Cons c cs)
  then show ?case
    by (simp add: remove_sub.simps [of "[x]" "c # cs @ t"] remove_sub.simps [of "[x]" "c # cs"])
qed

lemma remove_sub_char_self: "remove_sub [x] [x] = []"
  by (simp add: remove_sub.simps [of "[x]" "[x]"] remove_sub.simps [of _ "[]"])

lemma strip_chars_id:
  assumes "\<And>c. c \<in> set s \<Longrightarrow> \<not> p c"
  shows "strip_chars p s = s"
proof -
  have "dropWhile p t = t" if "set t \<subseteq> set s" for t
    using assms that by (cases t) auto
  then show ?thesis by (simp add: strip_chars_def)
qed

lemma hex_digits_ok_all: "s \<noteq> [] \<Longrightarrow> (\<And>c. c \<in> set s \<Longrightarrow> hex_char c) \<Longrightarrow> hex_digits_ok s"
  by (induction s rule: hex_digits_ok.induct) (auto simp: hex_char_def)

lemma hex_char_not: "\<not> hex_char (CHR ''u'')" "\<not> hex_char (CHR ''-'')" "\<not> hex_char (CHR ''{'')"
  "\<not> hex_char (CHR ''}'')" "\<not> hex_char (CHR ''+'')" "\<not> hex_char (CHR ''x'')" "\<not> hex_char (CHR ''X'')"
  by (simp_all add: hex_char_def)

lemma hex_char_not_space: "hex_char c \<Longrightarrow> \<not> ascii_space c"
  by (auto simp: hex_char_def ascii_space_def)

lemma int16_text_hex:
  assumes "s \<noteq> []" and hex: "\<And>c. c \<in> set s \<Longrightarrow> hex_char c"
  shows "int16_text_ok s"
proof -
  have "strip_chars ascii_space s = s"
    using hex hex_char_not_space by (intro strip_chars_id) blast
  moreover obtain c cs where s: "s = c # cs" using assms(1) by (cases s) auto
  have "hex_char c" using hex s by simp
  then have "c \<noteq> CHR ''-''" "c \<noteq> CHR ''+''" using hex_char_not by metis+
  moreover have "take 2 s \<noteq> ''0x'' \<and> take 2 s \<noteq> ''0X''"
  proof -
    have "CHR ''x'' \<notin> set s" "CHR ''X'' \<notin> set s" using hex hex_char_not by blast+
    moreover have "set (take 2 s) \<subseteq> set s" by (rule set_take_subset)
    ultimately show ?thesis by (metis list.set_intros(1) list.set_intros(2) subsetD)
  qed
  ultimately show ?thesis
    using hex_digits_ok_all [OF assms] by (auto simp: int16_text_ok_def Let_def s)
qed

lemma uuid_str_parses: "uuid_text_ok (uuid_str u)"
proof -
  let ?h = "hex_bytes (uuid_bytes u)"
  have hex: "hex_char c" if "c \<in> set ?h" for c using that by (rule hex_bytes_chars)
  have part: "set (slice a b ?h) \<subseteq> set ?h" for a b
    unfolding slice_def by (meson set_drop_subset set_take_subset subset_trans)
  have chars: "hex_char c \<or> c = CHR ''-''" if "c \<in> set (uuid_str u)" for c
    using that part hex set_drop_subset [of 20 ?h] by (auto simp: uuid_str_def Let_def)
  have nu: "CHR ''u'' \<notin> set (uuid_str u)" using chars [of "CHR ''u''"] hex_char_not by auto
  have rm: "remove_sub ''urn:'' (uuid_str u) = uuid_str u" "remove_sub ''uuid:'' (uuid_str u) = uuid_str u"
    using nu by (simp_all add: remove_sub_id)
  have st: "strip_chars (\<lambda>c. c \<in> set ''{}'') (uuid_str u) = uuid_str u"
    using chars hex_char_not by (intro strip_chars_id) auto
  have id: "remove_sub ''-'' (slice a b ?h) = slice a b ?h" "remove_sub ''-'' (drop n ?h) = drop n ?h" for a b n
  proof -
    have nd: "CHR ''-'' \<notin> set ?h" using hex [of "CHR ''-''"] hex_char_not by auto
    then have "CHR ''-'' \<notin> set (slice a b ?h)" "CHR ''-'' \<notin> set (drop n ?h)"
      using part [of a b] set_drop_subset [of n ?h] by auto
    then show "remove_sub ''-'' (slice a b ?h) = slice a b ?h"
      "remove_sub ''-'' (drop n ?h) = drop n ?h" by (simp_all add: remove_sub_id)
  qed
  have "remove_sub ''-'' (uuid_str u) =
      slice 0 8 ?h @ slice 8 12 ?h @ slice 12 16 ?h @ slice 16 20 ?h @ drop 20 ?h"
    by (simp only: uuid_str_def Let_def remove_sub_char_append id remove_sub_char_self append_Nil)
  also have "\<dots> = ?h"
    by (simp add: slice_drop_join)
  finally have "remove_sub ''-'' (uuid_str u) = ?h" .
  moreover have "int16_text_ok ?h" using hex by (intro int16_text_hex) (auto simp flip: length_0_conv)
  ultimately show ?thesis by (simp only: uuid_text_ok_def Let_def rm st) simp
qed

end
