(* ===== verification/Protocol.thy ===== *)
theory Protocol
  imports Streams Crc32 Uuid
begin

text \<open>
  \<open>broker/gba/protocol.py\<close>: the versioned frames of the GB-Link link. \<open>mk_frame\<close> is the frozen
  dataclass with its checks, \<open>encode\<close> its method; the decoder's state is its buffer, and
  \<open>decode_step\<close> is one turn of the loop of \<open>FrameDecoder.feed\<close>: wait for more bytes, take a
  frame off the buffer, or raise. A raise drops the frames that the same call has already
  decoded, as the source's local list is dropped. \<open>replay_accept\<close> is \<open>ReplayWindow.accept\<close>.
\<close>

definition magic :: bytes where "magic = [0x46, 0x47, 0x42, 0x52]"
definition version :: nat where "version = 1"
definition max_payload :: nat where "max_payload = 4096"
definition header_size :: nat where "header_size = 32"
definition crc_size :: nat where "crc_size = 4"

lemmas protocol_consts = magic_def version_def max_payload_def header_size_def crc_size_def

datatype message_type =
    HELLO | GET_CAPABILITIES | CAPABILITIES
  | TRADE_SESSION_STARTED | PARTNER_PARTY | PARTNER_SELECTED_SLOT | PARTNER_SELECTED_MON
  | SET_OFFER_MON | OFFER_READY | TRADE_NEGOTIATION
  | TRADE_COMMITTED | TRADE_ABORTED | TRADE_LINK_CLOSED | ABORT_IF_SAFE | ERROR

fun type_code :: "message_type \<Rightarrow> nat" where
  "type_code HELLO = 0x01"
| "type_code GET_CAPABILITIES = 0x02"
| "type_code CAPABILITIES = 0x03"
| "type_code TRADE_SESSION_STARTED = 0x10"
| "type_code PARTNER_PARTY = 0x11"
| "type_code PARTNER_SELECTED_SLOT = 0x12"
| "type_code PARTNER_SELECTED_MON = 0x13"
| "type_code SET_OFFER_MON = 0x20"
| "type_code OFFER_READY = 0x21"
| "type_code TRADE_NEGOTIATION = 0x22"
| "type_code TRADE_COMMITTED = 0x23"
| "type_code TRADE_ABORTED = 0x24"
| "type_code TRADE_LINK_CLOSED = 0x25"
| "type_code ABORT_IF_SAFE = 0x26"
| "type_code ERROR = 0x7F"

definition message_types :: "message_type list" where
  "message_types = [HELLO, GET_CAPABILITIES, CAPABILITIES, TRADE_SESSION_STARTED, PARTNER_PARTY,
     PARTNER_SELECTED_SLOT, PARTNER_SELECTED_MON, SET_OFFER_MON, OFFER_READY, TRADE_NEGOTIATION,
     TRADE_COMMITTED, TRADE_ABORTED, TRADE_LINK_CLOSED, ABORT_IF_SAFE, ERROR]"

text \<open>\<open>MessageType(raw)\<close>: the member with that value; \<open>None\<close> is the \<open>ValueError\<close>.\<close>

definition message_of :: "nat \<Rightarrow> message_type option" where
  "message_of n = find (\<lambda>t. type_code t = n) message_types"

record frame =
  message_type :: message_type
  transaction_id :: uuid
  sequence :: int
  payload :: bytes
  flags :: int

definition mk_frame ::
  "message_type \<Rightarrow> uuid \<Rightarrow> int \<Rightarrow> bytes \<Rightarrow> int \<Rightarrow> exn + frame"
where
  "mk_frame t u n bs fl = (
    if \<not> (0 \<le> n \<and> n \<le> 0xFFFFFFFF) then
      Inl (Exn ProtocolError ''frame sequence does not fit u32'')
    else if fl \<noteq> 0 then Inl (Exn ProtocolError ''v1 frame flags must be zero'')
    else if length bs > max_payload then
      Inl (Exn ProtocolError (''payload exceeds '' @ dec (int max_payload) @ '' bytes''))
    else Inr \<lparr>message_type = t, transaction_id = u, sequence = n, payload = bs, flags = fl\<rparr>)"

text \<open>\<open>struct.Struct("<4sBBHI16sI")\<close> on the fields of a frame.\<close>

definition header :: "frame \<Rightarrow> bytes" where
  "header f = magic @ [of_nat version] @ [of_nat (type_code (message_type f))] @
     le_bytes 2 (nat (flags f)) @ le_bytes 4 (length (payload f)) @
     uuid_bytes (transaction_id f) @ le_bytes 4 (nat (sequence f))"

definition encode :: "frame \<Rightarrow> bytes" where
  "encode f = (let body = header f @ payload f in body @ le_bytes 4 (crc32 body))"

text \<open>
  One turn of the loop of \<open>feed\<close>. \<open>decode_frame\<close> is the part after the buffer has been cut to
  begin with the magic bytes, \<open>check_frame\<close> the checks once the whole frame is there.
\<close>

definition check_frame ::
  "nat \<Rightarrow> nat \<Rightarrow> nat \<Rightarrow> bytes \<Rightarrow> nat \<Rightarrow> bytes \<Rightarrow> nat \<Rightarrow> exn + frame"
where
  "check_frame ver raw_type fl txid seqno encoded expected_crc = (
    let actual_crc = crc32 encoded in
    if actual_crc \<noteq> expected_crc then
      Inl (Exn ProtocolError (''frame CRC mismatch: expected '' @ hex_pad 8 expected_crc @
        '', got '' @ hex_pad 8 actual_crc))
    else if ver \<noteq> version then
      Inl (Exn ProtocolError (''unsupported protocol version '' @ dec (int ver)))
    else if fl \<noteq> 0 then
      Inl (Exn ProtocolError (''unsupported v1 flags 0x'' @ hex_pad 4 fl))
    else (case message_of raw_type of
        None \<Rightarrow> Inl (Exn ProtocolError (''unknown message type 0x'' @ hex_pad 2 raw_type))
      | Some t \<Rightarrow> mk_frame t (Abs_uuid txid) (int seqno) (drop header_size encoded) (int fl)))"

definition decode_frame :: "bytes \<Rightarrow> frame stream_step" where
  "decode_frame buf = (
    if length buf < header_size then Wait buf
    else
      let ver = unat (buf ! 4);
          raw_type = unat (buf ! 5);
          fl = le_nat (slice 6 8 buf);
          size = le_nat (slice 8 12 buf);
          txid = slice 12 28 buf;
          seqno = le_nat (slice 28 32 buf)
      in if size > max_payload then
           Fail (Exn ProtocolError (''declared payload exceeds '' @ dec (int max_payload) @ '' bytes''))
             (drop (length magic) buf)
         else
           let total = header_size + size + crc_size in
           if length buf < total then Wait buf
           else
             let encoded = take (header_size + size) buf;
                 expected_crc = le_nat (slice (header_size + size) total buf)
             in (case check_frame ver raw_type fl txid seqno encoded expected_crc of
                   Inl e \<Rightarrow> Fail e (drop total buf)
                 | Inr f \<Rightarrow> Emit f (drop total buf)))"

definition decode_step :: "bytes \<Rightarrow> frame stream_step" where
  "decode_step buffer = (case find_sub magic buffer of
      None \<Rightarrow> Wait (drop (length buffer - min (length buffer) (length magic - 1)) buffer)
    | Some magic_at \<Rightarrow> decode_frame (drop magic_at buffer))"

lemma decode_emit_shorter: "decode_step b = Emit f b' \<Longrightarrow> length b' < length b"
  by (auto simp: decode_step_def decode_frame_def Let_def header_size_def crc_size_def
      split: option.splits if_splits sum.splits dest: find_sub_Some)

text \<open>The loop: the frames taken off, the buffer left, and the exception, if one is raised.\<close>

function decode_loop :: "bytes \<Rightarrow> bytes \<times> frame list \<times> exn option" where
  "decode_loop b = (case decode_step b of
      Wait b' \<Rightarrow> (b', [], None)
    | Fail e b' \<Rightarrow> (b', [], Some e)
    | Emit f b' \<Rightarrow> (case decode_loop b' of (b'', fs, r) \<Rightarrow> (b'', f # fs, r)))"
  by pat_completeness auto
termination
  by (relation "measure length") (auto dest: decode_emit_shorter)

declare decode_loop.simps [simp del]

text \<open>\<open>FrameDecoder.feed(data)\<close> on the decoder's buffer.\<close>

definition feed :: "bytes \<Rightarrow> bytes \<Rightarrow> bytes \<times> (exn + frame list)" where
  "feed buffer data = (case decode_loop (buffer @ data) of
      (b, fs, None) \<Rightarrow> (b, Inr fs)
    | (b, fs, Some e) \<Rightarrow> (b, Inl e))"

text \<open>\<open>ReplayWindow.accept\<close> on the map of the last accepted sequence numbers.\<close>

definition replay_accept :: "(uuid \<rightharpoonup> int) \<Rightarrow> frame \<Rightarrow> exn + (uuid \<rightharpoonup> int)" where
  "replay_accept window f = (
    let u = transaction_id f; accepted = window(u \<mapsto> sequence f) in
    case window u of
      Some previous \<Rightarrow>
        if sequence f \<le> previous then
          Inl (Exn ProtocolError (''replayed/out-of-order frame '' @ dec (sequence f) @
            ''; last accepted was '' @ dec previous))
        else Inr accepted
    | None \<Rightarrow> Inr accepted)"

section \<open>Frames\<close>

definition wf_frame :: "frame \<Rightarrow> bool" where
  "wf_frame f \<longleftrightarrow> 0 \<le> sequence f \<and> sequence f \<le> 0xFFFFFFFF \<and> flags f = 0 \<and>
     length (payload f) \<le> max_payload"

lemma mk_frame_Inr:
  "mk_frame t u n bs fl = Inr f \<longleftrightarrow>
    wf_frame f \<and> f = \<lparr>message_type = t, transaction_id = u, sequence = n, payload = bs, flags = fl\<rparr>"
  by (auto simp: mk_frame_def wf_frame_def)

lemma message_of_code [simp]: "message_of (type_code t) = Some t"
  by (cases t) (simp_all add: message_of_def message_types_def)

lemma message_of_Some: "message_of n = Some t \<Longrightarrow> type_code t = n"
  by (auto simp: message_of_def find_Some_iff)

lemma type_code_less [simp]: "type_code t < 256"
  by (cases t) simp_all

lemma length_header [simp]: "length (header f) = header_size"
  by (simp add: header_def protocol_consts)

lemma length_encode [simp]: "length (encode f) = header_size + length (payload f) + crc_size"
  by (simp add: encode_def Let_def crc_size_def)

section \<open>The decoder does not see the chunks\<close>

lemma length_magic: "length magic = 4"
  by (simp add: magic_def)

lemma decode_frame_wait: "decode_frame b = Wait b' \<Longrightarrow> b' = b"
  by (auto simp: decode_frame_def Let_def split: option.splits if_splits sum.splits)

lemma decode_frame_wait_bound:
  "decode_frame b = Wait b' \<Longrightarrow> length b' < header_size + max_payload + crc_size"
  by (auto simp: decode_frame_def Let_def split: if_splits sum.splits)

lemma decode_frame_extend:
  assumes "\<And>x. decode_frame b \<noteq> Wait x"
  shows "decode_frame (b @ c) = (case decode_frame b of
      Wait x \<Rightarrow> Wait x | Emit f x \<Rightarrow> Emit f (x @ c) | Fail e x \<Rightarrow> Fail e (x @ c))"
proof -
  let ?size = "le_nat (slice 8 12 b)"
  have h: "header_size \<le> length b"
  proof (rule ccontr)
    assume "\<not> header_size \<le> length b"
    then have "decode_frame b = Wait b" by (simp add: decode_frame_def)
    then show False using assms by blast
  qed
  then have fields: "(b @ c) ! 4 = b ! 4" "(b @ c) ! 5 = b ! 5" "slice 6 8 (b @ c) = slice 6 8 b"
    "slice 8 12 (b @ c) = slice 8 12 b" "slice 12 28 (b @ c) = slice 12 28 b"
    "slice 28 32 (b @ c) = slice 28 32 b"
    by (simp_all add: header_size_def nth_append slice_append_left)
  show ?thesis
  proof (cases "?size > max_payload")
    case True
    then show ?thesis using h by (simp add: decode_frame_def Let_def fields header_size_def magic_def)
  next
    case False
    have t: "header_size + ?size + crc_size \<le> length b"
    proof (rule ccontr)
      assume "\<not> header_size + ?size + crc_size \<le> length b"
      then have "decode_frame b = Wait b" using False h by (simp add: decode_frame_def Let_def)
      then show False using assms by blast
    qed
    then have "take (header_size + ?size) (b @ c) = take (header_size + ?size) b"
      and "slice (header_size + ?size) (header_size + ?size + crc_size) (b @ c) =
        slice (header_size + ?size) (header_size + ?size + crc_size) b"
      by (simp_all add: slice_append_left)
    then show ?thesis using False t h
      by (simp add: decode_frame_def Let_def fields split: sum.splits)
  qed
qed

lemma decode_step_starts: "starts_with magic b \<Longrightarrow> decode_step b = decode_frame b"
  by (simp add: decode_step_def find_sub_0)

lemma decode_step_wait:
  assumes "decode_step b = Wait b'"
  shows "decode_step (b @ c) = decode_step (b' @ c)"
proof (cases "find_sub magic b")
  case None
  let ?m = "length b - min (length b) 3"
  have b': "b' = drop ?m b"
    using assms None unfolding decode_step_def by (simp add: length_magic)
  have "find_sub magic (b @ c) = map_option (\<lambda>k. k + ?m) (find_sub magic (drop ?m b @ c))"
    using None by (rule find_sub_append_None) (auto simp: length_magic)
  moreover have "drop (k + ?m) (b @ c) = drop k (drop ?m b @ c)" for k
    by (simp add: drop_append ac_simps)
  moreover have "drop (length (b @ c) - min (length (b @ c)) 3) (b @ c) =
      drop (length (b' @ c) - min (length (b' @ c)) 3) (b' @ c)"
    unfolding b' by (auto simp: min_def add.commute)
  ultimately show ?thesis
    by (simp add: decode_step_def b' length_magic split: option.splits)
next
  case (Some k)
  then have frame: "decode_frame (drop k b) = Wait b'" using assms by (simp add: decode_step_def)
  then have b': "b' = drop k b" by (rule decode_frame_wait)
  have k: "k \<le> length b" and m: "starts_with magic (drop k b)"
    using find_sub_Some [OF Some] by simp_all
  have "decode_step (b @ c) = decode_frame (drop k b @ c)"
    using find_sub_append_Some [OF Some, of c] k by (simp add: decode_step_def)
  also have "\<dots> = decode_step (drop k b @ c)"
    using starts_with_append [OF m] by (simp add: decode_step_starts)
  finally show ?thesis using b' by simp
qed

lemma decode_step_found:
  assumes "decode_step b = s" and "\<And>x. s \<noteq> Wait x"
  obtains k where "find_sub magic b = Some k" "k \<le> length b" "decode_frame (drop k b) = s"
  using assms by (auto simp: decode_step_def split: option.splits dest: find_sub_Some)

lemma decode_step_extend:
  "decode_step b = Emit f b' \<Longrightarrow> decode_step (b @ c) = Emit f (b' @ c)"
  "decode_step b = Fail e b' \<Longrightarrow> decode_step (b @ c) = Fail e (b' @ c)"
  by (erule decode_step_found, simp,
      simp add: decode_step_def find_sub_append_Some decode_frame_extend)+

interpretation frames: stream_decoder decode_step decode_loop
  by unfold_locales
    (auto simp: decode_step_extend decode_emit_shorter
      intro: decode_loop.simps decode_step_wait)

section \<open>Encoding and decoding are inverse\<close>

lemma le_nat_crc: "le_nat (le_bytes 4 (crc32 bs)) = crc32 bs"
  using crc32_bound [of bs] by (intro le_nat_le_bytes_small) simp

lemma encode_fields:
  assumes "wf_frame f"
  shows "starts_with magic (encode f @ c)"
    and "(encode f @ c) ! 4 = of_nat version"
    and "(encode f @ c) ! 5 = of_nat (type_code (message_type f))"
    and "slice 6 8 (encode f @ c) = le_bytes 2 0"
    and "slice 8 12 (encode f @ c) = le_bytes 4 (length (payload f))"
    and "slice 12 28 (encode f @ c) = uuid_bytes (transaction_id f)"
    and "slice 28 32 (encode f @ c) = le_bytes 4 (nat (sequence f))"
  using assms
  by (simp_all add: encode_def Let_def header_def wf_frame_def starts_with_def protocol_consts
      nth_append slice_append_right slice_append_left slice_Cons)

lemma encode_body:
  "take (header_size + length (payload f)) (encode f @ c) = header f @ payload f"
  "slice (header_size + length (payload f)) (header_size + length (payload f) + crc_size) (encode f @ c)
    = le_bytes 4 (crc32 (header f @ payload f))"
  "drop (header_size + length (payload f) + crc_size) (encode f @ c) = c"
  by (simp_all add: encode_def Let_def slice_append_right slice_append_left crc_size_def)

lemma payload_size: "wf_frame f \<Longrightarrow> le_nat (le_bytes 4 (length (payload f))) = length (payload f)"
  by (rule le_nat_le_bytes_small) (simp add: wf_frame_def max_payload_def)

lemma check_frame_encode:
  assumes "wf_frame f"
  shows "check_frame version (type_code (message_type f)) 0 (uuid_bytes (transaction_id f))
      (nat (sequence f)) (header f @ payload f) (crc32 (header f @ payload f)) = Inr f"
  using assms by (simp add: check_frame_def Let_def mk_frame_Inr wf_frame_def)

lemma decode_frame_encode: "wf_frame f \<Longrightarrow> decode_frame (encode f @ c) = Emit f c"
proof -
  assume wf: "wf_frame f"
  have seqno: "le_nat (le_bytes 4 (nat (sequence f))) = nat (sequence f)"
    using wf by (intro le_nat_le_bytes_small) (simp add: wf_frame_def nat_less_iff)
  have v: "unat (of_nat version :: byte) = version"
    and t: "unat (of_nat (type_code (message_type f)) :: byte) = type_code (message_type f)"
    by (simp_all add: version_def unat_of_nat)
  have "\<not> max_payload < length (payload f)" using wf by (simp add: wf_frame_def)
  then show ?thesis
    unfolding decode_frame_def Let_def encode_fields [OF wf] payload_size [OF wf] encode_body
      le_nat_crc seqno v t check_frame_encode [OF wf]
    using check_frame_encode [OF wf] by (simp add: numeral_2_eq_2)
qed

lemma decode_step_encode: "wf_frame f \<Longrightarrow> decode_step (encode f @ c) = Emit f c"
  by (simp add: decode_step_starts encode_fields decode_frame_encode)

lemma decode_loop_encode:
  "wf_frame f \<Longrightarrow> decode_loop (encode f @ c) = (case decode_loop c of (b, fs, r) \<Rightarrow> (b, f # fs, r))"
  by (rule frames.drain_emit) (rule decode_step_encode)

lemma decode_step_empty: "decode_step [] = Wait []"
  by (simp add: decode_step_def magic_def)

lemma decode_loop_encodes:
  "(\<And>f. f \<in> set fs \<Longrightarrow> wf_frame f) \<Longrightarrow> decode_loop (concat (map encode fs)) = ([], fs, None)"
  by (induction fs) (simp_all add: decode_loop_encode frames.drain_wait decode_step_empty)

text \<open>What is decoded was encoded: the bytes of the frame stood in the buffer.\<close>

lemma slices_of_frame:
  assumes "header_size + n + crc_size \<le> length b"
  shows "b = slice 0 4 b @ [b ! 4] @ [b ! 5] @ slice 6 8 b @ slice 8 12 b @ slice 12 28 b @
    slice 28 32 b @ slice header_size (header_size + n) b @
    slice (header_size + n) (header_size + n + crc_size) b @ drop (header_size + n + crc_size) b"
proof -
  have "[b ! 4] = slice 4 5 b" "[b ! 5] = slice 5 6 b"
    using assms by (simp_all add: slice_def take_Suc_conv_app_nth header_size_def hd_drop_conv_nth
        take_Suc)
  then show ?thesis by (simp add: slice_drop_join header_size_def)
qed

lemma decode_frame_sound:
  assumes emit: "decode_frame b = Emit f rest" and m: "starts_with magic b"
  shows "b = encode f @ rest \<and> wf_frame f"
proof -
  let ?n = "le_nat (slice 8 12 b)"
  have h: "header_size \<le> length b" and n: "?n \<le> max_payload"
    and t: "header_size + ?n + crc_size \<le> length b"
    and check: "check_frame (unat (b ! 4)) (unat (b ! 5)) (le_nat (slice 6 8 b)) (slice 12 28 b)
      (le_nat (slice 28 32 b)) (take (header_size + ?n) b)
      (le_nat (slice (header_size + ?n) (header_size + ?n + crc_size) b)) = Inr f"
    and rest: "rest = drop (header_size + ?n + crc_size) b"
    using emit by (auto simp: decode_frame_def Let_def split: if_splits sum.splits)
  from check have crc: "crc32 (take (header_size + ?n) b) =
      le_nat (slice (header_size + ?n) (header_size + ?n + crc_size) b)"
    and ver: "unat (b ! 4) = version" and fl: "le_nat (slice 6 8 b) = 0"
    and f: "wf_frame f" "type_code (message_type f) = unat (b ! 5)"
      "transaction_id f = Abs_uuid (slice 12 28 b)" "sequence f = int (le_nat (slice 28 32 b))"
      "payload f = drop header_size (take (header_size + ?n) b)" "flags f = 0"
    by (auto simp: check_frame_def Let_def mk_frame_Inr split: if_splits option.splits
        dest: message_of_Some)
  have pay: "payload f = slice header_size (header_size + ?n) b"
    using f(5) by (simp add: slice_def drop_take)
  have lens: "length (slice 6 8 b) = 2" "length (slice 8 12 b) = 4" "length (slice 12 28 b) = 16"
    "length (slice 28 32 b) = 4" "length (payload f) = ?n"
    "length (slice (header_size + ?n) (header_size + ?n + crc_size) b) = 4"
    using h t by (simp_all add: pay header_size_def crc_size_def)
  have mg: "magic = slice 0 4 b"
    using m by (simp add: starts_with_def slice_def length_magic)
  have v4: "of_nat version = b ! 4" and v5: "of_nat (type_code (message_type f)) = b ! 5"
    by (simp_all add: ver [symmetric] f(2))
  have w2: "le_bytes 2 (nat (flags f)) = slice 6 8 b"
    using le_bytes_le_nat [OF lens(1)] fl f(6) by simp
  have w4: "le_bytes 4 (length (payload f)) = slice 8 12 b"
    using le_bytes_le_nat [OF lens(2)] lens(5) by simp
  have us: "uuid_bytes (transaction_id f) = slice 12 28 b"
    unfolding f(3) using lens(3) by (rule uuid_bytes_Abs)
  have ws: "le_bytes 4 (nat (sequence f)) = slice 28 32 b"
    using le_bytes_le_nat [OF lens(4)] f(4) by simp
  have hdr: "header f = slice 0 4 b @ [b ! 4] @ [b ! 5] @ slice 6 8 b @ slice 8 12 b @
      slice 12 28 b @ slice 28 32 b"
    by (simp only: header_def mg v4 v5 w2 w4 us ws)
  have b: "b = (header f @ payload f) @
      slice (header_size + ?n) (header_size + ?n + crc_size) b @ rest"
    unfolding hdr pay rest using slices_of_frame [OF t] by simp
  have "take (header_size + ?n) b = header f @ payload f"
    by (subst b) (simp add: lens)
  then have "slice (header_size + ?n) (header_size + ?n + crc_size) b = le_bytes 4 (crc32 (header f @ payload f))"
    using crc le_bytes_le_nat [OF lens(6)] by simp
  then have "b = encode f @ rest" using b by (simp add: encode_def Let_def)
  then show ?thesis using f(1) by simp
qed

lemma decode_step_sound:
  assumes "decode_step b = Emit f rest"
  shows "\<exists>noise. b = noise @ encode f @ rest \<and> wf_frame f"
proof -
  obtain k where k: "find_sub magic b = Some k" "decode_frame (drop k b) = Emit f rest"
    using decode_step_found [OF assms] by auto
  then have "drop k b = encode f @ rest \<and> wf_frame f"
    using find_sub_Some [OF k(1)] by (intro decode_frame_sound) auto
  then show ?thesis by (metis append_take_drop_id)
qed

section \<open>A corrupted frame is rejected\<close>

lemma starts_with_update:
  "length pat \<le> i \<Longrightarrow> starts_with pat (xs[i := b]) \<longleftrightarrow> starts_with pat xs"
  by (simp add: starts_with_def take_update_cancel)

lemma slice_updated:
  "i < a \<or> b \<le> i \<Longrightarrow> slice a b (xs[i := y]) = slice a b xs"
  by (cases "a \<le> i")
    (auto simp: slice_def drop_update_swap take_update_swap drop_update_cancel list_update_beyond)

lemma check_frame_crc:
  "crc32 encoded \<noteq> expected \<Longrightarrow>
   \<exists>e. check_frame ver raw_type fl txid seqno encoded expected = Inl e \<and> class_of e = ProtocolError"
  by (simp add: check_frame_def Let_def)

lemma decode_corrupted:
  assumes wf: "wf_frame f" and i: "i < length (encode f)" "4 \<le> i" "i < 8 \<or> 12 \<le> i"
    and b: "b \<noteq> encode f ! i"
  shows "\<exists>e. decode_step ((encode f)[i := b]) = Fail e [] \<and> class_of e = ProtocolError"
proof -
  let ?e = "(encode f)[i := b]" and ?n = "length (payload f)"
  let ?body = "header f @ payload f"
  let ?crc = "slice (header_size + ?n) (header_size + ?n + crc_size) ?e"
  have e: "encode f = ?body @ le_bytes 4 (crc32 ?body)" by (simp add: encode_def Let_def)
  have m: "starts_with magic ?e"
    using encode_fields(1) [OF wf, of "[]"] i by (simp add: starts_with_update length_magic)
  have size: "le_nat (slice 8 12 ?e) = ?n"
    using encode_fields(5) [OF wf, of "[]"] payload_size [OF wf] i(3)
    by (subst slice_updated) auto
  have ne: "crc32 (take (header_size + ?n) ?e) \<noteq> le_nat ?crc"
  proof (cases "i < header_size + ?n")
    case True
    then have "?e = ?body[i := b] @ le_bytes 4 (crc32 ?body)"
      unfolding e by (intro list_update_append1) simp
    then have "take (header_size + ?n) ?e = ?body[i := b]" by simp
    moreover have "?crc = le_bytes 4 (crc32 ?body)"
      using True by (subst slice_updated) (auto simp: e slice_append_right crc_size_def)
    moreover have "crc32 (?body[i := b]) \<noteq> crc32 ?body"
    proof (rule crc32_changed_byte)
      show "i < length ?body" using True by simp
      then have "encode f ! i = ?body ! i" unfolding e by (simp only: nth_append if_True)
      then show "b \<noteq> ?body ! i" using b by simp
    qed
    ultimately show ?thesis by (simp add: le_nat_crc)
  next
    case False
    then have i': "i - (header_size + ?n) < 4" using i by (simp add: crc_size_def)
    have e': "?e = ?body @ (le_bytes 4 (crc32 ?body))[i - (header_size + ?n) := b]"
      unfolding e using False by (subst list_update_append) simp
    have crc: "?crc = (le_bytes 4 (crc32 ?body))[i - (header_size + ?n) := b]"
      unfolding e' by (simp add: slice_append_right crc_size_def)
    have "encode f ! i = le_bytes 4 (crc32 ?body) ! (i - length ?body)"
      unfolding e using False by (subst nth_append) simp
    then have "b \<noteq> le_bytes 4 (crc32 ?body) ! (i - (header_size + ?n))" using b by simp
    then have "?crc \<noteq> le_bytes 4 (crc32 ?body)"
      unfolding crc using i' by (metis length_le_bytes nth_list_update_eq)
    then have "le_nat ?crc \<noteq> le_nat (le_bytes 4 (crc32 ?body))"
      using crc le_nat_inject by fastforce
    moreover have "take (header_size + ?n) ?e = ?body" unfolding e' by simp
    ultimately show ?thesis by (simp add: le_nat_crc)
  qed
  obtain x where x: "check_frame (unat (?e ! 4)) (unat (?e ! 5)) (le_nat (slice 6 8 ?e))
      (slice 12 28 ?e) (le_nat (slice 28 32 ?e)) (take (header_size + ?n) ?e) (le_nat ?crc) = Inl x"
    and cls: "class_of x = ProtocolError"
    using check_frame_crc [OF ne] by blast
  have "\<not> max_payload < ?n" using wf by (simp add: wf_frame_def)
  then have "decode_step ?e = Fail x []"
    using x by (simp add: decode_step_starts [OF m] decode_frame_def Let_def size)
  then show ?thesis using cls by blast
qed

section \<open>Properties\<close>

text \<open>Feeding several reads to one decoder, as \<open>_wait_for\<close> does, until one of them raises.\<close>

fun feed_all :: "bytes \<Rightarrow> bytes list \<Rightarrow> bytes \<times> (exn + frame list)" where
  "feed_all buffer [] = (buffer, Inr [])"
| "feed_all buffer (d # ds) = (case feed buffer d of
      (b, Inl e) \<Rightarrow> (b, Inl e)
    | (b, Inr fs) \<Rightarrow> (case feed_all b ds of
        (b', Inl e) \<Rightarrow> (b', Inl e)
      | (b', Inr gs) \<Rightarrow> (b', Inr (fs @ gs))))"

lemma feed_all_drain:
  "drain_chunks decode_loop b cs = (b', fs, None) \<Longrightarrow> feed_all b cs = (b', Inr fs)"
  by (induction cs arbitrary: b fs)
    (fastforce simp: feed_def split: prod.splits option.splits)+

text \<open>
  C17. Round trip: however the transport cuts the bytes of a sequence of well-formed frames into reads,
  the decoder yields exactly these frames, in order, and an empty buffer.
\<close>

theorem frames_round_trip:
  assumes "\<And>f. f \<in> set fs \<Longrightarrow> wf_frame f" and "concat chunks = concat (map encode fs)"
  shows "feed_all [] chunks = ([], Inr fs)"
  using assms
  by (intro feed_all_drain frames.drain_chunks_concat)
    (simp_all add: decode_loop_encodes frames.drain_wait decode_step_empty)

definition demo_frame :: frame where
  "demo_frame = \<lparr>message_type = HELLO, transaction_id = Abs_uuid (replicate 16 7), sequence = 5,
     payload = [0x61, 0x62], flags = 0\<rparr>"

lemma wf_demo_frame: "wf_frame demo_frame"
  by (simp add: wf_frame_def demo_frame_def max_payload_def)

theorem frames_round_trip_witness:
  "wf_frame demo_frame \<and>
   feed_all [] [take 3 (encode demo_frame), drop 3 (encode demo_frame) @ encode demo_frame]
     = ([], Inr [demo_frame, demo_frame])"
  using wf_demo_frame
    frames_round_trip [of "[demo_frame, demo_frame]"
      "[take 3 (encode demo_frame), drop 3 (encode demo_frame) @ encode demo_frame]"]
  by simp

text \<open>
  C26. Nothing is invented: every frame a call of \<open>feed\<close> yields is well-formed (a sequence number of
  32 bits, no flags, at most 4096 bytes) and its exact encoding, checksum included, stood in the
  buffered bytes.
\<close>

theorem decoded_was_encoded:
  assumes "feed buffer data = (rest, Inr fs)" and "f \<in> set fs"
  shows "wf_frame f \<and> (\<exists>before after. buffer @ data = before @ encode f @ after)"
proof -
  have "wf_frame f \<and> (\<exists>before after. b = before @ encode f @ after)"
    if "decode_loop b = (rest, gs, r)" "f \<in> set gs" for b gs r
    using that
  proof (induction b arbitrary: gs rule: frames.drain_induct)
    case (drain b)
    show ?case
    proof (cases "decode_step b")
      case (Emit g x)
      obtain noise where b: "b = noise @ encode g @ x" and wf: "wf_frame g"
        using decode_step_sound [OF Emit] by auto
      obtain hs where hs: "decode_loop x = (rest, hs, r)" "gs = g # hs"
        using drain.prems(1) by (auto simp: frames.drain_emit [OF Emit] split: prod.splits)
      show ?thesis
      proof (cases "f = g")
        case True
        then show ?thesis using b wf by blast
      next
        case False
        then obtain before after where "x = before @ encode f @ after" and wf': "wf_frame f"
          using drain.IH [OF Emit hs(1)] drain.prems(2) hs(2) by auto
        then have "b = (noise @ encode g @ before) @ encode f @ after" using b by simp
        then show ?thesis using wf' by blast
      qed
    qed (use drain.prems in \<open>auto simp: frames.drain_wait frames.drain_fail\<close>)
  qed
  then show ?thesis using assms by (auto simp: feed_def split: prod.splits option.splits)
qed

theorem decoded_was_encoded_witness:
  "feed [0xFF] (encode demo_frame) = ([], Inr [demo_frame]) \<and>
   (\<exists>before after. [0xFF] @ encode demo_frame = before @ encode demo_frame @ after)"
proof -
  have "find_sub magic (0xFF # encode demo_frame) = Some 1"
    using find_sub_0 [OF encode_fields(1) [OF wf_demo_frame, of "[]"]]
    by (simp add: starts_with_def magic_def)
  then have "decode_step (0xFF # encode demo_frame) = Emit demo_frame []"
    using decode_frame_encode [OF wf_demo_frame, of "[]"] by (simp add: decode_step_def)
  then have *: "feed [0xFF] (encode demo_frame) = ([], Inr [demo_frame])"
    by (simp add: feed_def frames.drain_emit frames.drain_wait decode_step_empty)
  then show ?thesis using decoded_was_encoded [OF *, of demo_frame] by simp
qed

text \<open>
  C27. A frame in which one byte was changed, anywhere but in the magic bytes and the length field, is
  never delivered: the decoder raises \<open>ProtocolError\<close> and has dropped the frame.
\<close>

theorem corrupted_frame_rejected:
  assumes "wf_frame f" and "i < length (encode f)" and "4 \<le> i" and "i < 8 \<or> 12 \<le> i"
    and "b \<noteq> encode f ! i"
  shows "\<exists>e. feed [] ((encode f)[i := b]) = ([], Inl e) \<and> class_of e = ProtocolError"
  using decode_corrupted [OF assms] by (auto simp: feed_def frames.drain_fail)

theorem corrupted_frame_rejected_witness:
  "\<exists>e. feed [] ((encode demo_frame)[4 := 9]) = ([], Inl e) \<and> class_of e = ProtocolError"
  using encode_fields(2) [OF wf_demo_frame, of "[]"]
  by (intro corrupted_frame_rejected [OF wf_demo_frame])
    (simp_all add: protocol_consts)

text \<open>
  C28. The decoder's memory is bounded: after a call that does not raise, fewer bytes are buffered than
  the longest frame has (32 + 4096 + 4), whatever was received.
\<close>

theorem feed_buffer_bounded:
  assumes "feed buffer data = (rest, Inr fs)"
  shows "length rest < header_size + max_payload + crc_size"
proof -
  have wait: "length b' < header_size + max_payload + crc_size" if "decode_step b = Wait b'" for b b'
    using that decode_frame_wait_bound
    by (auto simp: decode_step_def length_magic header_size_def split: option.splits)
  have "length rest < header_size + max_payload + crc_size" if "decode_loop b = (rest, gs, None)" for b gs
    using that
  proof (induction b arbitrary: gs rule: frames.drain_induct)
    case (drain b)
    then show ?case
      by (cases "decode_step b")
        (auto simp: frames.drain_wait frames.drain_fail frames.drain_emit wait split: prod.splits)
  qed
  then show ?thesis using assms by (auto simp: feed_def split: prod.splits option.splits)
qed

theorem feed_buffer_bounded_witness:
  "feed [] (encode demo_frame) = ([], Inr [demo_frame]) \<and>
   length ([] :: bytes) < header_size + max_payload + crc_size"
proof -
  have *: "feed [] (encode demo_frame) = ([], Inr [demo_frame])"
    using decode_loop_encodes [of "[demo_frame]"] wf_demo_frame by (simp add: feed_def)
  then show ?thesis using feed_buffer_bounded [OF *] by simp
qed

text \<open>Offering a sequence of frames to a replay window, until one is rejected.\<close>

fun replay_all :: "(uuid \<rightharpoonup> int) \<Rightarrow> frame list \<Rightarrow> exn + (uuid \<rightharpoonup> int)" where
  "replay_all w [] = Inr w"
| "replay_all w (f # fs) = (case replay_accept w f of Inl e \<Rightarrow> Inl e | Inr w' \<Rightarrow> replay_all w' fs)"

definition sequences_of :: "uuid \<Rightarrow> frame list \<Rightarrow> int list" where
  "sequences_of u fs = map sequence (filter (\<lambda>f. transaction_id f = u) fs)"

lemma replay_all_sorted:
  "(\<exists>w'. replay_all w fs = Inr w') \<longleftrightarrow>
   (\<forall>u. sorted_wrt (<) ((case w u of None \<Rightarrow> [] | Some n \<Rightarrow> [n]) @ sequences_of u fs))"
proof (induction fs arbitrary: w)
  case Nil
  then show ?case by (simp add: sequences_of_def split: option.splits)
next
  case (Cons f fs)
  let ?u = "transaction_id f" and ?w = "w(transaction_id f \<mapsto> sequence f)"
  let ?pre = "\<lambda>w u. case w u of None \<Rightarrow> [] | Some n \<Rightarrow> [n :: int]"
  show ?case
  proof (cases "\<exists>n. w ?u = Some n \<and> sequence f \<le> n")
    case True
    then obtain n where "w ?u = Some n" "sequence f \<le> n" by blast
    then have "\<not> sorted_wrt (<) (?pre w ?u @ sequences_of ?u (f # fs))"
      by (simp add: sequences_of_def)
    moreover have "\<not> (\<exists>w'. replay_all w (f # fs) = Inr w')"
      using True by (auto simp: replay_accept_def Let_def)
    ultimately show ?thesis by blast
  next
    case False
    then have "replay_all w (f # fs) = replay_all ?w fs"
      by (auto simp: replay_accept_def Let_def split: option.splits)
    moreover have "sorted_wrt (<) (?pre ?w u @ sequences_of u fs) \<longleftrightarrow>
        sorted_wrt (<) (?pre w u @ sequences_of u (f # fs))" for u
      using False by (cases "u = ?u") (auto simp: sequences_of_def split: option.splits)
    ultimately show ?thesis using Cons.IH [of ?w] by (simp only:)
  qed
qed

text \<open>
  C25. The replay window lets a stream of frames through exactly when, for every transaction, the sequence
  numbers of its frames are strictly increasing; so a replayed or reordered event is never
  accepted, and interleaved transactions do not disturb each other.
\<close>

theorem replay_window_exact:
  "(\<exists>w. replay_all Map.empty fs = Inr w) \<longleftrightarrow> (\<forall>u. sorted_wrt (<) (sequences_of u fs))"
  using replay_all_sorted [of Map.empty fs] by simp

end
