(* ===== verification/Effects.thy ===== *)
theory Effects
  imports Errors
begin

text \<open>
  Programs with state, exceptions and calls that may not return. A program over a state \<open>'w\<close> is a
  function \<open>'w \<Rightarrow> ('w \<times> (exn + 'a)) option\<close>: \<open>None\<close> is a run that does not come back,
  \<open>Some (w, Inl e)\<close> one that raises \<open>e\<close> with the state \<open>w\<close> as the raise leaves it, and
  \<open>Some (w, Inr a)\<close> one that returns \<open>a\<close>. The combinators are Python's control structures:
  \<open>andthen\<close> the next statement, \<open>try_except\<close>, \<open>try_finally\<close>; \<open>zoom\<close> runs a program of a
  component on its part of a larger state.

  \<open>wp m Q E w\<close> says that if \<open>m\<close> comes back from \<open>w\<close>, it returns with \<open>Q\<close> or raises with
  \<open>E\<close>; \<open>returns m w\<close> that it does come back. The rules are collected in \<open>wp_simps\<close>.
\<close>

named_theorems wp_simps "the calculus of weakest preconditions for programs"

type_synonym ('w, 'a) prog = "'w \<Rightarrow> ('w \<times> (exn + 'a)) option"

definition ret :: "'a \<Rightarrow> ('w, 'a) prog" where
  "ret a = (\<lambda>w. Some (w, Inr a))"

definition raise :: "exn \<Rightarrow> ('w, 'a) prog" where
  "raise e = (\<lambda>w. Some (w, Inl e))"

definition andthen :: "('w, 'a) prog \<Rightarrow> ('a \<Rightarrow> ('w, 'b) prog) \<Rightarrow> ('w, 'b) prog" where
  "andthen m f = (\<lambda>w. case m w of
      None \<Rightarrow> None
    | Some (w', Inl e) \<Rightarrow> Some (w', Inl e)
    | Some (w', Inr a) \<Rightarrow> f a w')"

text \<open>\<open>try: m / except c as exc: h(exc)\<close>\<close>

definition try_except :: "exn_class \<Rightarrow> ('w, 'a) prog \<Rightarrow> (exn \<Rightarrow> ('w, 'a) prog) \<Rightarrow> ('w, 'a) prog" where
  "try_except c m h = (\<lambda>w. case m w of
      None \<Rightarrow> None
    | Some (w', Inl e) \<Rightarrow> (if isinstance e c then h e w' else Some (w', Inl e))
    | Some (w', Inr a) \<Rightarrow> Some (w', Inr a))"

text \<open>\<open>try: m / finally: f\<close>: an exception of \<open>f\<close> replaces the outcome of \<open>m\<close>.\<close>

definition try_finally :: "('w, 'a) prog \<Rightarrow> ('w, unit) prog \<Rightarrow> ('w, 'a) prog" where
  "try_finally m f = (\<lambda>w. case m w of
      None \<Rightarrow> None
    | Some (w', r) \<Rightarrow> (case f w' of
        None \<Rightarrow> None
      | Some (w'', Inl e) \<Rightarrow> Some (w'', Inl e)
      | Some (w'', Inr _) \<Rightarrow> Some (w'', r)))"

definition run_if :: "bool \<Rightarrow> ('w, unit) prog \<Rightarrow> ('w, unit) prog" where
  "run_if b m = (if b then m else ret ())"

definition gets :: "('w \<Rightarrow> 'a) \<Rightarrow> ('w, 'a) prog" where
  "gets f = (\<lambda>w. Some (w, Inr (f w)))"

definition modify :: "('w \<Rightarrow> 'w) \<Rightarrow> ('w, unit) prog" where
  "modify f = (\<lambda>w. Some (f w, Inr ()))"

text \<open>A value of \<open>exn + 'a\<close>, the result of a pure call, as a program.\<close>

definition lift :: "exn + 'a \<Rightarrow> ('w, 'a) prog" where
  "lift r = (\<lambda>w. Some (w, r))"

definition zoom :: "('w \<Rightarrow> 'p) \<Rightarrow> ('p \<Rightarrow> 'w \<Rightarrow> 'w) \<Rightarrow> ('p, 'a) prog \<Rightarrow> ('w, 'a) prog" where
  "zoom get put m = (\<lambda>w. case m (get w) of
      None \<Rightarrow> None
    | Some (p, r) \<Rightarrow> Some (put p w, r))"

section \<open>Weakest preconditions\<close>

definition wp :: "('w, 'a) prog \<Rightarrow> ('a \<Rightarrow> 'w \<Rightarrow> bool) \<Rightarrow> (exn \<Rightarrow> 'w \<Rightarrow> bool) \<Rightarrow> 'w \<Rightarrow> bool" where
  "wp m Q E w \<longleftrightarrow> (case m w of
      None \<Rightarrow> True
    | Some (w', Inl e) \<Rightarrow> E e w'
    | Some (w', Inr a) \<Rightarrow> Q a w')"

definition returns :: "('w, 'a) prog \<Rightarrow> 'w \<Rightarrow> bool" where
  "returns m w \<longleftrightarrow> m w \<noteq> None"

lemma wpI:
  "(\<And>w' e. m w = Some (w', Inl e) \<Longrightarrow> E e w') \<Longrightarrow> (\<And>w' a. m w = Some (w', Inr a) \<Longrightarrow> Q a w') \<Longrightarrow>
   wp m Q E w"
  by (auto simp: wp_def split: option.splits sum.splits)

lemma wp_ret [wp_simps]: "wp (ret a) Q E w \<longleftrightarrow> Q a w"
  by (simp add: wp_def ret_def)

lemma wp_raise [wp_simps]: "wp (raise e) Q E w \<longleftrightarrow> E e w"
  by (simp add: wp_def raise_def)

lemma wp_andthen [wp_simps]: "wp (andthen m f) Q E w \<longleftrightarrow> wp m (\<lambda>a. wp (f a) Q E) E w"
  by (simp add: wp_def andthen_def split: option.splits sum.splits)

lemma wp_try_except [wp_simps]:
  "wp (try_except c m h) Q E w \<longleftrightarrow> wp m Q (\<lambda>e w'. if isinstance e c then wp (h e) Q E w' else E e w') w"
  by (auto simp: wp_def try_except_def split: option.splits sum.splits)

lemma wp_try_finally [wp_simps]:
  "wp (try_finally m f) Q E w \<longleftrightarrow>
    wp m (\<lambda>a. wp f (\<lambda>_. Q a) E) (\<lambda>e. wp f (\<lambda>_. E e) E) w"
  by (auto simp: wp_def try_finally_def split: option.splits sum.splits)

lemma wp_run_if [wp_simps]: "wp (run_if b m) Q E w \<longleftrightarrow> (if b then wp m Q E w else Q () w)"
  by (simp add: run_if_def wp_ret)

lemma wp_gets [wp_simps]: "wp (gets f) Q E w \<longleftrightarrow> Q (f w) w"
  by (simp add: wp_def gets_def)

lemma wp_modify [wp_simps]: "wp (modify f) Q E w \<longleftrightarrow> Q () (f w)"
  by (simp add: wp_def modify_def)

lemma wp_lift [wp_simps]:
  "wp (lift r) Q E w \<longleftrightarrow> (case r of Inl e \<Rightarrow> E e w | Inr a \<Rightarrow> Q a w)"
  by (simp add: wp_def lift_def)

lemma wp_zoom [wp_simps]:
  "wp (zoom get put m) Q E w \<longleftrightarrow> wp m (\<lambda>a p. Q a (put p w)) (\<lambda>e p. E e (put p w)) (get w)"
  by (auto simp: wp_def zoom_def split: option.splits sum.splits)

lemma wp_if [wp_simps]:
  "wp (if b then m else n) Q E w \<longleftrightarrow> (if b then wp m Q E w else wp n Q E w)"
  by simp

text \<open>The same for a continuation whose state is not written out.\<close>

lemma wp_ret_fun [wp_simps]: "wp (ret a) Q E = Q a"
  by (rule ext) (rule wp_ret)

lemma wp_raise_fun [wp_simps]: "wp (raise e) Q E = E e"
  by (rule ext) (rule wp_raise)

lemma wp_andthen_fun [wp_simps]: "wp (andthen m f) Q E = wp m (\<lambda>a. wp (f a) Q E) E"
  by (rule ext) (rule wp_andthen)

lemma wp_mono:
  "wp m Q E w \<Longrightarrow> (\<And>a w'. Q a w' \<Longrightarrow> Q' a w') \<Longrightarrow> (\<And>e w'. E e w' \<Longrightarrow> E' e w') \<Longrightarrow> wp m Q' E' w"
  by (auto simp: wp_def split: option.splits sum.splits)

lemma wp_conj:
  "wp m Q E w \<Longrightarrow> wp m Q' E' w \<Longrightarrow> wp m (\<lambda>a w'. Q a w' \<and> Q' a w') (\<lambda>e w'. E e w' \<and> E' e w') w"
  by (auto simp: wp_def split: option.splits sum.splits)

lemma wp_true [simp]: "wp m (\<lambda>_ _. True) (\<lambda>_ _. True) w"
  by (auto simp: wp_def split: option.splits sum.splits)

lemma wp_any: "(\<And>a w'. Q a w') \<Longrightarrow> (\<And>e w'. E e w') \<Longrightarrow> wp m Q E w"
  by (auto simp: wp_def split: option.split sum.split)

lemma wp_return: "wp m Q E w \<Longrightarrow> m w = Some (w', Inr a) \<Longrightarrow> Q a w'"
  by (simp add: wp_def)

lemma wp_raised: "wp m Q E w \<Longrightarrow> m w = Some (w', Inl e) \<Longrightarrow> E e w'"
  by (simp add: wp_def)

section \<open>Coming back\<close>

lemma returns_andthen:
  "returns m w \<Longrightarrow> (\<And>w' a. m w = Some (w', Inr a) \<Longrightarrow> returns (f a) w') \<Longrightarrow> returns (andthen m f) w"
  by (auto simp: returns_def andthen_def split: option.splits sum.splits prod.splits)

lemma returns_try_except:
  "returns m w \<Longrightarrow> (\<And>w' e. m w = Some (w', Inl e) \<Longrightarrow> returns (h e) w') \<Longrightarrow>
   returns (try_except c m h) w"
  by (auto simp: returns_def try_except_def split: option.splits sum.splits prod.splits)

lemma returns_try_finally:
  "returns m w \<Longrightarrow> (\<And>w' r. m w = Some (w', r) \<Longrightarrow> returns f w') \<Longrightarrow> returns (try_finally m f) w"
  by (auto simp: returns_def try_finally_def split: option.splits sum.splits prod.splits)

lemma returns_simps [simp]:
  "returns (ret a) w" "returns (raise e) w" "returns (gets f) w" "returns (modify g) w"
  "returns (lift r) w"
  by (simp_all add: returns_def ret_def raise_def gets_def modify_def lift_def)

lemma returns_run_if: "(b \<Longrightarrow> returns m w) \<Longrightarrow> returns (run_if b m) w"
  by (simp add: run_if_def)

lemma returns_zoom: "returns m (get w) \<Longrightarrow> returns (zoom get put m) w"
  by (auto simp: returns_def zoom_def split: option.splits)

section \<open>Both at once\<close>

text \<open>\<open>wpr t m Q E w\<close> is \<open>wp m Q E w\<close> and, if \<open>t\<close>, that \<open>m\<close> comes back.\<close>

definition wpr :: "bool \<Rightarrow> ('w, 'a) prog \<Rightarrow> ('a \<Rightarrow> 'w \<Rightarrow> bool) \<Rightarrow> (exn \<Rightarrow> 'w \<Rightarrow> bool) \<Rightarrow> 'w \<Rightarrow> bool" where
  "wpr t m Q E w \<longleftrightarrow> (case m w of
      None \<Rightarrow> \<not> t
    | Some (w', Inl e) \<Rightarrow> E e w'
    | Some (w', Inr a) \<Rightarrow> Q a w')"

named_theorems wpr_simps "the same calculus, with coming back"

lemma wpr_wp: "wpr t m Q E w \<longleftrightarrow> wp m Q E w \<and> (t \<longrightarrow> returns m w)"
  by (auto simp: wpr_def wp_def returns_def split: option.splits sum.splits)

lemma wprI: "wp m Q E w \<Longrightarrow> (t \<Longrightarrow> returns m w) \<Longrightarrow> wpr t m Q E w"
  by (simp add: wpr_wp)

lemma wpr_mono:
  "wpr t m Q E w \<Longrightarrow> (\<And>a w'. Q a w' \<Longrightarrow> Q' a w') \<Longrightarrow> (\<And>e w'. E e w' \<Longrightarrow> E' e w') \<Longrightarrow> wpr t m Q' E' w"
  by (auto simp: wpr_def split: option.splits sum.splits)

lemma wpr_wp_conj:
  "wpr t m Q E w \<Longrightarrow> wp m Q' E' w \<Longrightarrow> wpr t m (\<lambda>a w'. Q a w' \<and> Q' a w') (\<lambda>e w'. E e w' \<and> E' e w') w"
  by (auto simp: wpr_wp intro: wp_conj)

lemma wpr_ret [wpr_simps]: "wpr t (ret a) Q E = Q a"
  by (simp add: fun_eq_iff wpr_def ret_def)

lemma wpr_raise [wpr_simps]: "wpr t (raise e) Q E = E e"
  by (simp add: fun_eq_iff wpr_def raise_def)

lemma wpr_gets [wpr_simps]: "wpr t (gets f) Q E = (\<lambda>w. Q (f w) w)"
  by (simp add: fun_eq_iff wpr_def gets_def)

lemma wpr_modify [wpr_simps]: "wpr t (modify g) Q E = (\<lambda>w. Q () (g w))"
  by (simp add: fun_eq_iff wpr_def modify_def)

lemma wpr_lift [wpr_simps]: "wpr t (lift r) Q E = (\<lambda>w. case r of Inl e \<Rightarrow> E e w | Inr a \<Rightarrow> Q a w)"
  by (simp add: fun_eq_iff wpr_def lift_def split: sum.split)

lemmas wpr_basic = wpr_ret wpr_raise wpr_gets wpr_modify wpr_lift

lemma wpr_andthen [wpr_simps]: "wpr t (andthen m f) Q E = wpr t m (\<lambda>a. wpr t (f a) Q E) E"
  by (rule ext) (simp add: wpr_def andthen_def split: option.splits sum.splits)

lemma wpr_try_except [wpr_simps]:
  "wpr t (try_except c m h) Q E =
    wpr t m Q (\<lambda>e w'. if isinstance e c then wpr t (h e) Q E w' else E e w')"
  by (rule ext) (auto simp: wpr_def try_except_def split: option.splits sum.splits)

lemma wpr_try_finally [wpr_simps]:
  "wpr t (try_finally m f) Q E =
    wpr t m (\<lambda>a. wpr t f (\<lambda>_. Q a) E) (\<lambda>e. wpr t f (\<lambda>_. E e) E)"
  by (rule ext) (auto simp: wpr_def try_finally_def split: option.splits sum.splits)

lemma wpr_zoom [wpr_simps]:
  "wpr t (zoom get put m) Q E = (\<lambda>w. wpr t m (\<lambda>a p. Q a (put p w)) (\<lambda>e p. E e (put p w)) (get w))"
  by (rule ext) (auto simp: wpr_def zoom_def split: option.splits sum.splits)

lemma wpr_if [wpr_simps]: "wpr t (if b then m else n) Q E = (\<lambda>w. if b then wpr t m Q E w else wpr t n Q E w)"
  by simp

text \<open>The equations that run a program on a concrete state.\<close>

lemmas prog_defs =
  ret_def raise_def andthen_def try_except_def try_finally_def run_if_def gets_def modify_def
  lift_def zoom_def

end
