(* ===== verification/Sha256.thy ===== *)
theory Sha256
  imports Broker_Prelude
begin

unbundle bit_operations_syntax

text \<open>
  \<open>hashlib.sha256\<close> as the source uses it: the digest of a byte string (FIPS 180-4), 32 bytes, and
  its hexadecimal text. Words are 32 bits wide and addition wraps. Nothing below assumes that
  the hash is injective; where the source compares hashes, the theorems speak of hashes.
\<close>

type_synonym w32 = "32 word"

definition be32 :: "bytes \<Rightarrow> w32" where
  "be32 bs = of_nat (le_nat (rev bs))"

definition be32_bytes :: "w32 \<Rightarrow> bytes" where
  "be32_bytes w = rev (le_bytes 4 (unat w))"

text \<open>
  The constants are the first 32 bits after the point of the square roots (initial state) and cube
  roots (round constants) of the first primes. \<open>root_bits k n b 0\<close> is the integer part of the
  \<open>k\<close>-th root of \<open>n\<close>, if that is below \<open>2 ^ b\<close>, found bit by bit.
\<close>

fun root_bits :: "nat \<Rightarrow> nat \<Rightarrow> nat \<Rightarrow> nat \<Rightarrow> nat" where
  "root_bits k n 0 x = x"
| "root_bits k n (Suc b) x = root_bits k n b (if (x + 2 ^ b) ^ k \<le> n then x + 2 ^ b else x)"

definition sha_primes :: "nat list" where
  "sha_primes = filter (\<lambda>n. \<forall>d \<in> set [2..<n]. n mod d \<noteq> 0) [2..<312]"

definition sha_k :: "w32 list" where
  "sha_k = map (\<lambda>p. of_nat (root_bits 3 (p * 2 ^ 96) 35 0)) sha_primes"

definition sha_h0 :: "w32 list" where
  "sha_h0 = map (\<lambda>p. of_nat (root_bits 2 (p * 2 ^ 64) 35 0)) [2, 3, 5, 7, 11, 13, 17, 19]"

definition rotr :: "nat \<Rightarrow> w32 \<Rightarrow> w32" where
  "rotr n x = drop_bit n x OR push_bit (32 - n) x"

definition small_sigma0 :: "w32 \<Rightarrow> w32" where
  "small_sigma0 x = rotr 7 x XOR rotr 18 x XOR drop_bit 3 x"

definition small_sigma1 :: "w32 \<Rightarrow> w32" where
  "small_sigma1 x = rotr 17 x XOR rotr 19 x XOR drop_bit 10 x"

definition big_sigma0 :: "w32 \<Rightarrow> w32" where
  "big_sigma0 x = rotr 2 x XOR rotr 13 x XOR rotr 22 x"

definition big_sigma1 :: "w32 \<Rightarrow> w32" where
  "big_sigma1 x = rotr 6 x XOR rotr 11 x XOR rotr 25 x"

text \<open>The message schedule: 16 words of the block, each later word from four earlier ones.\<close>

fun sha_extend :: "nat \<Rightarrow> w32 list \<Rightarrow> w32 list" where
  "sha_extend 0 ws = ws"
| "sha_extend (Suc k) ws =
    (let t = length ws in
     sha_extend k (ws @ [small_sigma1 (ws ! (t - 2)) + ws ! (t - 7) +
                         small_sigma0 (ws ! (t - 15)) + ws ! (t - 16)]))"

definition sha_schedule :: "bytes \<Rightarrow> w32 list" where
  "sha_schedule block = sha_extend 48 (map be32 (groups 4 16 block))"

fun sha_round :: "w32 list \<Rightarrow> w32 \<times> w32 \<Rightarrow> w32 list" where
  "sha_round [a, b, c, d, e, f, g, h] (k, w) =
    (let t1 = h + big_sigma1 e + ((e AND f) XOR (NOT e AND g)) + k + w;
         t2 = big_sigma0 a + ((a AND b) XOR (a AND c) XOR (b AND c))
     in [t1 + t2, a, b, c, d + t1, e, f, g])"
| "sha_round st kw = st"

definition sha_compress :: "w32 list \<Rightarrow> bytes \<Rightarrow> w32 list" where
  "sha_compress st block = map2 (+) st (foldl sha_round st (zip sha_k (sha_schedule block)))"

definition sha_pad :: "bytes \<Rightarrow> bytes" where
  "sha_pad m = (let n = length m in
     m @ [0x80] @ replicate ((119 - n mod 64) mod 64) 0 @ rev (le_bytes 8 (8 * n)))"

definition sha256_digest :: "bytes \<Rightarrow> bytes" where
  "sha256_digest m = (let p = sha_pad m in
     concat (map be32_bytes (foldl sha_compress sha_h0 (groups 64 (length p div 64) p))))"

definition sha256_hex :: "bytes \<Rightarrow> string" where
  "sha256_hex m = hex_bytes (sha256_digest m)"

section \<open>The digest has 32 bytes\<close>

lemma length_sha_pad: "length (sha_pad m) mod 64 = 0"
proof -
  define n q r where "n = length m" and "q = n div 64" and "r = n mod 64"
  then have n: "n = 64 * q + r" and r: "r < 64" by simp_all
  have "length (sha_pad m) = n + 1 + (119 - r) mod 64 + 8"
    by (simp only: sha_pad_def Let_def n_def r_def length_append length_replicate length_rev
        length_le_bytes list.size)
  also have "\<dots> = 64 * (if r \<le> 55 then q + 1 else q + 2)"
  proof (cases "r \<le> 55")
    case True
    then have "119 - r = 64 + (55 - r)" by simp
    then have "(119 - r) mod 64 = (55 - r) mod 64" by (simp only: mod_add_self1)
    also have "\<dots> = 55 - r" by (intro mod_less) simp
    finally show ?thesis using True n by simp
  next
    case False
    then have "(119 - r) mod 64 = 119 - r" by (intro mod_less) simp
    then show ?thesis using False n r by simp
  qed
  finally show ?thesis by simp
qed

lemma length_sha_round [simp]: "length (sha_round st kw) = length st"
  by (cases "(st, kw)" rule: sha_round.cases) (auto simp: Let_def)

lemma length_sha_rounds [simp]: "length (foldl sha_round st kws) = length st"
  by (induction kws arbitrary: st) auto

lemma length_sha_compress [simp]: "length (sha_compress st block) = length st"
  by (simp add: sha_compress_def)

lemma length_sha_blocks [simp]: "length (foldl sha_compress st bs) = length st"
  by (induction bs arbitrary: st) auto

lemma length_be32_concat: "length (concat (map be32_bytes ws)) = 4 * length ws"
  by (induction ws) (auto simp: be32_bytes_def)

lemma length_sha256_digest [simp, bytes_simps]: "length (sha256_digest m) = 32"
  by (simp add: sha256_digest_def Let_def length_be32_concat sha_h0_def)

lemma length_sha256_hex [simp]: "length (sha256_hex m) = 64"
  by (simp add: sha256_hex_def)

text \<open>The hexadecimal text determines the digest, so comparing texts is comparing digests.\<close>

lemma sha256_hex_eq_iff: "sha256_hex a = sha256_hex b \<longleftrightarrow> sha256_digest a = sha256_digest b"
  by (simp add: sha256_hex_def hex_bytes_inject)

end
