(* ===== verification/Pokemon.thy ===== *)
theory Pokemon
  imports Errors Sha256 "HOL-Library.Multiset"
begin

unbundle bit_operations_syntax

text \<open>
  \<open>broker/pokemon.py\<close>: the 100-byte party record. The frozen dataclass \<open>Pokemon100\<close> has one field,
  and \<open>__post_init__\<close> is the only way to make a value of it, so it is a type of byte strings of
  that length with \<open>raw\<close> the field and \<open>mk_pokemon\<close> the constructor; equality is equality of
  the bytes, as the dataclass's is. The Gen 3 accessors decrypt a copy of the secure block.

  The second half states what those accessors mean: \<open>gen3_record\<close> builds a record from its parts
  (personality, trainer id, four substructures) the way the game lays them out, and the
  accessors read the parts back.
\<close>

definition party_record_size :: nat where "party_record_size = 100"
definition secure_start :: nat where "secure_start = 32"
definition secure_end :: nat where "secure_end = 80"
definition mail_item_min :: nat where "mail_item_min = 121"
definition mail_item_max :: nat where "mail_item_max = 132"

lemmas pokemon_consts =
  party_record_size_def secure_start_def secure_end_def mail_item_min_def mail_item_max_def

definition substruct_orders :: "string list" where
  "substruct_orders = [
    ''GAEM'', ''GAME'', ''GEAM'', ''GEMA'', ''GMAE'', ''GMEA'',
    ''AGEM'', ''AGME'', ''AEGM'', ''AEMG'', ''AMGE'', ''AMEG'',
    ''EGAM'', ''EGMA'', ''EAGM'', ''EAMG'', ''EMGA'', ''EMAG'',
    ''MGAE'', ''MGEA'', ''MAGE'', ''MAEG'', ''MEGA'', ''MEAG'']"

section \<open>The record\<close>

typedef pokemon100 = "{bs :: bytes. length bs = 100}"
  morphisms raw Abs_pokemon100
  by (rule exI [of _ "replicate 100 0"]) simp

lemma length_raw [simp]: "length (raw p) = 100"
  using raw [of p] by simp

lemma raw_Abs [simp]: "length bs = 100 \<Longrightarrow> raw (Abs_pokemon100 bs) = bs"
  by (simp add: Abs_pokemon100_inverse)

lemma Abs_raw [simp]: "Abs_pokemon100 (raw p) = p"
  by (rule raw_inverse)

lemma raw_eq_iff [simp]: "raw p = raw q \<longleftrightarrow> p = q"
  by (rule raw_inject)

text \<open>The word "Pokemon" with its accent, in UTF-8.\<close>

abbreviation accented :: string where
  "accented \<equiv> ''Pok'' @ [CHR 0xC3, CHR 0xA9] @ ''mon''"

definition mk_pokemon :: "bytes \<Rightarrow> exn + pokemon100" where
  "mk_pokemon bs = (
    if length bs \<noteq> party_record_size then
      Inl (Exn InvalidPokemon (''party '' @ accented @ '' must be exactly '' @
        dec (int party_record_size) @ '' bytes; got '' @ dec (int (length bs))))
    else Inr (Abs_pokemon100 bs))"

definition sha256 :: "pokemon100 \<Rightarrow> string" where
  "sha256 p = sha256_hex (raw p)"

definition short_hash :: "pokemon100 \<Rightarrow> string" where
  "short_hash p = take 12 (sha256 p)"

definition personality :: "pokemon100 \<Rightarrow> nat" where
  "personality p = le_nat (slice 0 4 (raw p))"

definition trainer_id :: "pokemon100 \<Rightarrow> nat" where
  "trainer_id p = le_nat (slice 4 8 (raw p))"

text \<open>Four bytes at a time, XOR with the key; the same function encrypts.\<close>

definition xor_words :: "nat \<Rightarrow> bytes \<Rightarrow> bytes" where
  "xor_words key secure =
    concat (map (\<lambda>w. le_bytes 4 (le_nat w XOR key)) (groups 4 (length secure div 4) secure))"

definition decrypted_secure :: "pokemon100 \<Rightarrow> bytes" where
  "decrypted_secure p =
    (let key = personality p XOR trainer_id p
     in xor_words key (slice secure_start secure_end (raw p)))"

definition halfword_sum :: "bytes \<Rightarrow> nat" where
  "halfword_sum secure = sum_list (map le_nat (groups 2 (length secure div 2) secure))"

definition checksum_valid :: "pokemon100 \<Rightarrow> bool" where
  "checksum_valid p =
    (let calculated = halfword_sum (decrypted_secure p) AND 0xFFFF;
         stored = le_nat (slice 28 30 (raw p))
     in calculated = stored)"

text \<open>\<open>s.index(c)\<close> for a character that is in \<open>s\<close>.\<close>

definition str_index :: "string \<Rightarrow> char \<Rightarrow> nat" where
  "str_index s c = length (takeWhile (\<lambda>x. x \<noteq> c) s)"

definition held_item :: "pokemon100 \<Rightarrow> nat" where
  "held_item p =
    (let secure = decrypted_secure p;
         order = substruct_orders ! (personality p mod 24);
         growth_offset = str_index order (CHR ''G'') * 12
     in le_nat (slice (growth_offset + 2) (growth_offset + 4) secure))"

definition holds_mail :: "pokemon100 \<Rightarrow> bool" where
  "holds_mail p \<longleftrightarrow> mail_item_min \<le> held_item p \<and> held_item p \<le> mail_item_max"

definition refuse_mail :: "pokemon100 \<Rightarrow> exn + unit" where
  "refuse_mail p = (
    if holds_mail p then
      Inl (Exn MailNotSupported (''record '' @ short_hash p @ '' holds a Mail item ('' @
        dec (int (held_item p)) @ ''); v1 cannot prove 220-byte mail preservation''))
    else Inr ())"

definition hex_debug :: "pokemon100 \<Rightarrow> int \<Rightarrow> exn + string" where
  "hex_debug p limit = (
    if \<not> (0 \<le> limit \<and> limit \<le> int party_record_size) then
      Inl (Exn ValueError ''limit must be in 0..100'')
    else
      let suffix = (if limit < int party_record_size then [CHR 0xE2, CHR 0x80, CHR 0xA6] else [])
      in Inr (hex_bytes (take (nat limit) (raw p)) @ suffix))"

section \<open>Construction\<close>

lemma mk_pokemon_raw: "mk_pokemon (raw p) = Inr p"
  by (simp add: mk_pokemon_def party_record_size_def)

lemma mk_pokemon_Inr: "mk_pokemon bs = Inr p \<longleftrightarrow> length bs = 100 \<and> p = Abs_pokemon100 bs"
  by (auto simp: mk_pokemon_def party_record_size_def)

lemma mk_pokemon_Inl: "mk_pokemon bs = Inl e \<Longrightarrow> class_of e = InvalidPokemon"
  by (auto simp: mk_pokemon_def split: if_splits)

lemma refuse_mail_cases: "refuse_mail p = (if holds_mail p then refuse_mail p else Inr ())"
  by (simp add: refuse_mail_def)

lemma refuse_mail_Inr [simp]: "refuse_mail p = Inr u \<longleftrightarrow> \<not> holds_mail p"
  by (simp add: refuse_mail_def)

lemma refuse_mail_Inl: "refuse_mail p = Inl e \<Longrightarrow> holds_mail p \<and> class_of e = MailNotSupported"
  by (auto simp: refuse_mail_def split: if_splits)

section \<open>Decryption\<close>

lemma xor_nat_bound: "a < 2 ^ n \<Longrightarrow> b < 2 ^ n \<Longrightarrow> (a XOR b :: nat) < 2 ^ n"
  by (metis take_bit_nat_eq_self_iff take_bit_xor)

lemma le_nat_word_bound: "length w = 4 \<Longrightarrow> le_nat w < 2 ^ 32"
  using le_nat_bound [of w] by simp

lemma personality_bound: "personality p < 2 ^ 32"
  unfolding personality_def by (rule le_nat_word_bound) simp

lemma trainer_id_bound: "trainer_id p < 2 ^ 32"
  unfolding trainer_id_def by (rule le_nat_word_bound) simp

lemma xor_words_groups:
  assumes "length secure = n * 4"
  shows "groups 4 n (xor_words key secure) =
    map (\<lambda>w. le_bytes 4 (le_nat w XOR key)) (groups 4 n secure)"
proof -
  let ?ws = "map (\<lambda>w. le_bytes 4 (le_nat w XOR key)) (groups 4 n secure)"
  have "groups 4 (length ?ws) (concat ?ws) = ?ws"
    by (rule groups_concat) auto
  then show ?thesis using assms by (simp add: xor_words_def)
qed

lemma length_xor_words:
  assumes "length secure = n * 4"
  shows "length (xor_words key secure) = n * 4"
  using assms by (simp add: xor_words_def concat_map_width [where k = 4])

text \<open>Applying the key twice restores the block: decryption and encryption are one function.\<close>

lemma xor_words_involution:
  assumes len: "length secure = n * 4" and key: "key < 2 ^ 32"
  shows "xor_words key (xor_words key secure) = secure"
proof -
  let ?f = "\<lambda>w. le_bytes 4 (le_nat w XOR key)"
  have word: "?f (?f w) = w" if "w \<in> set (groups 4 n secure)" for w
  proof -
    have w: "length w = 4" using groups_width [OF len that] .
    have "le_nat w XOR key < 256 ^ 4"
      using xor_nat_bound [OF le_nat_word_bound [OF w] key] by simp
    then have "le_nat (?f w) = le_nat w XOR key" by (rule le_nat_le_bytes_small)
    then have "le_nat (?f w) XOR key = le_nat w" by (simp add: xor.assoc)
    then show ?thesis using w by (simp add: le_bytes_le_nat)
  qed
  have "length (xor_words key secure) div 4 = n" using len by (simp add: length_xor_words)
  then have "xor_words key (xor_words key secure) = concat (map ?f (map ?f (groups 4 n secure)))"
    by (simp only: xor_words_def [of key "xor_words key secure"] xor_words_groups [OF len])
  also have "map ?f (map ?f (groups 4 n secure)) = groups 4 n secure"
    using word by (simp add: map_idI)
  finally show ?thesis using len by (simp add: concat_groups)
qed

lemma length_decrypted_secure [simp]: "length (decrypted_secure p) = 48"
  using length_xor_words [of "slice 32 80 (raw p)" 12]
  by (simp add: decrypted_secure_def Let_def pokemon_consts)

subsection \<open>Byte by byte\<close>

lemma xor_bytes_cons:
  fixes a c m n :: nat
  assumes "a < 256" and "c < 256"
  shows "(a + 256 * m) XOR (c + 256 * n) = (a XOR c) + 256 * (m XOR n)"
proof -
  let ?x = "a + 256 * m" and ?y = "c + 256 * n"
  have t: "take_bit 8 ?x = a" "take_bit 8 ?y = c" and d: "drop_bit 8 ?x = m" "drop_bit 8 ?y = n"
    using assms by (simp_all add: take_bit_eq_mod drop_bit_eq_div)
  have "?x XOR ?y = push_bit 8 (drop_bit 8 (?x XOR ?y)) + take_bit 8 (?x XOR ?y)"
    by (simp only: bits_ident)
  also have "\<dots> = (a XOR c) + 256 * (m XOR n)"
    by (simp only: take_bit_xor drop_bit_xor t d push_bit_eq_mult) simp
  finally show ?thesis .
qed

lemma unat_xor_byte: "unat (b XOR c :: byte) = unat b XOR unat c"
  by (simp add: unsigned_xor_eq)

lemma le_nat_xor: "length xs = length ys \<Longrightarrow> le_nat xs XOR le_nat ys = le_nat (map2 (XOR) xs ys)"
  by (induction xs ys rule: list_induct2) (simp_all add: xor_bytes_cons unat_xor_byte)

lemma xor_word_bytes:
  assumes "length w = 4" and "key < 2 ^ 32"
  shows "le_bytes 4 (le_nat w XOR key) = map2 (XOR) w (le_bytes 4 key)"
proof -
  have "key = le_nat (le_bytes 4 key)" using assms by (simp add: le_nat_le_bytes_small)
  then have "le_nat w XOR key = le_nat (map2 (XOR) w (le_bytes 4 key))"
    using assms by (metis le_nat_xor length_le_bytes)
  then show ?thesis using assms by (simp add: le_bytes_le_nat)
qed

text \<open>Decryption acts on each byte alone.\<close>

lemma nth_concat_width:
  "(\<And>x. x \<in> set xss \<Longrightarrow> length x = k) \<Longrightarrow> i < k * length xss \<Longrightarrow>
   concat xss ! i = xss ! (i div k) ! (i mod k)"
proof (induction xss arbitrary: i)
  case (Cons x xss)
  show ?case
  proof (cases "i < k")
    case True
    then show ?thesis using Cons.prems by (simp add: nth_append)
  next
    case False
    then have "concat xss ! (i - k) = xss ! ((i - k) div k) ! ((i - k) mod k)"
      using Cons by simp
    then show ?thesis using False Cons.prems
      by (cases "k = 0") (auto simp: nth_append le_div_geq le_mod_geq)
  qed
qed simp

lemma nth_groups: "length xs = n * k \<Longrightarrow> i < n \<Longrightarrow> groups k n xs ! i = slice (i * k) (i * k + k) xs"
proof (induction n arbitrary: xs i)
  case (Suc n)
  show ?case
  proof (cases i)
    case (Suc j)
    then show ?thesis
      using Suc.IH [of "drop k xs" j] Suc.prems by (simp add: slice_def add.commute)
  qed (simp add: slice_def)
qed simp

lemma nth_xor_words:
  assumes len: "length s = n * 4" and key: "key < 2 ^ 32" and i: "i < n * 4"
  shows "xor_words key s ! i = s ! i XOR le_bytes 4 key ! (i mod 4)"
proof -
  have width: "length w = 4" if "w \<in> set (groups 4 n s)" for w
    using groups_width [OF len that] .
  have q: "i div 4 < n" using i by (simp add: less_mult_imp_div_less)
  have "xor_words key s = concat (map (\<lambda>w. map2 (XOR) w (le_bytes 4 key)) (groups 4 n s))"
    using len key width by (auto simp: xor_words_def xor_word_bytes intro!: arg_cong [where f = concat])
  then have "xor_words key s ! i =
      map2 (XOR) (groups 4 n s ! (i div 4)) (le_bytes 4 key) ! (i mod 4)"
    using i q width by (subst \<open>xor_words key s = _\<close>, subst nth_concat_width [where k = 4]) auto
  also have "groups 4 n s ! (i div 4) = slice (i div 4 * 4) (i div 4 * 4 + 4) s"
    using len q by (rule nth_groups)
  also have "map2 (XOR) (slice (i div 4 * 4) (i div 4 * 4 + 4) s) (le_bytes 4 key) ! (i mod 4)
      = s ! (i div 4 * 4 + i mod 4) XOR le_bytes 4 key ! (i mod 4)"
    using len q by (subst nth_map) (auto simp: slice_def)
  finally show ?thesis by simp
qed

section \<open>The Gen 3 layout\<close>

text \<open>
  The parts of a record: 20 bytes of header after the two ids, the stored checksum, two unused
  bytes, the four substructures by their letter, and the 20 bytes of the party tail.
\<close>

record gen3 =
  g_pid :: nat
  g_otid :: nat
  g_header :: bytes
  g_sum :: nat
  g_unused :: bytes
  g_sub :: "char \<Rightarrow> bytes"
  g_tail :: bytes

definition wf_gen3 :: "gen3 \<Rightarrow> bool" where
  "wf_gen3 g \<longleftrightarrow> g_pid g < 2 ^ 32 \<and> g_otid g < 2 ^ 32 \<and> length (g_header g) = 20 \<and>
     g_sum g < 2 ^ 16 \<and> length (g_unused g) = 2 \<and> (\<forall>c. length (g_sub g c) = 12) \<and>
     length (g_tail g) = 20"

text \<open>
  The layout itself, without the tables and helpers of the code. The 24 orders of the substructures
  are the permutations of growth, attacks, EVs and miscellaneous in lexicographic order, so the order
  of a personality is read off its remainder in the factorial number system (\<open>nth_perm\<close>). The secure
  block is masked byte by byte with the bytes of the two ids, over and over. The checksum adds up the
  little-endian halfwords of the four substructures.
\<close>

fun nth_perm :: "nat \<Rightarrow> nat \<Rightarrow> 'a list \<Rightarrow> 'a list" where
  "nth_perm 0 k xs = []"
| "nth_perm (Suc n) k xs = (let x = xs ! (k div fact n) in x # nth_perm n (k mod fact n) (remove1 x xs))"

definition gen3_order :: "nat \<Rightarrow> string" where
  "gen3_order pid = nth_perm 4 (pid mod 24) ''GAEM''"

definition gen3_plain :: "gen3 \<Rightarrow> bytes" where
  "gen3_plain g = concat (map (g_sub g) (gen3_order (g_pid g)))"

definition gen3_mask :: "gen3 \<Rightarrow> bytes" where
  "gen3_mask g = concat (replicate 12 (map2 (XOR) (le_bytes 4 (g_pid g)) (le_bytes 4 (g_otid g))))"

definition sub_sum :: "bytes \<Rightarrow> nat" where
  "sub_sum bs = (\<Sum>i<6. unat (bs ! (2 * i)) + 256 * unat (bs ! (2 * i + 1)))"

definition gen3_bytes :: "gen3 \<Rightarrow> bytes" where
  "gen3_bytes g = le_bytes 4 (g_pid g) @ le_bytes 4 (g_otid g) @ g_header g @
     le_bytes 2 (g_sum g) @ g_unused g @ map2 (XOR) (gen3_plain g) (gen3_mask g) @ g_tail g"

definition gen3_pokemon :: "gen3 \<Rightarrow> pokemon100" where
  "gen3_pokemon g = Abs_pokemon100 (gen3_bytes g)"

subsection \<open>The order table\<close>

lemma length_orders: "length substruct_orders = 24"
  by (simp add: substruct_orders_def)

lemma order_mset: "i < 24 \<Longrightarrow> mset (substruct_orders ! i) = mset ''GAEM''"
proof -
  have "\<forall>s \<in> set substruct_orders. mset s = mset ''GAEM''"
    by (simp add: substruct_orders_def)
  then show "i < 24 \<Longrightarrow> mset (substruct_orders ! i) = mset ''GAEM''"
    by (simp add: length_orders)
qed

lemma order_set: "i < 24 \<Longrightarrow> set (substruct_orders ! i) = {CHR ''G'', CHR ''A'', CHR ''E'', CHR ''M''}"
  using order_mset [of i, THEN mset_eq_setD] by simp

lemma order_length: "i < 24 \<Longrightarrow> length (substruct_orders ! i) = 4"
  using order_mset [of i, THEN mset_eq_length] by simp

lemma nth_perm_orders: "map (\<lambda>k. nth_perm 4 k ''GAEM'') [0..<24] = substruct_orders"
  by code_simp

lemma gen3_plain_table: "gen3_plain g = concat (map (g_sub g) (substruct_orders ! (g_pid g mod 24)))"
  unfolding gen3_plain_def gen3_order_def nth_perm_orders [symmetric] by simp

lemma str_index_Cons:
  "str_index (x # s) c = (if x = c then 0 else Suc (str_index s c))"
  by (simp add: str_index_def)

lemma slice_concat_index:
  assumes "\<And>x. length (f x) = k" and "c \<in> set s" and "b \<le> k"
  shows "slice (str_index s c * k + a) (str_index s c * k + b) (concat (map f s)) = slice a b (f c)"
  using assms(2)
proof (induction s)
  case (Cons x s)
  show ?case
  proof (cases "x = c")
    case True
    then show ?thesis using assms by (simp add: str_index_Cons slice_append_left)
  next
    case False
    then have "slice (k + (str_index s c * k + a)) (k + (str_index s c * k + b)) (f x @ concat (map f s))
        = slice a b (f c)"
      using Cons assms by (simp add: slice_append_right)
    then show ?thesis using False by (simp add: str_index_Cons add.assoc)
  qed
qed simp

lemma halfword_sum_append:
  "length xs = 2 * n \<Longrightarrow> length ys = 2 * m \<Longrightarrow> halfword_sum (xs @ ys) = halfword_sum xs + halfword_sum ys"
  using groups_append [of xs n 2 m ys] by (simp add: halfword_sum_def)

lemma halfword_sum_concat:
  assumes "\<And>x. length (f x) = 12"
  shows "halfword_sum (concat (map f s)) = sum_list (map (halfword_sum \<circ> f) s)"
proof (induction s)
  case Nil
  then show ?case by (simp add: halfword_sum_def)
next
  case (Cons x s)
  have "length (concat (map f s)) = 2 * (6 * length s)"
    using concat_map_width [of f 12 s] assms by simp
  then show ?case
    using halfword_sum_append [of "f x" 6 "concat (map f s)"] assms Cons.IH by simp
qed

lemma and_0xFFFF: "(x :: nat) AND 0xFFFF = x mod 2 ^ 16"
proof -
  have "x mod 2 ^ 16 = x AND mask 16" by (simp only: take_bit_eq_mod [symmetric] take_bit_eq_mask)
  then show ?thesis by (simp add: mask_eq_exp_minus_1)
qed

text \<open>The sum of the halfwords weighs byte \<open>j\<close> by 1 or 256.\<close>

definition weight :: "nat \<Rightarrow> nat" where
  "weight j = (if even j then 1 else 256)"

lemma halfword_sum_bytes:
  "length xs = 2 * n \<Longrightarrow> halfword_sum xs = (\<Sum>j<2 * n. unat (xs ! j) * weight j)"
proof (induction n arbitrary: xs)
  case 0
  then show ?case by (simp add: halfword_sum_def)
next
  case (Suc n)
  then obtain a b ys where xs: "xs = [a, b] @ ys" and ys: "length ys = 2 * n"
    by (metis (no_types, lifting) Suc_length_conv append_Cons append_Nil mult_Suc_right add_2_eq_Suc)
  have "halfword_sum xs = unat a + 256 * unat b + halfword_sum ys"
    using halfword_sum_append [of "[a, b]" 1 ys n] ys xs by (simp add: halfword_sum_def)
  moreover have "(\<Sum>j<2 * Suc n. unat (xs ! j) * weight j) =
      unat a + 256 * unat b + (\<Sum>j<2 * n. unat (ys ! j) * weight j)"
    by (simp add: xs sum.lessThan_Suc_shift weight_def del: sum.lessThan_Suc)
  ultimately show ?case using Suc.IH [OF ys] by simp
qed

lemma sum_pairs: "(\<Sum>j<2 * n. f j) = (\<Sum>i<n. f (2 * i) + f (2 * i + 1))" for f :: "nat \<Rightarrow> nat" and n :: nat
  by (induction n) simp_all

lemma halfword_sum_sub: "length bs = 12 \<Longrightarrow> halfword_sum bs = sub_sum bs"
  using halfword_sum_bytes [of bs 6] sum_pairs [of "\<lambda>j. unat (bs ! j) * weight j" 6]
  by (simp add: sub_sum_def weight_def mult.commute)

subsection \<open>Reading the parts back\<close>

lemma length_gen3_plain: "wf_gen3 g \<Longrightarrow> length (gen3_plain g) = 48"
  using concat_map_width [of "g_sub g" 12] order_length [of "g_pid g mod 24"]
  by (simp add: gen3_plain_table wf_gen3_def)

text \<open>The mask is what the code computes word by word.\<close>

lemma gen3_masked:
  assumes "wf_gen3 g"
  shows "map2 (XOR) (gen3_plain g) (gen3_mask g) = xor_words (g_pid g XOR g_otid g) (gen3_plain g)"
proof -
  let ?k = "map2 (XOR) (le_bytes 4 (g_pid g)) (le_bytes 4 (g_otid g))"
  have ids: "g_pid g < 2 ^ 32" "g_otid g < 2 ^ 32" using assms by (simp_all add: wf_gen3_def)
  have key: "le_bytes 4 (g_pid g XOR g_otid g) = ?k"
    using xor_word_bytes [of "le_bytes 4 (g_pid g)" "g_otid g"] ids by (simp add: le_nat_le_bytes_small)
  have plain: "length (gen3_plain g) = 12 * 4" using length_gen3_plain [OF assms] by simp
  have mask: "length (gen3_mask g) = 48" by (simp add: gen3_mask_def length_concat sum_list_replicate)
  have "gen3_mask g ! i = ?k ! (i mod 4)" if "i < 48" for i
    using that nth_concat_width [of "replicate 12 ?k" 4 i]
    by (simp add: gen3_mask_def less_mult_imp_div_less)
  moreover have "xor_words (g_pid g XOR g_otid g) (gen3_plain g) ! i = gen3_plain g ! i XOR ?k ! (i mod 4)" if "i < 48" for i
    using nth_xor_words [OF plain xor_nat_bound [OF ids]] that by (simp only: key)
  ultimately show ?thesis
    using plain mask by (intro nth_equalityI) (simp_all add: length_xor_words [OF plain])
qed

lemma length_gen3_xor: "wf_gen3 g \<Longrightarrow> length (xor_words k (gen3_plain g)) = 48"
  using length_xor_words [of "gen3_plain g" 12] by (simp add: length_gen3_plain)

lemma raw_gen3: "wf_gen3 g \<Longrightarrow> raw (gen3_pokemon g) = gen3_bytes g"
  unfolding gen3_pokemon_def
  by (rule raw_Abs) (simp add: gen3_bytes_def gen3_masked length_gen3_xor, simp add: wf_gen3_def)

lemma gen3_slices:
  assumes "wf_gen3 g"
  shows "slice 0 4 (gen3_bytes g) = le_bytes 4 (g_pid g)"
    and "slice 4 8 (gen3_bytes g) = le_bytes 4 (g_otid g)"
    and "slice 28 30 (gen3_bytes g) = le_bytes 2 (g_sum g)"
    and "slice 32 80 (gen3_bytes g) = xor_words (g_pid g XOR g_otid g) (gen3_plain g)"
  using assms length_gen3_xor [OF assms] gen3_masked [OF assms]
  by (simp_all add: gen3_bytes_def wf_gen3_def slice_append_right slice_append_left)

lemma gen3_ids:
  assumes "wf_gen3 g"
  shows "personality (gen3_pokemon g) = g_pid g" and "trainer_id (gen3_pokemon g) = g_otid g"
  using assms
  by (simp_all add: personality_def trainer_id_def raw_gen3 gen3_slices le_nat_le_bytes_small wf_gen3_def)

lemma gen3_decrypted:
  assumes "wf_gen3 g"
  shows "decrypted_secure (gen3_pokemon g) = gen3_plain g"
proof -
  have "g_pid g XOR g_otid g < 2 ^ 32"
    using assms by (intro xor_nat_bound) (simp_all add: wf_gen3_def)
  then show ?thesis
    using assms xor_words_involution [of "gen3_plain g" 12 "g_pid g XOR g_otid g"]
    by (simp add: decrypted_secure_def Let_def gen3_ids raw_gen3 pokemon_consts gen3_slices
        length_gen3_plain)
qed

lemma gen3_held_item:
  assumes "wf_gen3 g"
  shows "held_item (gen3_pokemon g) = le_nat (slice 2 4 (g_sub g (CHR ''G'')))"
  using assms slice_concat_index [of "g_sub g" 12 "CHR ''G''" "substruct_orders ! (g_pid g mod 24)" 4 2]
  by (simp add: held_item_def Let_def gen3_ids gen3_decrypted gen3_plain_table wf_gen3_def order_set)

lemma gen3_checksum:
  assumes "wf_gen3 g"
  shows "checksum_valid (gen3_pokemon g) \<longleftrightarrow>
    g_sum g = (\<Sum>c \<leftarrow> ''GAEM''. sub_sum (g_sub g c)) mod 2 ^ 16"
proof -
  have sub: "halfword_sum (g_sub g c) = sub_sum (g_sub g c)" for c
    using halfword_sum_sub [of "g_sub g c"] assms by (simp add: wf_gen3_def)
  let ?order = "substruct_orders ! (g_pid g mod 24)"
  have "halfword_sum (gen3_plain g) = sum_list (map (halfword_sum \<circ> g_sub g) ?order)"
    using assms by (simp add: gen3_plain_table halfword_sum_concat wf_gen3_def)
  also have "\<dots> = sum_mset (image_mset (halfword_sum \<circ> g_sub g) (mset ?order))"
    by (simp only: mset_map [symmetric] sum_mset_sum_list)
  also have "\<dots> = (\<Sum>c \<leftarrow> ''GAEM''. halfword_sum (g_sub g c))"
    by (simp add: order_mset)
  finally have "halfword_sum (gen3_plain g) = (\<Sum>c \<leftarrow> ''GAEM''. halfword_sum (g_sub g c))" .
  moreover have "le_nat (le_bytes 2 (g_sum g)) = g_sum g"
    using assms by (simp add: le_nat_le_bytes_small wf_gen3_def)
  ultimately show ?thesis
    using assms
    by (auto simp add: checksum_valid_def Let_def gen3_decrypted raw_gen3 gen3_slices and_0xFFFF sub
        simp del: list.map sum_list.Cons)
qed

section \<open>A changed byte of the secure block shows in the checksum\<close>

lemma halfword_sum_update:
  assumes len: "length xs = 2 * n" and i: "i < 2 * n"
  shows "halfword_sum (xs[i := b]) + unat (xs ! i) * weight i = halfword_sum xs + unat b * weight i"
proof -
  have split: "(\<Sum>j<2 * n. f j) = f i + (\<Sum>j \<in> {..<2 * n} - {i}. f j)" for f :: "nat \<Rightarrow> nat"
    using i by (intro sum.remove) auto
  have "(\<Sum>j \<in> {..<2 * n} - {i}. unat (xs[i := b] ! j) * weight j)
      = (\<Sum>j \<in> {..<2 * n} - {i}. unat (xs ! j) * weight j)"
    by (rule sum.cong) auto
  then show ?thesis
    using len i by (simp add: halfword_sum_bytes [where n = n] split)
qed

lemma halfword_sum_changed:
  assumes "length xs = 2 * n" and "i < 2 * n" and "b \<noteq> xs ! i"
  shows "halfword_sum (xs[i := b]) mod 2 ^ 16 \<noteq> halfword_sum xs mod 2 ^ 16"
proof
  assume "halfword_sum (xs[i := b]) mod 2 ^ 16 = halfword_sum xs mod 2 ^ 16"
  then have "(halfword_sum (xs[i := b]) + unat (xs ! i) * weight i) mod 2 ^ 16
      = (halfword_sum xs + unat (xs ! i) * weight i) mod 2 ^ 16"
    by (metis mod_add_left_eq)
  then have "(halfword_sum xs + unat b * weight i) mod 2 ^ 16
      = (halfword_sum xs + unat (xs ! i) * weight i) mod 2 ^ 16"
    using halfword_sum_update [OF assms(1,2), of b] by simp
  then have "(unat b * weight i) mod 2 ^ 16 = (unat (xs ! i) * weight i) mod 2 ^ 16"
    by (rule mod_add_left_cancel)
  moreover have "unat c * weight i < 2 ^ 16" for c :: byte
    using unat_byte_less [of c] by (simp add: weight_def del: unat_byte_less)
  ultimately have "unat b * weight i = unat (xs ! i) * weight i" by simp
  then have "unat b = unat (xs ! i)" by (simp add: weight_def split: if_splits)
  then show False using assms(3) by (simp add: word_unat_eq_iff)
qed

lemma slice_update:
  "i < a \<or> b \<le> i \<Longrightarrow> slice a b (xs[i := y]) = slice a b xs"
  "a \<le> i \<Longrightarrow> i < b \<Longrightarrow> slice a b (xs[i := y]) = (slice a b xs)[i - a := y]"
  by (cases "a \<le> i") (auto simp: slice_def drop_update_swap take_update_swap list_update_beyond)

lemma xor_words_update:
  assumes "length s = n * 4" and "key < 2 ^ 32" and "i < n * 4"
  shows "xor_words key (s[i := b]) = (xor_words key s)[i := b XOR le_bytes 4 key ! (i mod 4)]"
  using assms
  by (intro nth_equalityI) (auto simp: length_xor_words nth_xor_words nth_list_update)

lemma decrypted_secure_update:
  assumes i: "32 \<le> i" "i < 80" and q: "raw q = (raw p)[i := b]"
  shows "decrypted_secure q = (decrypted_secure p)
    [i - 32 := b XOR le_bytes 4 (personality p XOR trainer_id p) ! ((i - 32) mod 4)]"
proof -
  have "personality q = personality p" and "trainer_id q = trainer_id p"
    using i q by (simp_all add: personality_def trainer_id_def slice_update(1))
  moreover have "personality p XOR trainer_id p < 2 ^ 32"
    by (intro xor_nat_bound personality_bound trainer_id_bound)
  ultimately show ?thesis
    using i q xor_words_update [of "slice 32 80 (raw p)" 12 _ "i - 32" b]
    by (simp add: decrypted_secure_def Let_def pokemon_consts slice_update(2))
qed

lemma xor_byte_cancel:
  fixes a b k :: byte
  assumes "a XOR k = b XOR k"
  shows "a = b"
proof -
  have "a = (a XOR k) XOR k" by (simp add: xor.assoc)
  also have "\<dots> = b" unfolding assms by (simp add: xor.assoc)
  finally show ?thesis .
qed

lemma checksum_changed:
  assumes valid: "checksum_valid p" and i: "32 \<le> i" "i < 80"
    and b: "b \<noteq> raw p ! i" and q: "raw q = (raw p)[i := b]"
  shows "\<not> checksum_valid q"
proof -
  let ?key = "personality p XOR trainer_id p"
  let ?k = "le_bytes 4 ?key ! ((i - 32) mod 4)"
  have key: "?key < 2 ^ 32" by (intro xor_nat_bound personality_bound trainer_id_bound)
  have stored: "slice 28 30 (raw q) = slice 28 30 (raw p)"
    using i q by (simp add: slice_update(1))
  have "decrypted_secure p ! (i - 32) = slice 32 80 (raw p) ! (i - 32) XOR ?k"
    unfolding decrypted_secure_def Let_def secure_start_def secure_end_def
  proof (rule nth_xor_words [where n = 12])
    show "length (slice 32 80 (raw p)) = 12 * 4" by simp
    show "?key < 2 ^ 32" by (rule key)
    show "i - 32 < 12 * 4" using i by linarith
  qed
  also have "slice 32 80 (raw p) ! (i - 32) = raw p ! i"
    using i by (simp add: slice_def)
  finally have old: "decrypted_secure p ! (i - 32) = raw p ! i XOR ?k" .
  have new: "b XOR ?k \<noteq> decrypted_secure p ! (i - 32)"
    unfolding old using b by (rule contrapos_nn) (rule xor_byte_cancel)
  have "halfword_sum (decrypted_secure q) mod 2 ^ 16 \<noteq> halfword_sum (decrypted_secure p) mod 2 ^ 16"
    unfolding decrypted_secure_update [OF i q]
  proof (rule halfword_sum_changed [where n = 24])
    show "length (decrypted_secure p) = 2 * 24" by simp
    show "i - 32 < 2 * 24" using i by linarith
  qed (rule new)
  then show ?thesis
    using valid stored by (simp add: checksum_valid_def Let_def and_0xFFFF)
qed

section \<open>Properties\<close>

text \<open>
  C36. The accessors decode the Gen 3 layout. A record is built from its parts without the code's table
  and helpers: the substructures in the order that the personality picks among the permutations in
  lexicographic order, the block masked byte by byte with the bytes of the two ids, the halfwords
  added up. Whatever the personality and the ids, the accessors give back the two ids, the plain
  block and the held item of its parts; the checksum is valid exactly when the stored
  sum is the sum of the 24 halfwords of the substructures; and \<open>refuse_mail\<close> raises exactly for
  the items 121 to 132.
\<close>

theorem gen3_accessors:
  assumes "wf_gen3 g"
  shows "personality (gen3_pokemon g) = g_pid g \<and> trainer_id (gen3_pokemon g) = g_otid g \<and>
    decrypted_secure (gen3_pokemon g) = gen3_plain g \<and>
    held_item (gen3_pokemon g) = le_nat (slice 2 4 (g_sub g (CHR ''G''))) \<and>
    (checksum_valid (gen3_pokemon g) \<longleftrightarrow>
      g_sum g = (\<Sum>c \<leftarrow> ''GAEM''. sub_sum (g_sub g c)) mod 2 ^ 16) \<and>
    (refuse_mail (gen3_pokemon g) = Inr () \<longleftrightarrow>
      le_nat (slice 2 4 (g_sub g (CHR ''G''))) \<notin> {121..132})"
  unfolding gen3_checksum [OF assms] refuse_mail_Inr holds_mail_def gen3_held_item [OF assms]
  by (auto simp: gen3_ids [OF assms] gen3_decrypted [OF assms] pokemon_consts)

definition mail_gen3 :: gen3 where
  "mail_gen3 = \<lparr>g_pid = 7, g_otid = 1, g_header = replicate 20 0, g_sum = 121,
     g_unused = [0, 0],
     g_sub = (\<lambda>c. if c = CHR ''G'' then [0, 0, 121, 0, 0, 0, 0, 0, 0, 0, 0, 0] else replicate 12 0),
     g_tail = replicate 20 0\<rparr>"

lemma wf_mail_gen3: "wf_gen3 mail_gen3"
  by (simp add: wf_gen3_def mail_gen3_def)

theorem gen3_accessors_witness:
  "wf_gen3 mail_gen3 \<and> personality (gen3_pokemon mail_gen3) = 7 \<and>
   held_item (gen3_pokemon mail_gen3) = 121 \<and> checksum_valid (gen3_pokemon mail_gen3) \<and>
   refuse_mail (gen3_pokemon mail_gen3) \<noteq> Inr ()"
proof -
  have "sub_sum (g_sub mail_gen3 (CHR ''G'')) = 121" "\<forall>c \<in> set ''AEM''. sub_sum (g_sub mail_gen3 c) = 0"
    by code_simp+
  then show ?thesis
    using gen3_accessors [OF wf_mail_gen3] wf_mail_gen3
    by (simp add: slice_def) (simp add: mail_gen3_def)
qed

text \<open>
  C37. The checksum sees every change of one byte of the encrypted secure block (bytes 32 to 79): a
  record whose checksum is valid is no longer valid after it.
\<close>

theorem checksum_detects_byte:
  assumes "checksum_valid p" and "32 \<le> i" and "i < 80" and "b \<noteq> raw p ! i"
  shows "\<not> checksum_valid (Abs_pokemon100 ((raw p)[i := b]))"
  by (rule checksum_changed [OF assms]) simp

definition zero_pokemon :: pokemon100 where
  "zero_pokemon = Abs_pokemon100 (replicate 100 0)"

lemma raw_zero_pokemon [simp]: "raw zero_pokemon = replicate 100 0"
  by (simp add: zero_pokemon_def)

lemma xor_words_zero:
  assumes "length s = n * 4"
  shows "xor_words 0 s = s"
proof -
  have "map (\<lambda>w. le_bytes 4 (le_nat w XOR 0)) (groups 4 n s) = groups 4 n s"
    using groups_width [OF assms] by (intro map_idI) (simp add: le_bytes_le_nat)
  then show ?thesis using assms by (simp add: xor_words_def concat_groups)
qed

text \<open>Records that differ in their last byte only and hold no item.\<close>

definition plain_mon :: "byte \<Rightarrow> pokemon100" where
  "plain_mon b = Abs_pokemon100 (replicate 99 0 @ [b])"

lemma raw_plain_mon [simp]: "raw (plain_mon b) = replicate 99 0 @ [b]"
  by (simp add: plain_mon_def)

lemma plain_mon_inject [simp]: "plain_mon a = plain_mon b \<longleftrightarrow> a = b"
  by (metis raw_plain_mon last_snoc)

lemma zero_plain_mon: "zero_pokemon = plain_mon 0"
proof -
  have "replicate (Suc 99) (0 :: byte) = replicate 99 0 @ [0]"
    unfolding replicate_append_same by (simp flip: replicate_Suc)
  then show ?thesis by (simp add: zero_pokemon_def plain_mon_def)
qed

lemma decrypted_plain_mon: "decrypted_secure (plain_mon b) = replicate 48 0"
proof -
  have sl: "slice i j (replicate 99 (0::byte) @ [b]) = replicate (j - i) 0" if "j \<le> 99" for i j
    using that by (simp add: slice_def)
  show ?thesis
    using xor_words_zero [of "replicate 48 0" 12]
    by (simp add: decrypted_secure_def personality_def trainer_id_def pokemon_consts sl)
qed

lemma holds_mail_plain_mon [simp]: "\<not> holds_mail (plain_mon b)"
proof -
  have "slice (i + 2) (i + 4) (replicate 48 (0::byte)) = replicate (min 2 (46 - i)) 0" for i
    by (simp add: slice_def min_def)
  then have "held_item (plain_mon b) = 0" by (simp add: held_item_def decrypted_plain_mon Let_def)
  then show ?thesis by (simp add: holds_mail_def pokemon_consts)
qed

lemma refuse_plain_mon [simp]: "refuse_mail (plain_mon b) = Inr ()"
  by (simp add: refuse_mail_def)

lemma refuse_zero_pokemon [simp]: "\<not> holds_mail zero_pokemon" "refuse_mail zero_pokemon = Inr ()"
  by (simp_all add: zero_plain_mon)

lemma checksum_zero_pokemon: "checksum_valid zero_pokemon"
proof -
  have sl: "slice a b (replicate 100 (0::byte)) = replicate (min (b - a) (100 - a)) 0" for a b
    by (simp add: slice_def min.commute)
  have "decrypted_secure zero_pokemon = replicate (24 * 2) 0"
    by (simp add: zero_plain_mon decrypted_plain_mon)
  moreover have "halfword_sum (replicate (24 * 2) 0) = 0"
    using groups_replicate [of 2 24 "0::byte"]
    by (simp add: halfword_sum_def sum_list_replicate del: groups_numeral)
  ultimately show ?thesis by (simp add: checksum_valid_def sl)
qed

theorem checksum_detects_byte_witness:
  "checksum_valid zero_pokemon \<and> \<not> checksum_valid (Abs_pokemon100 ((replicate 100 0)[32 := 1]))"
  using checksum_zero_pokemon checksum_detects_byte [OF checksum_zero_pokemon, of 32 1] by simp

end
