(* ===== verification/Endpoints.thy ===== *)
theory Endpoints
  imports Effects Pokemon
begin

text \<open>
  \<open>broker/endpoints.py\<close>: the results of a trade and the operations an endpoint has. A protocol class
  is a record of its operations, each a program over the endpoint's own state, which is a type
  parameter; \<open>GbaTradeResult\<close> extends \<open>TradeResult\<close> as a record.

  The locales say what the coordinator may expect of an endpoint. A state is \<open>ready x\<close> when the
  session is open and the other side owns \<open>x\<close>, and \<open>closed x\<close> before. A GBA session is for one trade:
  it is \<open>fresh\<close>, \<open>ready\<close>, \<open>traded\<close> and \<open>closed\<close> in turn. The parameter \<open>wild\<close> leaves the
  contract open: with \<open>wild\<close> an endpoint may do anything at all (raise, not come back, report what it
  likes); without it every operation comes back and a trade swaps.
\<close>

record trade_result =
  offered_mon :: pokemon100
  received_mon :: pokemon100
  commit_confirmed :: bool

record gba_trade_result = trade_result +
  selected_slot :: int
  link_closed :: bool

record 's switch_endpoint =
  switch_connect :: "('s, unit) prog"
  switch_wait :: "('s, unit) prog"
  switch_trade :: "pokemon100 \<Rightarrow> ('s, trade_result) prog"
  switch_close :: "('s, unit) prog"

record 'g gba_endpoint =
  gba_connect :: "('g, unit) prog"
  gba_trade :: "pokemon100 \<Rightarrow> ('g, gba_trade_result) prog"
  gba_abort_if_safe :: "('g, bool) prog"
  gba_close :: "('g, unit) prog"

text \<open>A program that comes back, normally unless \<open>wild\<close>, and then with \<open>Q\<close>.\<close>

definition delivers :: "bool \<Rightarrow> ('w, 'a) prog \<Rightarrow> ('a \<Rightarrow> 'w \<Rightarrow> bool) \<Rightarrow> 'w \<Rightarrow> bool" where
  "delivers wild m Q w \<longleftrightarrow> wild \<or> (\<exists>w' a. m w = Some (w', Inr a) \<and> Q a w')"

lemma delivers_wild [simp]: "delivers True m Q w"
  by (simp add: delivers_def)

lemma delivers_wpr: "delivers wild m Q w \<Longrightarrow> (t \<Longrightarrow> \<not> wild) \<Longrightarrow> wpr t m (\<lambda>a w'. wild \<or> Q a w') (\<lambda>_ _. wild) w"
  by (auto simp: delivers_def wpr_def split: option.split sum.split)

locale switch_contract =
  fixes sw :: "'s switch_endpoint"
    and closed ready :: "pokemon100 \<Rightarrow> 's \<Rightarrow> bool"
    and wild :: bool
  assumes connect: "closed x s \<Longrightarrow> delivers wild (switch_connect sw) (\<lambda>_. ready x) s"
    and wait: "ready x s \<Longrightarrow> delivers wild (switch_wait sw) (\<lambda>_. ready x) s"
    and trade: "ready x s \<Longrightarrow> refuse_mail m = Inr () \<Longrightarrow> delivers wild (switch_trade sw m)
      (\<lambda>res s'. res = \<lparr>offered_mon = m, received_mon = x, commit_confirmed = True\<rparr> \<and> ready m s') s"
    and close: "ready x s \<Longrightarrow> delivers wild (switch_close sw) (\<lambda>_. closed x) s"

locale gba_contract =
  fixes gb :: "'g gba_endpoint"
    and fresh ready traded closed :: "pokemon100 \<Rightarrow> 'g \<Rightarrow> bool"
    and wild :: bool
  assumes connect: "fresh x s \<Longrightarrow> delivers wild (gba_connect gb) (\<lambda>_. ready x) s"
    and trade: "ready x s \<Longrightarrow> refuse_mail m = Inr () \<Longrightarrow> delivers wild (gba_trade gb m)
      (\<lambda>res s'. (\<exists>n. 0 \<le> n \<and> n \<le> 5 \<and> res = \<lparr>offered_mon = m, received_mon = x,
        commit_confirmed = True, selected_slot = n, link_closed = True\<rparr>) \<and> traded m s') s"
    and close: "traded x s \<Longrightarrow> delivers wild (gba_close gb) (\<lambda>_. closed x) s"

end
