(* ===== verification/Json.thy ===== *)
theory Json
  imports Broker_Prelude "HOL-Library.AList" "HOL-Library.Multiset"
    "HOL-Library.List_Lexorder" "HOL-Library.Char_ord"
begin

text \<open>
  The module \<open>json\<close> as the journal uses it: \<open>json_dumps\<close> is
  \<open>json.dumps(v, indent=2, sort_keys=True, ensure_ascii=False)\<close> and \<open>json_loads\<close> is \<open>json.loads\<close>
  with \<open>None\<close> for \<open>JSONDecodeError\<close>. Texts are UTF-8 code units. A number with a fraction or an
  exponent, and the three float constants, are kept as their text (\<open>JFloat\<close>). A \<open>\u\<close> escape of
  a surrogate without its partner, which Python accepts, yields the three units that UTF-8 would have
  for it if it were allowed; they are in no well-formed text. No limits on the nesting or on the length of
  integers are modelled.

  The parser's recursion is bounded by a fuel argument; \<open>parse_fuel\<close> shows that one more than
  twice the length of the text is as good as any greater amount, and \<open>loads_dumps\<close> that what
  \<open>json_dumps\<close> writes \<open>json_loads\<close> reads back, with the keys in order.
\<close>

datatype json =
    JNull
  | JBool bool
  | JInt int
  | JFloat string
  | JStr string
  | JList "json list"
  | JObj "(string \<times> json) list"

section \<open>Printing\<close>

abbreviation quote_char :: char where "quote_char \<equiv> CHR 0x22"
abbreviation backslash :: char where "backslash \<equiv> CHR 0x5C"
abbreviation newline :: char where "newline \<equiv> CHR 0x0A"

definition esc_char :: "char \<Rightarrow> string" where
  "esc_char c = (
    if c = quote_char then [backslash, quote_char]
    else if c = backslash then [backslash, backslash]
    else if c = CHR 0x0A then [backslash, CHR ''n'']
    else if c = CHR 0x0D then [backslash, CHR ''r'']
    else if c = CHR 0x09 then [backslash, CHR ''t'']
    else if c = CHR 0x0C then [backslash, CHR ''f'']
    else if c = CHR 0x08 then [backslash, CHR ''b'']
    else if of_char c < (0x20 :: nat) then [backslash, CHR ''u''] @ hex_pad 4 (of_char c)
    else [c])"

definition json_string :: "string \<Rightarrow> string" where
  "json_string s = [quote_char] @ concat (map esc_char s) @ [quote_char]"

definition new_line :: "nat \<Rightarrow> string" where
  "new_line d = newline # replicate (2 * d) (CHR '' '')"

fun dumps_at :: "nat \<Rightarrow> json \<Rightarrow> string"
  and dumps_items :: "nat \<Rightarrow> json list \<Rightarrow> string"
  and dumps_members :: "nat \<Rightarrow> (string \<times> json) list \<Rightarrow> string"
where
  "dumps_at d JNull = ''null''"
| "dumps_at d (JBool b) = (if b then ''true'' else ''false'')"
| "dumps_at d (JInt i) = dec i"
| "dumps_at d (JFloat s) = s"
| "dumps_at d (JStr s) = json_string s"
| "dumps_at d (JList xs) =
    (if xs = [] then ''[]''
     else ''['' @ new_line (Suc d) @ dumps_items (Suc d) xs @ new_line d @ '']'')"
| "dumps_at d (JObj kvs) =
    (if kvs = [] then ''{}''
     else ''{'' @ new_line (Suc d) @ dumps_members (Suc d) kvs @ new_line d @ ''}'')"
| "dumps_items d [] = []"
| "dumps_items d (x # xs) =
    dumps_at d x @ (if xs = [] then [] else '','' @ new_line d @ dumps_items d xs)"
| "dumps_members d [] = []"
| "dumps_members d ((k, v) # kvs) =
    json_string k @ '': '' @ dumps_at d v @
    (if kvs = [] then [] else '','' @ new_line d @ dumps_members d kvs)"

text \<open>\<open>sort_keys=True\<close>: every object with its members in the order of their keys.\<close>

fun sort_json :: "json \<Rightarrow> json" where
  "sort_json (JList xs) = JList (map sort_json xs)"
| "sort_json (JObj kvs) = JObj (sort_key fst (map (\<lambda>(k, v). (k, sort_json v)) kvs))"
| "sort_json j = j"

definition json_dumps :: "json \<Rightarrow> string" where
  "json_dumps j = dumps_at 0 (sort_json j)"

section \<open>Parsing\<close>

definition is_ws :: "char \<Rightarrow> bool" where
  "is_ws c \<longleftrightarrow> c = CHR '' '' \<or> c = CHR 0x09 \<or> c = newline \<or> c = CHR 0x0D"

definition skip_ws :: "string \<Rightarrow> string" where
  "skip_ws s = dropWhile is_ws s"

definition is_digit :: "char \<Rightarrow> bool" where
  "is_digit c \<longleftrightarrow> c \<in> set ''0123456789''"

definition digit_val :: "char \<Rightarrow> nat" where
  "digit_val c = of_char c - 48"

definition nat_of_digits :: "string \<Rightarrow> nat" where
  "nat_of_digits s = foldl (\<lambda>n c. 10 * n + digit_val c) 0 s"

definition hex_val :: "char \<Rightarrow> nat option" where
  "hex_val c = (
    if is_digit c then Some (of_char c - 48)
    else if c \<in> set ''abcdef'' then Some (of_char c - 87)
    else if c \<in> set ''ABCDEF'' then Some (of_char c - 55)
    else None)"

definition hex4 :: "string \<Rightarrow> (nat \<times> string) option" where
  "hex4 s = (case s of
      a # b # c # d # r \<Rightarrow> (case (hex_val a, hex_val b, hex_val c, hex_val d) of
          (Some x, Some y, Some z, Some w) \<Rightarrow> Some (((16 * x + y) * 16 + z) * 16 + w, r)
        | _ \<Rightarrow> None)
    | _ \<Rightarrow> None)"

text \<open>The UTF-8 code units of a code point.\<close>

definition utf8 :: "nat \<Rightarrow> string" where
  "utf8 n = (
    if n < 0x80 then [char_of n]
    else if n < 0x800 then [char_of (0xC0 + n div 64), char_of (0x80 + n mod 64)]
    else if n < 0x10000 then
      [char_of (0xE0 + n div 4096), char_of (0x80 + n div 64 mod 64), char_of (0x80 + n mod 64)]
    else [char_of (0xF0 + n div 262144), char_of (0x80 + n div 4096 mod 64),
      char_of (0x80 + n div 64 mod 64), char_of (0x80 + n mod 64)])"

definition simple_escape :: "char \<Rightarrow> char option" where
  "simple_escape c = map_of [(quote_char, quote_char), (backslash, backslash), (CHR ''/'', CHR ''/''),
     (CHR ''b'', CHR 0x08), (CHR ''f'', CHR 0x0C), (CHR ''n'', CHR 0x0A), (CHR ''r'', CHR 0x0D),
     (CHR ''t'', CHR 0x09)] c"

text \<open>A \<open>\u\<close> escape, after the \<open>u\<close>: its code units and what follows it.\<close>

definition unicode_escape :: "string \<Rightarrow> (string \<times> string) option" where
  "unicode_escape s = (case hex4 s of
      None \<Rightarrow> None
    | Some (n, r) \<Rightarrow>
        if 0xD800 \<le> n \<and> n < 0xDC00 \<and> take 2 r = [backslash, CHR ''u''] then
          (case hex4 (drop 2 r) of
             Some (m, r') \<Rightarrow>
               if 0xDC00 \<le> m \<and> m < 0xE000
               then Some (utf8 (0x10000 + (n - 0xD800) * 1024 + (m - 0xDC00)), r')
               else Some (utf8 n, r)
           | None \<Rightarrow> Some (utf8 n, r))
        else Some (utf8 n, r))"

text \<open>The rest of a string, after its opening quote.\<close>

fun parse_string :: "nat \<Rightarrow> string \<Rightarrow> (string \<times> string) option" where
  "parse_string 0 s = None"
| "parse_string (Suc n) [] = None"
| "parse_string (Suc n) (c # s) = (
    if c = quote_char then Some ([], s)
    else if c = backslash then
      (case s of
         [] \<Rightarrow> None
       | e # r \<Rightarrow>
           if e = CHR ''u'' then
             (case unicode_escape r of
                None \<Rightarrow> None
              | Some (u, r') \<Rightarrow> map_option (\<lambda>(t, r''). (u @ t, r'')) (parse_string n r'))
           else
             (case simple_escape e of
                None \<Rightarrow> None
              | Some x \<Rightarrow> map_option (\<lambda>(t, r''). (x # t, r'')) (parse_string n r)))
    else if of_char c < (0x20 :: nat) then None
    else map_option (\<lambda>(t, r). (c # t, r)) (parse_string n s))"

definition take_digits :: "string \<Rightarrow> string \<times> string" where
  "take_digits s = (takeWhile is_digit s, dropWhile is_digit s)"

text \<open>A fraction, if there is one: a point and at least one digit. An exponent likewise.\<close>

definition take_fraction :: "string \<Rightarrow> string \<times> string" where
  "take_fraction s = (
    if take 1 s = ''.'' \<and> takeWhile is_digit (drop 1 s) \<noteq> []
    then (''.'' @ takeWhile is_digit (drop 1 s), dropWhile is_digit (drop 1 s))
    else ([], s))"

definition take_exponent :: "string \<Rightarrow> string \<times> string" where
  "take_exponent s = (
    let sign = (if take 1 (drop 1 s) = ''-'' \<or> take 1 (drop 1 s) = ''+'' then 1 else 0);
        digits = drop (1 + sign) s
    in if (take 1 s = ''e'' \<or> take 1 s = ''E'') \<and> takeWhile is_digit digits \<noteq> []
       then (take (1 + sign) s @ takeWhile is_digit digits, dropWhile is_digit digits)
       else ([], s))"

definition parse_number :: "string \<Rightarrow> (json \<times> string) option" where
  "parse_number s = (
    let neg = (take 1 s = ''-'');
        body = (if neg then drop 1 s else s);
        ds = (if take 1 body = ''0'' then ''0'' else takeWhile is_digit body);
        rest = drop (length ds) body;
        (fr, rest1) = take_fraction rest;
        (ex, rest2) = take_exponent rest1
    in if ds = [] then None
       else if fr = [] \<and> ex = [] then
         Some (JInt (if neg then - int (nat_of_digits ds) else int (nat_of_digits ds)), rest)
       else Some (JFloat ((if neg then ''-'' else []) @ ds @ fr @ ex), rest2))"

definition parse_literal :: "string \<Rightarrow> json \<Rightarrow> string \<Rightarrow> (json \<times> string) option" where
  "parse_literal w j s = (if take (length w) s = w then Some (j, drop (length w) s) else None)"

definition parse_scalar :: "string \<Rightarrow> (json \<times> string) option" where
  "parse_scalar s = (case s of
      [] \<Rightarrow> None
    | c # r \<Rightarrow>
        if c = CHR ''n'' then parse_literal ''null'' JNull s
        else if c = CHR ''t'' then parse_literal ''true'' (JBool True) s
        else if c = CHR ''f'' then parse_literal ''false'' (JBool False) s
        else if c = CHR ''N'' then parse_literal ''NaN'' (JFloat ''NaN'') s
        else if c = CHR ''I'' then parse_literal ''Infinity'' (JFloat ''Infinity'') s
        else (case parse_number s of
            Some x \<Rightarrow> Some x
          | None \<Rightarrow> parse_literal ''-Infinity'' (JFloat ''-Infinity'') s))"

text \<open>\<open>dict(pairs)\<close>: a repeated key keeps its place and takes the last value.\<close>

definition dict_of :: "(string \<times> json) list \<Rightarrow> (string \<times> json) list" where
  "dict_of kvs = fold (\<lambda>(k, v) d. AList.update k v d) kvs []"

fun parse_value :: "nat \<Rightarrow> string \<Rightarrow> (json \<times> string) option"
  and parse_items :: "nat \<Rightarrow> string \<Rightarrow> (json list \<times> string) option"
  and parse_members :: "nat \<Rightarrow> string \<Rightarrow> ((string \<times> json) list \<times> string) option"
where
  "parse_value 0 s = None"
| "parse_value (Suc n) s = (case s of
      [] \<Rightarrow> None
    | c # r \<Rightarrow>
        if c = quote_char then map_option (\<lambda>(t, r'). (JStr t, r')) (parse_string (Suc (length r)) r)
        else if c = CHR ''{'' then
          (if take 1 (skip_ws r) = ''}'' then Some (JObj [], drop 1 (skip_ws r))
           else map_option (\<lambda>(kvs, r'). (JObj (dict_of kvs), r')) (parse_members n (skip_ws r)))
        else if c = CHR ''['' then
          (if take 1 (skip_ws r) = '']'' then Some (JList [], drop 1 (skip_ws r))
           else map_option (\<lambda>(xs, r'). (JList xs, r')) (parse_items n (skip_ws r)))
        else parse_scalar s)"
| "parse_items 0 s = None"
| "parse_items (Suc n) s = (case parse_value n s of
      None \<Rightarrow> None
    | Some (x, r) \<Rightarrow> (case skip_ws r of
        [] \<Rightarrow> None
      | c # r' \<Rightarrow>
          if c = CHR '','' then map_option (\<lambda>(xs, r''). (x # xs, r'')) (parse_items n (skip_ws r'))
          else if c = CHR '']'' then Some ([x], r')
          else None))"
| "parse_members 0 s = None"
| "parse_members (Suc n) s = (case s of
      [] \<Rightarrow> None
    | q # r0 \<Rightarrow>
        if q \<noteq> quote_char then None
        else (case parse_string (Suc (length r0)) r0 of
          None \<Rightarrow> None
        | Some (k, r1) \<Rightarrow> (case skip_ws r1 of
            [] \<Rightarrow> None
          | col # r2 \<Rightarrow>
              if col \<noteq> CHR '':'' then None
              else (case parse_value n (skip_ws r2) of
                None \<Rightarrow> None
              | Some (v, r3) \<Rightarrow> (case skip_ws r3 of
                  [] \<Rightarrow> None
                | c # r4 \<Rightarrow>
                    if c = CHR '','' then
                      map_option (\<lambda>(kvs, r5). ((k, v) # kvs, r5)) (parse_members n (skip_ws r4))
                    else if c = CHR ''}'' then Some ([(k, v)], r4)
                    else None)))))"

definition json_loads :: "string \<Rightarrow> json option" where
  "json_loads text = (
    let s = skip_ws text in
    case parse_value (Suc (2 * length s)) s of
      Some (j, rest) \<Rightarrow> (if skip_ws rest = [] then Some j else None)
    | None \<Rightarrow> None)"

section \<open>The fuel is enough\<close>

lemma length_skip_ws: "length (skip_ws s) \<le> length s"
  unfolding skip_ws_def by (rule length_dropWhile_le)

lemma hex4_shorter: "hex4 s = Some (n, r) \<Longrightarrow> length r < length s"
  by (auto simp: hex4_def split: list.splits option.splits)

lemma unicode_escape_shorter: "unicode_escape s = Some (u, r) \<Longrightarrow> length r < length s"
  by (fastforce simp: unicode_escape_def split: option.splits if_splits dest: hex4_shorter)

lemma parse_string_shorter: "parse_string n s = Some (t, r) \<Longrightarrow> length r < length s"
proof (induction n s arbitrary: t r rule: parse_string.induct)
  case (3 n c s)
  then show ?case
    by (fastforce split: if_splits list.splits option.splits dest: unicode_escape_shorter)
qed auto

lemma parse_string_fuel:
  "length s < n \<Longrightarrow> length s < m \<Longrightarrow> parse_string n s = parse_string m s"
proof (induction n arbitrary: s m)
  case (Suc n)
  obtain m' where m: "m = Suc m'" using Suc.prems by (cases m) auto
  show ?case
  proof (cases s)
    case (Cons c r)
    have IH: "parse_string n t = parse_string m' t" if "length t \<le> length r" for t
      using Suc.IH that Suc.prems m Cons by simp
    have "length t \<le> length r" if "r = e # r'" "unicode_escape r' = Some (u, t)" for e r' u t
      using that unicode_escape_shorter by fastforce
    then show ?thesis
      using IH by (auto simp: m Cons split: list.splits option.splits)
  qed (simp add: m)
qed simp

lemma parse_number_shorter: "parse_number s = Some (j, r) \<Longrightarrow> length r < length s"
proof -
  assume *: "parse_number s = Some (j, r)"
  have fr: "length (snd (take_fraction x)) \<le> length x" for x
    using length_dropWhile_le [of is_digit "drop 1 x"] by (auto simp: take_fraction_def)
  have ex: "length (snd (take_exponent x)) \<le> length x" for x
    using length_dropWhile_le [of is_digit "drop 1 x"] length_dropWhile_le [of is_digit "drop 2 x"]
    by (auto simp: take_exponent_def Let_def numeral_2_eq_2)
  define body where "body = (if take 1 s = ''-'' then drop 1 s else s)"
  define ds where "ds = (if take 1 body = ''0'' then ''0'' else takeWhile is_digit body)"
  have "ds \<noteq> []" using * by (auto simp: parse_number_def Let_def body_def ds_def split: if_splits prod.splits)
  then have "length (drop (length ds) body) < length body"
    by (cases body) (auto simp: ds_def split: if_splits)
  moreover have "length body \<le> length s" by (auto simp: body_def)
  moreover have "length r \<le> length (drop (length ds) body)"
    using * fr [of "drop (length ds) body"] ex [of "snd (take_fraction (drop (length ds) body))"]
    by (auto simp: parse_number_def Let_def body_def ds_def split: if_splits prod.splits)
  ultimately show ?thesis by linarith
qed

lemma parse_scalar_shorter: "parse_scalar s = Some (j, r) \<Longrightarrow> length r < length s"
  by (auto simp: parse_scalar_def parse_literal_def split: list.splits if_splits option.splits
      dest: parse_number_shorter)

lemma skip_ws_Cons_shorter: "skip_ws s = c # r \<Longrightarrow> length r < length s"
  using length_skip_ws [of s] by simp

lemma parse_shorter:
  "(parse_value n s = Some (j, r) \<longrightarrow> length r < length s) \<and>
   (parse_items n s = Some (xs, r) \<longrightarrow> length r < length s) \<and>
   (parse_members n s = Some (kvs, r) \<longrightarrow> length r < length s)"
proof (induction n arbitrary: s j xs kvs r)
  case (Suc n)
  have V: "length r < length s" if "parse_value n s = Some (j, r)" for s j r using Suc that by blast
  have I: "length r < length s" if "parse_items n s = Some (xs, r)" for s xs r using Suc that by blast
  have M: "length r < length s" if "parse_members n s = Some (kvs, r)" for s kvs r using Suc that by blast
  have "length r < length s" if *: "parse_value (Suc n) s = Some (j, r)"
  proof -
    obtain c t where s: "s = c # t" using * by (cases s) auto
    show ?thesis
      using * length_skip_ws [of t]
      by (fastforce simp: s split: if_splits dest: parse_string_shorter parse_scalar_shorter M I)
  qed
  moreover have "length r < length s" if *: "parse_items (Suc n) s = Some (xs, r)"
  proof -
    obtain x t c t' where t: "parse_value n s = Some (x, t)" "skip_ws t = c # t'"
      using * by (auto split: option.splits list.splits)
    have "length t' < length s" using V [OF t(1)] skip_ws_Cons_shorter [OF t(2)] by simp
    then show ?thesis
      using * t length_skip_ws [of t'] by (fastforce split: if_splits dest: I)
  qed
  moreover have "length r < length s" if *: "parse_members (Suc n) s = Some (kvs, r)"
  proof -
    obtain q r0 k r1 col r2 where 1: "s = q # r0" "parse_string (Suc (length r0)) r0 = Some (k, r1)"
      "skip_ws r1 = col # r2" "parse_members (Suc n) s = Some (kvs, r)"
      using * by (auto split: list.splits if_splits option.splits)
    obtain v r3 c r4 where 2: "parse_value n (skip_ws r2) = Some (v, r3)" "skip_ws r3 = c # r4"
      using 1 by (auto split: list.splits if_splits option.splits)
    have "length r4 < length s"
      using parse_string_shorter [OF 1(2)] skip_ws_Cons_shorter [OF 1(3)] V [OF 2(1)]
        skip_ws_Cons_shorter [OF 2(2)] length_skip_ws [of r2] 1(1) by simp
    then show ?thesis
      using 1 2 length_skip_ws [of r4] by (fastforce split: if_splits dest: M)
  qed
  ultimately show ?case by blast
qed simp

lemmas value_shorter = parse_shorter [THEN conjunct1, rule_format]
lemmas items_shorter = parse_shorter [THEN conjunct2, THEN conjunct1, rule_format]
lemmas members_shorter = parse_shorter [THEN conjunct2, THEN conjunct2, rule_format]

lemma parse_fuel:
  "(2 * length s < n \<longrightarrow> 2 * length s < m \<longrightarrow> parse_value n s = parse_value m s) \<and>
   (2 * length s + 1 < n \<longrightarrow> 2 * length s + 1 < m \<longrightarrow> parse_items n s = parse_items m s) \<and>
   (2 * length s + 1 < n \<longrightarrow> 2 * length s + 1 < m \<longrightarrow> parse_members n s = parse_members m s)"
proof (induction n arbitrary: s m)
  case (Suc n)
  show ?case
  proof (cases m)
    case m: (Suc m')
    have V: "parse_value n s = parse_value m' s" if "2 * length s < n" "2 * length s < m'" for s
      using Suc that by blast
    have I: "parse_items n s = parse_items m' s" if "2 * length s + 1 < n" "2 * length s + 1 < m'" for s
      using Suc that by blast
    have M: "parse_members n s = parse_members m' s" if "2 * length s + 1 < n" "2 * length s + 1 < m'" for s
      using Suc that by blast
    have "parse_value (Suc n) s = parse_value (Suc m') s"
      if "2 * length s < Suc n" "2 * length s < Suc m'"
    proof (cases s)
      case (Cons c r)
      then have "parse_items n (skip_ws r) = parse_items m' (skip_ws r)"
        and "parse_members n (skip_ws r) = parse_members m' (skip_ws r)"
        using that length_skip_ws [of r] by (auto intro!: I M)
      then show ?thesis by (simp add: Cons)
    qed simp
    moreover have "parse_items (Suc n) s = parse_items (Suc m') s"
      if *: "2 * length s + 1 < Suc n" "2 * length s + 1 < Suc m'"
    proof -
      have v: "parse_value n s = parse_value m' s" using * by (intro V) auto
      have "parse_items n (skip_ws r') = parse_items m' (skip_ws r')"
        if "parse_value m' s = Some (x, r)" "skip_ws r = c # r'" for x r c r'
        using value_shorter [OF that(1)] skip_ws_Cons_shorter [OF that(2)] length_skip_ws [of r'] *
        by (intro I) auto
      then show ?thesis by (auto simp: v split: option.splits list.splits)
    qed
    moreover have "parse_members (Suc n) s = parse_members (Suc m') s"
      if *: "2 * length s + 1 < Suc n" "2 * length s + 1 < Suc m'"
    proof (cases s)
      case (Cons q r0)
      have v: "parse_value n (skip_ws r2) = parse_value m' (skip_ws r2)"
        if "parse_string (Suc (length r0)) r0 = Some (k, r1)" "skip_ws r1 = col # r2" for k r1 col r2
        using parse_string_shorter [OF that(1)] skip_ws_Cons_shorter [OF that(2)]
          length_skip_ws [of r2] * Cons by (intro V) auto
      have "parse_members n (skip_ws r4) = parse_members m' (skip_ws r4)"
        if "parse_string (Suc (length r0)) r0 = Some (k, r1)" "skip_ws r1 = col # r2"
          "parse_value m' (skip_ws r2) = Some (v, r3)" "skip_ws r3 = c # r4" for k r1 col r2 v r3 c r4
        using parse_string_shorter [OF that(1)] skip_ws_Cons_shorter [OF that(2)]
          value_shorter [OF that(3)] skip_ws_Cons_shorter [OF that(4)]
          length_skip_ws [of r2] length_skip_ws [of r4] * Cons by (intro M) auto
      then show ?thesis using v by (auto simp: Cons split: option.splits list.splits)
    qed simp
    ultimately show ?thesis using m by simp
  qed simp
qed simp

section \<open>Round trip\<close>

subsection \<open>Strings\<close>

lemma hex_val_digit: "d < 16 \<Longrightarrow> hex_val (hex_digit d) = Some d"
proof -
  have "\<forall>d \<in> set [0..<16]. hex_val (hex_digit d) = Some d"
    by code_simp
  then show "d < 16 \<Longrightarrow> hex_val (hex_digit d) = Some d" by simp
qed

lemma hex_pad_4: "k < 32 \<Longrightarrow> hex_pad 4 k = [CHR ''0'', CHR ''0'', hex_digit (k div 16), hex_digit (k mod 16)]"
proof -
  assume k: "k < 32"
  have small: "hex_nat d = [hex_digit d]" if "d < 16" for d
    using that by (simp add: hex_nat.simps [of d])
  show ?thesis
  proof (cases "k < 16")
    case True
    then have "hex_digit (k div 16) = CHR ''0''" by (simp add: hex_digit_def)
    then show ?thesis using True by (simp add: hex_pad_def small numeral_3_eq_3)
  next
    case False
    then have "hex_nat k = [hex_digit (k div 16), hex_digit (k mod 16)]"
      using k by (simp add: hex_nat.simps [of k] small)
    then show ?thesis by (simp add: hex_pad_def numeral_2_eq_2)
  qed
qed

lemma hex4_pad: "k < 32 \<Longrightarrow> hex4 (hex_pad 4 k @ r) = Some (k, r)"
proof -
  assume k: "k < 32"
  have "hex_val (CHR ''0'') = Some 0" by (simp add: hex_val_def is_digit_def)
  then show ?thesis using k by (simp add: hex_pad_4 hex4_def hex_val_digit)
qed

lemma unicode_escape_pad: "k < 32 \<Longrightarrow> unicode_escape (hex_pad 4 k @ r) = Some ([char_of k], r)"
  by (simp add: unicode_escape_def hex4_pad utf8_def)

lemma parse_string_esc:
  assumes "length (esc_char c @ t) \<le> n"
  shows "parse_string (Suc n) (esc_char c @ t) =
    (if c = quote_char \<or> c = backslash \<or> of_char c < (32 :: nat)
     then map_option (\<lambda>(u, r). (c # u, r)) (parse_string n t)
     else map_option (\<lambda>(u, r). (c # u, r)) (parse_string n t))"
proof (cases "of_char c < (32 :: nat) \<and> esc_char c = [backslash, CHR ''u''] @ hex_pad 4 (of_char c)")
  case True
  then show ?thesis by (simp add: unicode_escape_pad)
next
  case False
  then show ?thesis by (auto simp: esc_char_def simple_escape_def)
qed

lemma parse_string_json:
  "length (concat (map esc_char s) @ quote_char # r) < n \<Longrightarrow>
   parse_string n (concat (map esc_char s) @ quote_char # r) = Some (s, r)"
proof (induction s arbitrary: n)
  case Nil
  then show ?case by (cases n) auto
next
  case (Cons c s)
  then obtain n' where n: "n = Suc n'" by (cases n) auto
  let ?t = "concat (map esc_char s) @ quote_char # r"
  have "esc_char c \<noteq> []" by (simp add: esc_char_def)
  then have "length ?t < n'" using Cons.prems n by (cases "esc_char c") auto
  then have "parse_string n' ?t = Some (s, r)" by (rule Cons.IH)
  moreover have "length (esc_char c @ ?t) \<le> n'" using Cons.prems n by simp
  ultimately show ?case using parse_string_esc [of c ?t n'] n by simp
qed

lemma parse_json_string:
  "\<exists>t. json_string s @ r = quote_char # t \<and> parse_string (Suc (length t)) t = Some (s, r)"
  using parse_string_json [of s r] by (simp add: json_string_def)

subsection \<open>Numbers\<close>

lemma hex_digit_dec: "d < 10 \<Longrightarrow> is_digit (hex_digit d) \<and> digit_val (hex_digit d) = d"
proof -
  have "\<forall>d \<in> set [0..<10]. is_digit (hex_digit d) \<and> digit_val (hex_digit d) = d"
    by code_simp
  then show "d < 10 \<Longrightarrow> is_digit (hex_digit d) \<and> digit_val (hex_digit d) = d" by simp
qed

lemma dec_nat_digits: "c \<in> set (dec_nat n) \<Longrightarrow> is_digit c"
proof (induction n rule: dec_nat.induct)
  case (1 n)
  then show ?case
    by (auto simp: dec_nat.simps [of n] hex_digit_dec split: if_splits)
qed

lemma dec_nat_value: "nat_of_digits (dec_nat n) = n"
proof (induction n rule: dec_nat.induct)
  case (1 n)
  then show ?case
    by (subst dec_nat.simps) (auto simp: nat_of_digits_def hex_digit_dec)
qed

lemma dec_nat_nonempty: "dec_nat n \<noteq> []"
  by (subst dec_nat.simps) simp

lemma dec_nat_head: "hd (dec_nat n) = CHR ''0'' \<Longrightarrow> n = 0"
proof (induction n rule: dec_nat.induct)
  case (1 n)
  show ?case
  proof (cases "n < 10")
    case True
    then have "hex_digit n = hex_digit 0" using "1.prems" by (simp add: dec_nat.simps [of n] hex_digit_def)
    then show ?thesis using True hex_digit_inject [of n 0] by simp
  next
    case False
    then have "hd (dec_nat (n div 10)) = CHR ''0''"
      using "1.prems" dec_nat_nonempty by (simp add: dec_nat.simps [of n])
    then show ?thesis using "1.IH" False by simp
  qed
qed

lemma dec_nat_0: "dec_nat 0 = ''0''"
  by (simp add: dec_nat.simps hex_digit_def)

lemma dec_head: "\<exists>c t. dec i = c # t \<and> (is_digit c \<or> c = CHR ''-'')"
proof (cases "i < 0")
  case False
  obtain c t where "dec_nat (nat i) = c # t"
    using dec_nat_nonempty [of "nat i"] by (cases "dec_nat (nat i)") auto
  moreover from this have "is_digit c" using dec_nat_digits [of c "nat i"] by simp
  ultimately show ?thesis using False by (simp add: dec_def)
qed (simp add: dec_def)

text \<open>What follows a value in the output: the end, a comma or a new line.\<close>

fun stops :: "string \<Rightarrow> bool" where
  "stops [] = True"
| "stops (c # s) = (c = CHR '','' \<or> c = newline)"

lemma parse_number_dec:
  assumes "stops rest"
  shows "parse_number (dec i @ rest) = Some (JInt i, rest)"
proof -
  have r: "take_fraction rest = ([], rest)" "take_exponent rest = ([], rest)"
    "takeWhile is_digit rest = []"
    using assms by (cases rest; auto simp: take_fraction_def take_exponent_def Let_def is_digit_def)+
  have ds: "(if take 1 (dec_nat n @ rest) = ''0'' then ''0''
      else takeWhile is_digit (dec_nat n @ rest)) = dec_nat n" for n
  proof (cases "take 1 (dec_nat n @ rest) = ''0''")
    case True
    then have "n = 0" using dec_nat_nonempty [of n] by (cases "dec_nat n") (auto intro: dec_nat_head)
    then show ?thesis using True dec_nat_0 by simp
  next
    case False
    then show ?thesis using dec_nat_digits r(3) by (simp add: takeWhile_append2)
  qed
  have sign: "take 1 (dec_nat n @ rest) \<noteq> ''-''" for n
    using dec_nat_nonempty [of n] dec_nat_digits [of "hd (dec_nat n)" n]
    by (cases "dec_nat n") (auto simp: is_digit_def)
  have "parse_number (dec_nat n @ rest) = Some (JInt (int n), rest)" for n
  proof -
    have e: "(take 1 (dec_nat n @ rest) = ''-'') = False" using sign by simp
    show ?thesis
      by (simp only: parse_number_def Let_def e if_False ds)
        (simp add: r dec_nat_value dec_nat_nonempty)
  qed
  moreover have "parse_number (CHR ''-'' # dec_nat n @ rest) = Some (JInt (- int n), rest)" for n
  proof -
    have e: "(take 1 (CHR ''-'' # dec_nat n @ rest) = ''-'') = True"
      "drop 1 (CHR ''-'' # dec_nat n @ rest) = dec_nat n @ rest" by simp_all
    show ?thesis
      by (simp only: parse_number_def Let_def e if_True ds)
        (simp add: r dec_nat_value dec_nat_nonempty)
  qed
  ultimately show ?thesis by (simp add: dec_def)
qed

subsection \<open>Values\<close>

text \<open>Values without floats whose objects have no repeated key.\<close>

fun plain :: "json \<Rightarrow> bool" where
  "plain (JFloat s) = False"
| "plain (JList xs) = (\<forall>x \<in> set xs. plain x)"
| "plain (JObj kvs) = (distinct (map fst kvs) \<and> (\<forall>(k, v) \<in> set kvs. plain v))"
| "plain j = True"

lemma dumps_head:
  "plain j \<Longrightarrow> \<exists>c t. dumps_at d j = c # t \<and> \<not> is_ws c \<and> c \<noteq> CHR '']'' \<and> c \<noteq> CHR ''}''"
proof (cases j)
  case (JInt i)
  then show ?thesis using dec_head [of i] by (auto simp: is_ws_def is_digit_def)
qed (auto simp: is_ws_def json_string_def)

lemma dropWhile_replicate: "p x \<Longrightarrow> dropWhile p (replicate n x @ s) = dropWhile p s"
  by (induction n) auto

lemma skip_ws_new_line: "skip_ws (new_line d @ s) = skip_ws s"
  by (simp add: skip_ws_def new_line_def is_ws_def dropWhile_replicate)

lemma skip_ws_head: "\<not> is_ws c \<Longrightarrow> skip_ws (c # s) = c # s"
  by (simp add: skip_ws_def)

lemma skip_ws_dumps: "plain j \<Longrightarrow> skip_ws (dumps_at d j @ r) = dumps_at d j @ r"
  using dumps_head [of j d] by (auto simp: skip_ws_head)

lemma skip_ws_string: "skip_ws (json_string k @ r) = json_string k @ r"
  by (simp add: json_string_def skip_ws_head is_ws_def)

lemma parse_value_scalar:
  assumes "c \<noteq> quote_char" "c \<noteq> CHR ''{''" "c \<noteq> CHR ''[''"
  shows "parse_value (Suc n) (c # r) = parse_scalar (c # r)"
  using assms by simp

lemma parse_scalar_number:
  assumes "stops rest"
  shows "parse_value (Suc n) (dec i @ rest) = Some (JInt i, rest)"
proof -
  obtain c t where c: "dec i @ rest = c # t" "is_digit c \<or> c = CHR ''-''"
    using dec_head [of i] by auto
  then have "parse_value (Suc n) (c # t) = parse_scalar (c # t)"
    by (intro parse_value_scalar) (auto simp: is_digit_def)
  also have "\<dots> = Some (JInt i, rest)"
    using parse_number_dec [OF assms, of i] c by (auto simp: parse_scalar_def is_digit_def)
  finally show ?thesis by (simp only: c)
qed

lemma dict_of_distinct: "distinct (map fst kvs) \<Longrightarrow> dict_of kvs = kvs"
proof (induction kvs rule: rev_induct)
  case (snoc kv kvs)
  then have "dict_of kvs = kvs" and "fst kv \<notin> fst ` set kvs" by auto
  moreover have "AList.update k v d = d @ [(k, v)]" if "k \<notin> fst ` set d" for k v and d :: "(string \<times> json) list"
    using that by (induction d) auto
  ultimately show ?case by (cases kv) (simp add: dict_of_def)
qed (simp add: dict_of_def)

lemma stops_comma [simp]: "stops ('','' @ s)"
  by simp

lemma stops_new_line [simp]: "stops (new_line d @ s)"
  by (simp add: new_line_def)

text \<open>One level of each of the parser's functions.\<close>

lemma parse_list_step:
  assumes "xs \<noteq> []" and "\<forall>x \<in> set xs. plain x"
    and "parse_items m (dumps_items (Suc d) xs @ new_line d @ '']'' @ r) = Some (xs, r)"
  shows "parse_value (Suc m) (dumps_at d (JList xs) @ r) = Some (JList xs, r)"
proof -
  let ?body = "dumps_items (Suc d) xs @ new_line d @ '']'' @ r"
  obtain x ys where xs: "xs = x # ys" using assms(1) by (cases xs) auto
  have "skip_ws ?body = ?body" "take 1 ?body \<noteq> '']''"
    using dumps_head [of x "Suc d"] assms(2) xs by (auto simp: skip_ws_head)
  then show ?thesis using assms(1,3) by (simp add: skip_ws_new_line)
qed

lemma parse_object_step:
  assumes "kvs \<noteq> []" and "distinct (map fst kvs)"
    and "parse_members m (dumps_members (Suc d) kvs @ new_line d @ ''}'' @ r) = Some (kvs, r)"
  shows "parse_value (Suc m) (dumps_at d (JObj kvs) @ r) = Some (JObj kvs, r)"
proof -
  let ?body = "dumps_members (Suc d) kvs @ new_line d @ ''}'' @ r"
  obtain k v ys where kvs: "kvs = (k, v) # ys" using assms(1) by (cases kvs) auto
  have "skip_ws ?body = ?body" "take 1 ?body \<noteq> ''}''"
    using skip_ws_string [of k] by (simp_all add: kvs) (simp add: json_string_def)
  then show ?thesis using assms dict_of_distinct [OF assms(2)] by (simp add: skip_ws_new_line)
qed

lemma parse_items_more:
  assumes "xs \<noteq> []" and "\<forall>x \<in> set xs. plain x"
    and "parse_value m (dumps_at d x @ '','' @ new_line d @ dumps_items d xs @ r) =
      Some (x, '','' @ new_line d @ dumps_items d xs @ r)"
    and "parse_items m (dumps_items d xs @ r) = Some (xs, r')"
  shows "parse_items (Suc m) (dumps_items d (x # xs) @ r) = Some (x # xs, r')"
proof -
  obtain y ys where xs: "xs = y # ys" using assms(1) by (cases xs) auto
  have "skip_ws (dumps_items d xs @ r) = dumps_items d xs @ r"
    using dumps_head [of y d] assms(2) xs by (auto simp: skip_ws_head)
  then show ?thesis
    using assms(1,3,4) by (simp add: skip_ws_new_line skip_ws_head is_ws_def)
qed

lemma parse_members_step:
  fixes kvs r d
  defines "tail \<equiv> (if kvs = [] then r else '','' @ new_line d @ dumps_members d kvs @ r)"
  assumes "plain v" and "r = new_line d' @ ''}'' @ r'"
    and "parse_value m (dumps_at d v @ tail) = Some (v, tail)"
    and "kvs \<noteq> [] \<Longrightarrow> parse_members m (dumps_members d kvs @ r) = Some (kvs, r')"
  shows "parse_members (Suc m) (dumps_members d ((k, v) # kvs) @ r) = Some ((k, v) # kvs, r')"
proof -
  obtain t where t: "json_string k @ '': '' @ dumps_at d v @ tail = quote_char # t"
    "parse_string (Suc (length t)) t = Some (k, '': '' @ dumps_at d v @ tail)"
    using parse_json_string by blast
  have whole: "dumps_members d ((k, v) # kvs) @ r = quote_char # t"
    using t(1) by (cases "kvs = []") (simp_all add: tail_def)
  have "skip_ws ('': '' @ dumps_at d v @ tail) = CHR '':'' # CHR '' '' # dumps_at d v @ tail"
    by (simp add: skip_ws_head is_ws_def)
  moreover have "skip_ws (CHR '' '' # dumps_at d v @ tail) = dumps_at d v @ tail"
    using skip_ws_dumps [OF assms(2), of d tail] by (simp add: skip_ws_def is_ws_def)
  moreover have "skip_ws tail = (if kvs = [] then CHR ''}'' # r' else tail)"
    using assms(3) by (simp add: tail_def skip_ws_new_line skip_ws_head is_ws_def)
  moreover have "skip_ws (new_line d @ dumps_members d kvs @ r) = dumps_members d kvs @ r" if "kvs \<noteq> []"
    using that by (cases kvs) (auto simp: skip_ws_new_line skip_ws_string)
  ultimately show ?thesis
    unfolding whole using t(2) assms(4,5) by (simp add: tail_def split: if_splits)
qed

lemma parse_dumps:
  "plain j \<Longrightarrow> stops r \<Longrightarrow> 2 * length (dumps_at d j @ r) < n \<Longrightarrow>
     parse_value n (dumps_at d j @ r) = Some (j, r)"
  "xs \<noteq> [] \<Longrightarrow> (\<And>x. x \<in> set xs \<Longrightarrow> plain x) \<Longrightarrow> r = new_line d' @ '']'' @ r' \<Longrightarrow>
     2 * length (dumps_items d xs @ r) + 1 < n \<Longrightarrow>
     parse_items n (dumps_items d xs @ r) = Some (xs, r')"
  "kvs \<noteq> [] \<Longrightarrow> (\<And>k v. (k, v) \<in> set kvs \<Longrightarrow> plain v) \<Longrightarrow> r = new_line d' @ ''}'' @ r' \<Longrightarrow>
     2 * length (dumps_members d kvs @ r) + 1 < n \<Longrightarrow>
     parse_members n (dumps_members d kvs @ r) = Some (kvs, r')"
proof (induction d j and d xs and d kvs arbitrary: n r and n r d' r' and n r d' r'
    rule: dumps_at_dumps_items_dumps_members.induct)
  case (3 d i)
  then obtain m where "n = Suc m" by (cases n) auto
  then show ?case using parse_scalar_number [OF 3(2)] by simp
next
  case (5 d s)
  then obtain m where n: "n = Suc m" by (cases n) auto
  obtain t where "json_string s @ r = quote_char # t" "parse_string (Suc (length t)) t = Some (s, r)"
    using parse_json_string by blast
  then show ?case by (simp add: n)
next
  case (6 d xs)
  then obtain m where n: "n = Suc m" by (cases n) auto
  show ?case
  proof (cases "xs = []")
    case False
    then show ?thesis unfolding n using 6(2,4) n by (intro parse_list_step 6(1)) auto
  qed (simp add: n skip_ws_head is_ws_def)
next
  case (7 d kvs)
  then obtain m where n: "n = Suc m" by (cases n) auto
  show ?case
  proof (cases "kvs = []")
    case False
    then show ?thesis unfolding n using 7(2,4) n by (intro parse_object_step 7(1)) auto
  qed (simp add: n skip_ws_head is_ws_def)
next
  case (9 d x xs)
  then obtain m where n: "n = Suc m" by (cases n) auto
  show ?case
  proof (cases "xs = []")
    case True
    have "parse_value m (dumps_at d x @ r) = Some (x, r)"
      using 9(4,5,6) n True by (intro 9(1)) auto
    then show ?thesis using True 9(5) by (simp add: n skip_ws_new_line skip_ws_head is_ws_def)
  next
    case False
    then show ?thesis unfolding n using 9(4,5,6) n by (intro parse_items_more 9(1,2)) auto
  qed
next
  case (11 d k v kvs)
  then obtain m where n: "n = Suc m" by (cases n) auto
  have v: "plain v" by (rule 11(4) [of k]) simp
  have "length (json_string k) \<ge> 2" by (simp add: json_string_def)
  then show ?case
    unfolding n using 11(4,5,6) n v
    by (intro parse_members_step [OF v 11(5)] 11(1,2)) (auto simp: new_line_def)
qed (case_tac n; simp add: parse_scalar_def parse_literal_def; fail | simp)+

lemma plain_sort: "plain j \<Longrightarrow> plain (sort_json j)"
proof (induction j rule: plain.induct)
  case (3 kvs)
  have fst: "map fst (map (\<lambda>(k, v). (k, sort_json v)) kvs) = map fst kvs"
    by (induction kvs) auto
  have "distinct (map fst (sort_key fst ys)) = distinct (map fst ys)" for ys :: "(string \<times> json) list"
    by (rule mset_eq_imp_distinct_iff) simp
  then show ?case using 3 fst by (fastforce simp del: map_map)
qed auto

lemma loads_dumps: "plain j \<Longrightarrow> json_loads (json_dumps j @ [newline]) = Some (sort_json j)"
  using parse_dumps(1) [OF plain_sort, of j "[newline]" 0]
  by (simp add: json_loads_def json_dumps_def Let_def skip_ws_dumps plain_sort
      del: parse_value.simps)
    (simp add: skip_ws_def is_ws_def)

section \<open>Objects on one line\<close>

text \<open>An object of texts on one line, as \<open>json.dumps\<close> without \<open>indent\<close> prints it.\<close>

fun text_members :: "(string \<times> string) list \<Rightarrow> string" where
  "text_members [] = []"
| "text_members [(k, v)] = json_string k @ '': '' @ json_string v"
| "text_members ((k, v) # kvs) = json_string k @ '': '' @ json_string v @ '', '' @ text_members kvs"

lemma parse_value_text: "parse_value (Suc n) (json_string v @ r) = Some (JStr v, r)"
proof -
  obtain t where "json_string v @ r = quote_char # t" "parse_string (Suc (length t)) t = Some (v, r)"
    using parse_json_string by blast
  then show ?thesis by simp
qed

lemma parse_member_text:
  "parse_members (Suc (Suc n)) (json_string k @ '': '' @ json_string v @ c # r) =
     (case skip_ws (c # r) of [] \<Rightarrow> None
      | c # r4 \<Rightarrow> if c = CHR '','' then map_option (\<lambda>(kvs, r5). ((k, JStr v) # kvs, r5)) (parse_members (Suc n) (skip_ws r4))
          else if c = CHR ''}'' then Some ([(k, JStr v)], r4) else None)"
proof -
  obtain t where t: "json_string k @ '': '' @ json_string v @ c # r = quote_char # t"
      "parse_string (Suc (length t)) t = Some (k, '': '' @ json_string v @ c # r)"
    using parse_json_string by blast
  have "skip_ws ('': '' @ json_string v @ c # r) = CHR '':'' # CHR '' '' # json_string v @ c # r"
    "skip_ws (CHR '' '' # json_string v @ c # r) = json_string v @ c # r"
    using skip_ws_string [of v "c # r"] by (simp_all add: skip_ws_def is_ws_def)
  then show ?thesis using t by (simp add: parse_value_text del: parse_value.simps)
qed

lemma parse_text_members:
  assumes "kvs \<noteq> []" and "length kvs < n"
  shows "parse_members n (text_members kvs @ ''}'') = Some (map (\<lambda>(k, v). (k, JStr v)) kvs, [])"
  using assms
proof (induction kvs arbitrary: n rule: text_members.induct)
  case (2 k v)
  then obtain m where "n = Suc (Suc m)" by (cases n; cases "n - 1") auto
  then show ?case using parse_member_text [of m k v "CHR ''}''" "[]"] by (simp add: skip_ws_def is_ws_def)
next
  case (3 k v kv kvs)
  then obtain m where n: "n = Suc (Suc m)" by (cases n; cases "n - 1") auto
  obtain k' v' where kv: "kv = (k', v')" by (cases kv)
  have "skip_ws (CHR '' '' # text_members (kv # kvs) @ ''}'') = text_members (kv # kvs) @ ''}''"
    by (cases kvs) (simp_all add: kv skip_ws_def is_ws_def json_string_def)
  then show ?case
    using parse_member_text [of m k v "CHR '',''" "CHR '' '' # text_members (kv # kvs) @ ''}''"] 3 n
    by (simp add: skip_ws_head is_ws_def del: parse_members.simps)
qed simp

lemma loads_text_members:
  assumes "kvs \<noteq> []" and "distinct (map fst kvs)"
  shows "json_loads (''{'' @ text_members kvs @ ''}'') = Some (JObj (map (\<lambda>(k, v). (k, JStr v)) kvs))"
proof -
  obtain k v ys where kvs: "kvs = (k, v) # ys" using assms(1) by (cases kvs) auto
  let ?body = "text_members kvs @ ''}''"
  have "skip_ws ?body = ?body" "take 1 ?body \<noteq> ''}''"
    by (cases ys; simp add: kvs skip_ws_def is_ws_def json_string_def)+
  moreover have "length kvs \<le> length (text_members kvs)"
    by (induction kvs rule: text_members.induct) auto
  then have "parse_members (2 * length (''{'' @ ?body)) ?body = Some (map (\<lambda>(k, v). (k, JStr v)) kvs, [])"
    by (intro parse_text_members assms(1)) auto
  moreover have "dict_of (map (\<lambda>(k, v). (k, JStr v)) kvs) = map (\<lambda>(k, v). (k, JStr v)) kvs"
    by (rule dict_of_distinct) (use assms(2) in \<open>simp add: case_prod_unfold comp_def\<close>)
  ultimately show ?thesis
    by (simp add: json_loads_def skip_ws_head is_ws_def Let_def) (simp add: skip_ws_def)
qed

end
