(* ===== verification/Utf8.thy ===== *)
theory Utf8
  imports Json
begin

text \<open>
  Texts and files. A text is a string of UTF-8 code units, so \<open>encode\<close> only renames units to bytes,
  and what \<open>read_text(encoding="utf-8")\<close> has to decide is whether the bytes are well-formed
  (\<open>utf8_ok\<close>, Python's strict decoder: no overlong forms, no surrogates, nothing past U+10FFFF);
  otherwise it raises \<open>UnicodeDecodeError\<close>. That it also turns \<open>\r\n\<close> into \<open>\n\<close> makes no
  difference to a JSON text. \<open>utf8_ok_dumps\<close> shows that JSON of well-formed texts is well-formed.
\<close>

definition text_bytes :: "string \<Rightarrow> bytes" where
  "text_bytes s = map of_char s"

definition bytes_text :: "bytes \<Rightarrow> string" where
  "bytes_text bs = map (\<lambda>b. char_of (unat b)) bs"

lemma bytes_text_bytes [simp]: "bytes_text (text_bytes s) = s"
proof -
  have "char_of (unat (of_char c :: byte)) = c" for c
  proof -
    have "(of_char c :: nat) < 256" by (rule nat_of_char_less_256)
    then have "unat (of_nat (of_char c :: nat) :: byte) = of_char c" by (simp add: unat_of_nat)
    then show ?thesis by (simp only: of_nat_of_char) simp
  qed
  then show ?thesis by (simp add: text_bytes_def bytes_text_def map_idI)
qed

definition trail :: "char \<Rightarrow> nat option" where
  "trail c = (let n = of_char c :: nat in
    if n < 0x80 then Some 0
    else if 0xC2 \<le> n \<and> n < 0xE0 then Some 1
    else if 0xE0 \<le> n \<and> n < 0xF0 then Some 2
    else if 0xF0 \<le> n \<and> n < 0xF5 then Some 3
    else None)"

definition continues :: "char \<Rightarrow> bool" where
  "continues c \<longleftrightarrow> (0x80 :: nat) \<le> of_char c \<and> of_char c < (0xC0 :: nat)"

definition second_ok :: "char \<Rightarrow> char \<Rightarrow> bool" where
  "second_ok c d \<longleftrightarrow> (let n = of_char c :: nat; m = of_char d :: nat in
    (n = 0xE0 \<longrightarrow> 0xA0 \<le> m) \<and> (n = 0xED \<longrightarrow> m < 0xA0) \<and>
    (n = 0xF0 \<longrightarrow> 0x90 \<le> m) \<and> (n = 0xF4 \<longrightarrow> m < 0x90))"

function utf8_ok :: "string \<Rightarrow> bool" where
  "utf8_ok [] = True"
| "utf8_ok (c # s) = (case trail c of
      None \<Rightarrow> False
    | Some k \<Rightarrow> k \<le> length s \<and> list_all continues (take k s) \<and> (0 < k \<longrightarrow> second_ok c (hd s)) \<and>
        utf8_ok (drop k s))"
  by pat_completeness auto

termination by (relation "measure length") auto

lemma utf8_ok_append: "utf8_ok xs \<Longrightarrow> utf8_ok (xs @ ys) = utf8_ok ys"
proof (induction xs rule: utf8_ok.induct)
  case (2 c s)
  show ?case
  proof (cases "trail c")
    case (Some k)
    then have "k \<le> length s" using 2(2) by simp
    then have "hd (s @ ys) = hd s" if "0 < k" using that by (cases s) auto
    then show ?thesis using 2 Some by auto
  qed (use 2 in simp)
qed simp

lemma utf8_ok_append_intro: "utf8_ok xs \<Longrightarrow> utf8_ok ys \<Longrightarrow> utf8_ok (xs @ ys)"
  by (simp add: utf8_ok_append)

definition ascii_text :: "string \<Rightarrow> bool" where
  "ascii_text s \<longleftrightarrow> (\<forall>c \<in> set s. of_char c < (0x80 :: nat))"

lemma utf8_ok_ascii: "ascii_text s \<Longrightarrow> utf8_ok s"
  by (induction s) (auto simp: ascii_text_def trail_def)

lemma ascii_text_simps [simp]:
  "ascii_text []" "ascii_text (c # s) \<longleftrightarrow> of_char c < (0x80 :: nat) \<and> ascii_text s"
  "ascii_text (s @ t) \<longleftrightarrow> ascii_text s \<and> ascii_text t"
  "ascii_text (concat ss) \<longleftrightarrow> (\<forall>s \<in> set ss. ascii_text s)"
  "ascii_text (replicate n c) \<longleftrightarrow> n = 0 \<or> of_char c < (0x80 :: nat)"
  by (auto simp: ascii_text_def)

lemma ascii_hex_digit [simp]: "of_char (hex_digit d) < (0x80 :: nat)"
proof -
  have "hex_digit d \<in> set ''0123456789abcdef''"
    unfolding hex_digit_def by (rule nth_mem) simp
  then show ?thesis by auto
qed

lemma ascii_hex_nat [simp]: "ascii_text (hex_nat n)"
  by (induction n rule: hex_nat.induct) (subst hex_nat.simps, simp)

lemma ascii_dec_nat [simp]: "ascii_text (dec_nat n)"
  by (induction n rule: dec_nat.induct) (subst dec_nat.simps, simp)

lemma ascii_dec [simp]: "ascii_text (dec i)"
  by (simp add: dec_def)

lemma ascii_hex_pad [simp]: "ascii_text (hex_pad k n)"
  by (simp add: hex_pad_def Let_def)

lemma ascii_hex_bytes [simp]: "ascii_text (hex_bytes bs)"
  by (auto simp: hex_bytes_def hex_byte_def)

lemma ascii_slice [simp]: "ascii_text s \<Longrightarrow> ascii_text (slice a b s)"
  by (auto simp: ascii_text_def slice_def dest!: in_set_takeD in_set_dropD)

lemma ascii_drop [simp]: "ascii_text s \<Longrightarrow> ascii_text (drop n s)"
  by (auto simp: ascii_text_def dest!: in_set_dropD)

lemma ascii_esc_char: "of_char c < (0x80 :: nat) \<Longrightarrow> ascii_text (esc_char c)"
  unfolding esc_char_def by (simp split: if_split)

lemma esc_char_high:
  assumes "\<not> of_char c < (0x80 :: nat)"
  shows "esc_char c = [c]"
proof -
  have ne: "(c = d) = False" if "of_char d < (0x80 :: nat)" for d using assms that by auto
  have "(of_char c < (0x20 :: nat)) = False" using assms by simp
  then show ?thesis by (simp add: esc_char_def ne)
qed

lemma esc_continues: "list_all continues s \<Longrightarrow> concat (map esc_char s) = s"
  by (induction s) (auto simp: continues_def esc_char_high)

lemma utf8_ok_escaped: "utf8_ok s \<Longrightarrow> utf8_ok (concat (map esc_char s))"
proof (induction s rule: utf8_ok.induct)
  case (2 c s)
  then obtain k where k: "trail c = Some k" "k \<le> length s" "list_all continues (take k s)"
      "0 < k \<longrightarrow> second_ok c (hd s)" "utf8_ok (drop k s)"
    by (auto split: option.splits)
  have rest: "utf8_ok (concat (map esc_char (drop k s)))" using 2 k by simp
  show ?case
  proof (cases "k = 0")
    case True
    then have "of_char c < (0x80 :: nat)" using k(1) by (auto simp: trail_def Let_def split: if_splits)
    then show ?thesis
      using rest True by (simp add: utf8_ok_append_intro utf8_ok_ascii ascii_esc_char)
  next
    case False
    then have "\<not> of_char c < (0x80 :: nat)" using k(1) by (auto simp: trail_def Let_def split: if_splits)
    then have "concat (map esc_char (c # s)) = c # take k s @ concat (map esc_char (drop k s))"
      using esc_continues [OF k(3)]
      by (simp add: esc_char_high) (metis append_take_drop_id concat_append map_append)
    moreover have "hd (take k s @ t) = hd s" for t using False k(2) by (cases s) auto
    ultimately show ?thesis using k False rest by (simp add: list_all_iff)
  qed
qed simp

fun texts_ok :: "json \<Rightarrow> bool" where
  "texts_ok (JStr s) = utf8_ok s"
| "texts_ok (JFloat s) = utf8_ok s"
| "texts_ok (JList xs) = (\<forall>x \<in> set xs. texts_ok x)"
| "texts_ok (JObj kvs) = (\<forall>(k, v) \<in> set kvs. utf8_ok k \<and> texts_ok v)"
| "texts_ok j = True"

lemma utf8_ok_json_string: "utf8_ok s \<Longrightarrow> utf8_ok (json_string s)"
  by (simp only: json_string_def) (simp add: trail_def utf8_ok_append utf8_ok_escaped)

lemma utf8_ok_new_line: "utf8_ok (new_line d)"
  by (rule utf8_ok_ascii) (simp add: new_line_def)

lemma utf8_ok_dumps_at:
  "texts_ok j \<Longrightarrow> utf8_ok (dumps_at d j)"
  "(\<forall>x \<in> set xs. texts_ok x) \<Longrightarrow> utf8_ok (dumps_items d xs)"
  "(\<forall>(k, v) \<in> set kvs. utf8_ok k \<and> texts_ok v) \<Longrightarrow> utf8_ok (dumps_members d kvs)"
  by (induction d j and d xs and d kvs rule: dumps_at_dumps_items_dumps_members.induct)
    (auto simp: utf8_ok_append utf8_ok_new_line utf8_ok_json_string utf8_ok_ascii trail_def)

lemma texts_ok_sort: "texts_ok j \<Longrightarrow> texts_ok (sort_json j)"
  by (induction j rule: texts_ok.induct) auto

lemma utf8_ok_dumps: "texts_ok j \<Longrightarrow> utf8_ok (json_dumps j @ [newline])"
  by (simp add: json_dumps_def utf8_ok_append utf8_ok_dumps_at texts_ok_sort trail_def)

lemma utf8_ok_ascii_Cons [simp]: "of_char c < (0x80 :: nat) \<Longrightarrow> utf8_ok (c # s) = utf8_ok s"
  by (simp add: trail_def)

declare utf8_ok.simps(2) [simp del]

end
