(* ===== verification/Journal_Record.thy ===== *)
theory Journal_Record
  imports Errors Uuid Utf8 "HOL-Library.List_Lexorder"
begin

text \<open>
  The data of \<open>broker/journal.py\<close>: \<open>JournalState\<close> with its graph of moves, \<open>HistoryEntry\<close>,
  \<open>JournalRecord\<close>, and the record's way to JSON and back (\<open>as_json_dict\<close>, \<open>from_json_dict\<close>).

  The fields are renamed where other parts of the model use the same words: \<open>tx_id\<close> is
  \<open>transaction_id\<close>, \<open>jstate\<close> \<open>state\<close>, \<open>jseq\<close> \<open>sequence\<close>, \<open>hashes\<close> \<open>pokemon\<close>, \<open>gba_slot\<close>
  \<open>selected_gba_slot\<close>. As in the code a state is kept as its string, and a dictionary is an
  association list in the order of insertion.

  Python does not check the types of the fields. \<open>from_json_dict\<close> yields \<open>None\<close> when the code would
  return a record in which a value has another JSON type than the annotation says, and \<open>parse_journal\<close>
  also when one of its texts has a surrogate without its partner; those runs are outside the model, and so
  is a schema version or sequence written with a fraction or an exponent. What the code rejects is an
  error here too. Of the texts of exceptions that Python itself raises only the beginning is kept.
\<close>

section \<open>The states\<close>

datatype journal_state =
    IDLE | SWITCH_STAGE1_STARTED | SWITCH_B_CAPTURED | PLACEHOLDER_ON_SWITCH | GBA_STAGE_STARTED
  | GBA_A_CAPTURED | B_COMMITTED_TO_GBA | SWITCH_STAGE2_STARTED | A_COMMITTED_TO_SWITCH
  | COMPLETE | RECOVERY_REQUIRED

definition journal_states :: "journal_state list" where
  "journal_states = [IDLE, SWITCH_STAGE1_STARTED, SWITCH_B_CAPTURED, PLACEHOLDER_ON_SWITCH,
     GBA_STAGE_STARTED, GBA_A_CAPTURED, B_COMMITTED_TO_GBA, SWITCH_STAGE2_STARTED,
     A_COMMITTED_TO_SWITCH, COMPLETE, RECOVERY_REQUIRED]"

fun state_value :: "journal_state \<Rightarrow> string" where
  "state_value IDLE = ''IDLE''"
| "state_value SWITCH_STAGE1_STARTED = ''SWITCH_STAGE1_STARTED''"
| "state_value SWITCH_B_CAPTURED = ''SWITCH_B_CAPTURED''"
| "state_value PLACEHOLDER_ON_SWITCH = ''PLACEHOLDER_ON_SWITCH''"
| "state_value GBA_STAGE_STARTED = ''GBA_STAGE_STARTED''"
| "state_value GBA_A_CAPTURED = ''GBA_A_CAPTURED''"
| "state_value B_COMMITTED_TO_GBA = ''B_COMMITTED_TO_GBA''"
| "state_value SWITCH_STAGE2_STARTED = ''SWITCH_STAGE2_STARTED''"
| "state_value A_COMMITTED_TO_SWITCH = ''A_COMMITTED_TO_SWITCH''"
| "state_value COMPLETE = ''COMPLETE''"
| "state_value RECOVERY_REQUIRED = ''RECOVERY_REQUIRED''"

text \<open>\<open>JournalState(s)\<close>; \<open>None\<close> is its \<open>ValueError\<close>.\<close>

definition state_of_value :: "string \<Rightarrow> journal_state option" where
  "state_of_value s = find (\<lambda>st. state_value st = s) journal_states"

definition terminal_states :: "journal_state set" where
  "terminal_states = {COMPLETE, RECOVERY_REQUIRED}"

fun next_state :: "journal_state \<Rightarrow> journal_state option" where
  "next_state IDLE = Some SWITCH_STAGE1_STARTED"
| "next_state SWITCH_STAGE1_STARTED = Some SWITCH_B_CAPTURED"
| "next_state SWITCH_B_CAPTURED = Some PLACEHOLDER_ON_SWITCH"
| "next_state PLACEHOLDER_ON_SWITCH = Some GBA_STAGE_STARTED"
| "next_state GBA_STAGE_STARTED = Some GBA_A_CAPTURED"
| "next_state GBA_A_CAPTURED = Some B_COMMITTED_TO_GBA"
| "next_state B_COMMITTED_TO_GBA = Some SWITCH_STAGE2_STARTED"
| "next_state SWITCH_STAGE2_STARTED = Some A_COMMITTED_TO_SWITCH"
| "next_state A_COMMITTED_TO_SWITCH = Some COMPLETE"
| "next_state COMPLETE = None"
| "next_state RECOVERY_REQUIRED = None"

lemma state_of_value_state [simp]: "state_of_value (state_value s) = Some s"
  by (cases s) (simp_all add: state_of_value_def journal_states_def)

lemma state_value_of: "state_of_value v = Some s \<Longrightarrow> v = state_value s"
  by (auto simp: state_of_value_def find_Some_iff)

lemma state_value_inject [simp]: "state_value s = state_value t \<longleftrightarrow> s = t"
  by (metis option.inject state_of_value_state)

lemma ascii_state_value [simp]: "ascii_text (state_value s)"
  by (cases s) simp_all

declare state_value.simps [simp del]

text \<open>The moves of the graph, as a step relation, and the order in which the states come.\<close>

inductive moves :: "journal_state \<Rightarrow> journal_state \<Rightarrow> bool" where
  forward: "next_state s = Some t \<Longrightarrow> moves s t"
| recover: "s \<notin> terminal_states \<Longrightarrow> moves s RECOVERY_REQUIRED"

inductive_cases moves_E: "moves s t"
inductive_simps moves_simps: "moves s t"

instantiation journal_state :: linorder
begin

fun rank :: "journal_state \<Rightarrow> nat" where
  "rank IDLE = 0"
| "rank SWITCH_STAGE1_STARTED = 1"
| "rank SWITCH_B_CAPTURED = 2"
| "rank PLACEHOLDER_ON_SWITCH = 3"
| "rank GBA_STAGE_STARTED = 4"
| "rank GBA_A_CAPTURED = 5"
| "rank B_COMMITTED_TO_GBA = 6"
| "rank SWITCH_STAGE2_STARTED = 7"
| "rank A_COMMITTED_TO_SWITCH = 8"
| "rank COMPLETE = 9"
| "rank RECOVERY_REQUIRED = 10"

definition less_eq_journal_state :: "journal_state \<Rightarrow> journal_state \<Rightarrow> bool" where
  "less_eq_journal_state s t \<longleftrightarrow> rank s \<le> rank t"

definition less_journal_state :: "journal_state \<Rightarrow> journal_state \<Rightarrow> bool" where
  "less_journal_state s t \<longleftrightarrow> rank s < rank t"

instance
proof
  fix s t :: journal_state
  show "s \<le> t \<Longrightarrow> t \<le> s \<Longrightarrow> s = t"
    by (cases s; cases t) (simp_all add: less_eq_journal_state_def)
qed (auto simp: less_eq_journal_state_def less_journal_state_def)

end

lemma moves_up: "moves s t \<Longrightarrow> s < t"
  by (cases s; cases t) (auto simp: moves_simps less_journal_state_def terminal_states_def)

lemma terminal_no_moves: "s \<in> terminal_states \<longleftrightarrow> (\<forall>t. \<not> moves s t)"
  by (cases s) (auto simp: moves_simps terminal_states_def)

section \<open>The record\<close>

record history_entry =
  entry_seq :: int
  entry_state :: string
  entry_at :: string
  entry_note :: string

record journal_record =
  schema_version :: int
  tx_id :: string
  jstate :: string
  jseq :: int
  created_at :: string
  updated_at :: string
  hashes :: "(string \<times> string option) list"
  locations :: "(string \<times> string) list"
  gba_slot :: "int option"
  last_error :: "string option"
  history :: "history_entry list"

definition state_enum :: "journal_record \<Rightarrow> exn + journal_state" where
  "state_enum r = (case state_of_value (jstate r) of
      None \<Rightarrow> Inl (Exn ValueError (jstate r @ '' is not a valid JournalState''))
    | Some s \<Rightarrow> Inr s)"

section \<open>To JSON\<close>

definition opt_json :: "('a \<Rightarrow> json) \<Rightarrow> 'a option \<Rightarrow> json" where
  "opt_json f x = (case x of None \<Rightarrow> JNull | Some a \<Rightarrow> f a)"

definition entry_json :: "history_entry \<Rightarrow> json" where
  "entry_json e = JObj [(''sequence'', JInt (entry_seq e)), (''state'', JStr (entry_state e)),
     (''at'', JStr (entry_at e)), (''note'', JStr (entry_note e))]"

definition json_fields :: "journal_record \<Rightarrow> (string \<times> json) list" where
  "json_fields r = [
     (''schema_version'', JInt (schema_version r)),
     (''transaction_id'', JStr (tx_id r)),
     (''state'', JStr (jstate r)),
     (''sequence'', JInt (jseq r)),
     (''created_at'', JStr (created_at r)),
     (''updated_at'', JStr (updated_at r)),
     (''pokemon'', JObj (map (\<lambda>(k, v). (k, opt_json JStr v)) (hashes r))),
     (''locations'', JObj (map (\<lambda>(k, v). (k, JStr v)) (locations r))),
     (''selected_gba_slot'', opt_json JInt (gba_slot r)),
     (''last_error'', opt_json JStr (last_error r)),
     (''history'', JList (map entry_json (history r)))]"

definition as_json_dict :: "journal_record \<Rightarrow> json" where
  "as_json_dict r = JObj (json_fields r)"

section \<open>From JSON\<close>

definition required_keys :: "string list" where
  "required_keys = [''schema_version'', ''transaction_id'', ''state'', ''sequence'', ''created_at'',
     ''updated_at'', ''pokemon'', ''locations'']"

definition record_keys :: "string list" where
  "record_keys = required_keys @ [''selected_gba_slot'', ''last_error'', ''history'']"

definition entry_keys :: "string list" where
  "entry_keys = [''sequence'', ''state'', ''at'', ''note'']"

text \<open>The \<open>TypeError\<close> of a call \<open>C(**kwargs)\<close> of a dataclass, if it raises one.\<close>

definition bad_keys :: "string \<Rightarrow> string list \<Rightarrow> string list \<Rightarrow> string list \<Rightarrow> string option" where
  "bad_keys cls allowed required ks = (
    case find (\<lambda>k. k \<notin> set allowed) ks of
      Some k \<Rightarrow> Some (cls @ ''.__init__() got an unexpected keyword argument '' @ k)
    | None \<Rightarrow> (case find (\<lambda>k. k \<notin> set ks) required of
        Some k \<Rightarrow> Some (cls @ ''.__init__() missing required argument: '' @ k)
      | None \<Rightarrow> None))"

definition entry_error :: "json \<Rightarrow> string option" where
  "entry_error j = (case j of
      JObj kvs \<Rightarrow> bad_keys ''HistoryEntry'' entry_keys entry_keys (map fst kvs)
    | _ \<Rightarrow> Some ''HistoryEntry() argument after ** must be a mapping'')"

text \<open>What \<open>for entry in v\<close> goes through; \<open>None\<close> if \<open>v\<close> is not iterable.\<close>

definition iterate :: "json \<Rightarrow> json list option" where
  "iterate j = (case j of
      JList xs \<Rightarrow> Some xs
    | JObj kvs \<Rightarrow> Some (map (\<lambda>(k, v). JStr k) kvs)
    | JStr s \<Rightarrow> Some (map (\<lambda>c. JStr [c]) s)
    | _ \<Rightarrow> None)"

fun first_some :: "('a \<Rightarrow> 'b option) \<Rightarrow> 'a list \<Rightarrow> 'b option" where
  "first_some f [] = None"
| "first_some f (x # xs) = (case f x of Some y \<Rightarrow> Some y | None \<Rightarrow> first_some f xs)"

fun as_str :: "json \<Rightarrow> string option" where
  "as_str (JStr s) = Some s"
| "as_str _ = None"

fun as_int :: "json \<Rightarrow> int option" where
  "as_int (JInt i) = Some i"
| "as_int _ = None"

fun as_opt :: "(json \<Rightarrow> 'a option) \<Rightarrow> json \<Rightarrow> 'a option option" where
  "as_opt f JNull = Some None"
| "as_opt f j = map_option Some (f j)"

fun as_map :: "(json \<Rightarrow> 'a option) \<Rightarrow> json \<Rightarrow> (string \<times> 'a) list option" where
  "as_map f (JObj kvs) = those (map (\<lambda>(k, v). map_option (Pair k) (f v)) kvs)"
| "as_map f _ = None"

definition entry_of :: "json \<Rightarrow> history_entry option" where
  "entry_of j = (case j of
      JObj kvs \<Rightarrow> (
        case (Option.bind (map_of kvs ''sequence'') as_int, Option.bind (map_of kvs ''state'') as_str,
              Option.bind (map_of kvs ''at'') as_str, Option.bind (map_of kvs ''note'') as_str) of
          (Some i, Some s, Some a, Some n) \<Rightarrow>
            Some \<lparr>entry_seq = i, entry_state = s, entry_at = a, entry_note = n\<rparr>
        | _ \<Rightarrow> None)
    | _ \<Rightarrow> None)"

definition field_of :: "(string \<times> json) list \<Rightarrow> string \<Rightarrow> json \<Rightarrow> json" where
  "field_of data k dflt = (case map_of data k of None \<Rightarrow> dflt | Some v \<Rightarrow> v)"

text \<open>The record with the fields of \<open>data\<close>, if all have the types of the annotations.\<close>

definition typed_record ::
    "(string \<times> json) list \<Rightarrow> history_entry list \<Rightarrow> string \<Rightarrow> string \<Rightarrow> int \<Rightarrow> int \<Rightarrow> journal_record option" where
  "typed_record data hist txid st schema seq = (
    case (as_str (field_of data ''created_at'' JNull), as_str (field_of data ''updated_at'' JNull),
          as_map (as_opt as_str) (field_of data ''pokemon'' JNull),
          as_map as_str (field_of data ''locations'' JNull),
          as_opt as_int (field_of data ''selected_gba_slot'' JNull),
          as_opt as_str (field_of data ''last_error'' JNull)) of
      (Some created, Some updated, Some ps, Some ls, Some slot, Some err) \<Rightarrow>
        Some \<lparr>schema_version = schema, tx_id = txid, jstate = st, jseq = seq, created_at = created,
          updated_at = updated, hashes = ps, locations = ls, gba_slot = slot, last_error = err,
          history = hist\<rparr>
    | _ \<Rightarrow> None)"

definition invalid_journal :: "string \<Rightarrow> (exn + journal_record) option" where
  "invalid_journal m = Some (Inl (Exn JournalError (''invalid transaction journal: '' @ m)))"

text \<open>
  \<open>record.schema_version != 1\<close> and \<open>record.sequence < 0\<close> on a value of any JSON type: \<open>True\<close> is 1, what
  is not a number is not 1 and cannot be compared.
\<close>

definition schema_check :: "json \<Rightarrow> (exn + unit) option" where
  "schema_check j = (
    let unsupported = (\<lambda>s. Some (Inl (Exn JournalError (''unsupported journal schema '' @ s)))) in
    case j of
      JInt i \<Rightarrow> if i \<noteq> 1 then unsupported (dec i) else Some (Inr ())
    | JBool b \<Rightarrow> if \<not> b then unsupported ''False'' else Some (Inr ())
    | JFloat s \<Rightarrow> None
    | JStr s \<Rightarrow> unsupported s
    | JNull \<Rightarrow> unsupported ''None''
    | _ \<Rightarrow> unsupported [])"

definition sequence_check :: "json \<Rightarrow> (exn + unit) option" where
  "sequence_check j = (case j of
      JInt i \<Rightarrow> Some (if i < 0 then Inl (Exn JournalError ''negative journal sequence'') else Inr ())
    | JBool b \<Rightarrow> Some (Inr ())
    | JFloat s \<Rightarrow> None
    | _ \<Rightarrow> Some (Inl (Exn JournalError ''invalid transaction journal: '<' not supported'')))"

text \<open>The checks on the new record, in the order of the code.\<close>

definition check_record :: "(string \<times> json) list \<Rightarrow> json list \<Rightarrow> (exn + journal_record) option" where
  "check_record data entries = (
    case field_of data ''transaction_id'' JNull of
      JNull \<Rightarrow> invalid_journal ''one of the hex, bytes, ... arguments must be given''
    | JStr txid \<Rightarrow>
        if \<not> uuid_text_ok txid then invalid_journal ''badly formed hexadecimal UUID string''
        else (case field_of data ''state'' JNull of
          JStr st \<Rightarrow>
            if state_of_value st = None then invalid_journal (st @ '' is not a valid JournalState'')
            else (case schema_check (field_of data ''schema_version'' JNull) of
              None \<Rightarrow> None
            | Some (Inl e) \<Rightarrow> Some (Inl e)
            | Some (Inr _) \<Rightarrow> (case sequence_check (field_of data ''sequence'' JNull) of
                None \<Rightarrow> None
              | Some (Inl e) \<Rightarrow> Some (Inl e)
              | Some (Inr _) \<Rightarrow>
                  Option.bind (as_int (field_of data ''schema_version'' JNull)) (\<lambda>schema.
                  Option.bind (as_int (field_of data ''sequence'' JNull)) (\<lambda>seq.
                  Option.bind (those (map entry_of entries)) (\<lambda>hist.
                  map_option Inr (typed_record data hist txid st schema seq))))))
        | _ \<Rightarrow> invalid_journal '' is not a valid JournalState'')
    | _ \<Rightarrow> Some (Inl (Exn AttributeError ''object has no attribute replace'')))"

definition from_json_dict :: "(string \<times> json) list \<Rightarrow> (exn + journal_record) option" where
  "from_json_dict data = (
    case iterate (field_of data ''history'' (JList [])) of
      None \<Rightarrow> invalid_journal ''object is not iterable''
    | Some entries \<Rightarrow> (case first_some entry_error entries of
        Some m \<Rightarrow> invalid_journal m
      | None \<Rightarrow> (case bad_keys ''JournalRecord'' record_keys required_keys (map fst data) of
          Some m \<Rightarrow> invalid_journal m
        | None \<Rightarrow> check_record data entries)))"

section \<open>What is written can be read\<close>

lemma map_of_sort_key: "distinct (map fst kvs) \<Longrightarrow> map_of (sort_key fst kvs) = map_of kvs"
  by (rule map_of_inject_set [THEN iffD2])
    (auto intro: mset_eq_imp_distinct_iff [THEN iffD1, rotated] simp: mset_map)

lemma sort_key_map_fst:
  assumes "\<And>x. fst (f x) = fst x"
  shows "sort_key fst (map f xs) = map f (sort_key fst xs)"
proof -
  have ins: "insort_key fst (f x) (map f ys) = map f (insort_key fst x ys)" for x ys
    by (induction ys) (simp_all add: assms)
  show ?thesis by (induction xs) (simp_all add: ins)
qed

lemma those_map_Some: "(\<And>x. x \<in> set xs \<Longrightarrow> f x = Some (g x)) \<Longrightarrow> those (map f xs) = Some (map g xs)"
  by (induction xs) simp_all

lemma sort_json_obj:
  assumes "distinct (map fst kvs)"
  shows "\<exists>fs. sort_json (JObj kvs) = JObj fs \<and> map_of fs = (\<lambda>k. map_option sort_json (map_of kvs k)) \<and>
    set (map fst fs) = set (map fst kvs)"
proof -
  let ?fs = "map (\<lambda>(k, v). (k, sort_json v)) kvs"
  have d: "map fst ?fs = map fst kvs" by (induction kvs) auto
  have "map_of (sort_key fst ?fs) = map_of ?fs"
    using assms d by (intro map_of_sort_key) (simp only:)
  also have "\<dots> = (\<lambda>k. map_option sort_json (map_of kvs k))" by (simp add: map_of_map comp_def)
  finally show ?thesis
    using arg_cong [OF d, of set] by (intro exI [of _ "sort_key fst ?fs"]) (simp only: sort_json.simps set_map set_sort)
qed

lemma sort_json_map:
  assumes "\<And>v. sort_json (f v) = f v"
  shows "sort_json (JObj (map (\<lambda>(k, v). (k, f v)) kvs)) = JObj (map (\<lambda>(k, v). (k, f v)) (sort_key fst kvs))"
proof -
  have "map (\<lambda>(k, v). (k, sort_json v)) (map (\<lambda>(k, v). (k, f v)) kvs) = map (\<lambda>(k, v). (k, f v)) kvs"
    by (simp add: assms split_def comp_def)
  moreover have "sort_key fst (map (\<lambda>(k, v). (k, f v)) kvs) = map (\<lambda>(k, v). (k, f v)) (sort_key fst kvs)"
    by (rule sort_key_map_fst) auto
  ultimately show ?thesis by (simp only: sort_json.simps)
qed

lemma sort_opt_json [simp]:
  "sort_json (opt_json JStr x) = opt_json JStr x" "sort_json (opt_json JInt y) = opt_json JInt y"
  by (cases x; simp add: opt_json_def) (cases y; simp add: opt_json_def)

lemma as_opt_json [simp]:
  "as_opt as_str (opt_json JStr x) = Some x" "as_opt as_int (opt_json JInt y) = Some y"
  by (cases x; simp add: opt_json_def) (cases y; simp add: opt_json_def)

lemma as_map_map [simp]:
  "(\<And>v. f (g v) = Some v) \<Longrightarrow> as_map f (JObj (map (\<lambda>(k, v). (k, g v)) kvs)) = Some kvs"
  by (induction kvs) auto

lemma bad_keys_None:
  "bad_keys c allowed required ks = None \<longleftrightarrow> set ks \<subseteq> set allowed \<and> set required \<subseteq> set ks"
  by (auto simp: bad_keys_def find_None_iff find_Some_iff split: option.splits
      dest!: sym [of None] dest: nth_mem)

lemma first_some_None: "first_some f xs = None \<longleftrightarrow> (\<forall>x \<in> set xs. f x = None)"
  by (induction xs) (auto split: option.splits)

lemma sort_entry:
  "entry_error (sort_json (entry_json e)) = None \<and> entry_of (sort_json (entry_json e)) = Some e"
proof -
  obtain fs where fs: "sort_json (entry_json e) = JObj fs"
      "map_of fs = (\<lambda>k. map_option sort_json (map_of [(''sequence'', JInt (entry_seq e)),
        (''state'', JStr (entry_state e)), (''at'', JStr (entry_at e)), (''note'', JStr (entry_note e))] k))"
      "set (map fst fs) = set entry_keys"
    using sort_json_obj [of "[(''sequence'', JInt (entry_seq e)), (''state'', JStr (entry_state e)),
      (''at'', JStr (entry_at e)), (''note'', JStr (entry_note e))]"]
    by (auto simp: entry_json_def entry_keys_def)
  show ?thesis
    unfolding fs(1) by (simp add: entry_error_def bad_keys_None fs(2,3) entry_of_def del: set_map)
qed

text \<open>The records that \<open>from_json_dict\<close> accepts, and the record it makes: the dictionaries come back
  with their keys in order.\<close>

definition readable :: "journal_record \<Rightarrow> bool" where
  "readable r \<longleftrightarrow> schema_version r = 1 \<and> uuid_text_ok (tx_id r) \<and> state_of_value (jstate r) \<noteq> None \<and>
     0 \<le> jseq r \<and> distinct (map fst (hashes r)) \<and> distinct (map fst (locations r))"

definition sorted_dicts :: "journal_record \<Rightarrow> journal_record" where
  "sorted_dicts r = r\<lparr>hashes := sort_key fst (hashes r), locations := sort_key fst (locations r)\<rparr>"

lemma json_fields_keys: "map fst (json_fields r) =
    [''schema_version'', ''transaction_id'', ''state'', ''sequence'', ''created_at'', ''updated_at'',
     ''pokemon'', ''locations'', ''selected_gba_slot'', ''last_error'', ''history'']"
  by (simp add: json_fields_def)

lemma set_record_keys: "set (map fst (json_fields r)) = set record_keys"
  by (simp add: json_fields_keys record_keys_def required_keys_def)

lemma from_json_sorted:
  assumes "readable r"
  shows "\<exists>fs. sort_json (as_json_dict r) = JObj fs \<and> from_json_dict fs = Some (Inr (sorted_dicts r))"
proof -
  have "distinct (map fst (json_fields r))" by (simp add: json_fields_keys)
  then obtain fs where fs: "sort_json (as_json_dict r) = JObj fs"
      "map_of fs = (\<lambda>k. map_option sort_json (map_of (json_fields r) k))"
      "set (map fst fs) = set record_keys"
    unfolding as_json_dict_def set_record_keys [of r, symmetric] using sort_json_obj by blast
  have f: "field_of fs k d = (case map_of (json_fields r) k of None \<Rightarrow> d | Some v \<Rightarrow> sort_json v)" for k d
    by (simp add: field_of_def fs(2) split: option.split)
  let ?h = "map (\<lambda>e. sort_json (entry_json e)) (history r)"
  have hist: "field_of fs ''history'' d = JList ?h" for d
    unfolding f by (simp add: json_fields_def comp_def)
  have "those (map entry_of ?h) = Some (history r)"
    using those_map_Some [of "history r" "\<lambda>e. entry_of (sort_json (entry_json e))" id]
    by (simp add: sort_entry comp_def)
  moreover have "typed_record fs (history r) (tx_id r) (jstate r) 1 (jseq r) = Some (sorted_dicts r)"
    unfolding typed_record_def f
    using assms by (simp add: json_fields_def sort_json_map sorted_dicts_def readable_def
        del: sort_json.simps(2) as_map.simps)
  ultimately have "check_record fs ?h = Some (Inr (sorted_dicts r))"
    using assms unfolding check_record_def f readable_def
    by (auto simp: json_fields_def schema_check_def sequence_check_def)
  moreover have "first_some entry_error ?h = None" by (auto simp: first_some_None sort_entry)
  moreover have "bad_keys ''JournalRecord'' record_keys required_keys (map fst fs) = None"
    unfolding bad_keys_None fs(3) by (auto simp: record_keys_def)
  ultimately have "from_json_dict fs = Some (Inr (sorted_dicts r))"
    by (simp add: from_json_dict_def hist iterate_def)
  then show ?thesis using fs(1) by blast
qed

lemma plain_opt_json [simp]: "plain (opt_json JStr x)" "plain (opt_json JInt y)"
  by (simp_all add: opt_json_def split: option.split)

lemma plain_map:
  assumes "distinct (map fst kvs)" and "\<And>v. plain (f v)"
  shows "plain (JObj (map (\<lambda>(k, v). (k, f v)) kvs))"
proof -
  have "map fst (map (\<lambda>(k, v). (k, f v)) kvs) = map fst kvs" by (simp add: split_def comp_def)
  then show ?thesis using assms by (auto simp del: map_map)
qed

lemma plain_entry_json [simp]: "plain (entry_json e)"
  by (simp add: entry_json_def)

lemma plain_as_json_dict:
  assumes "readable r"
  shows "plain (as_json_dict r)"
proof -
  have "plain (JObj (map (\<lambda>(k, v). (k, opt_json JStr v)) (hashes r)))"
    "plain (JObj (map (\<lambda>(k, v). (k, JStr v)) (locations r)))"
    using assms by (auto simp: readable_def intro!: plain_map simp del: plain.simps(3))
  then have "\<forall>(k, v) \<in> set (json_fields r). plain v"
    by (simp add: json_fields_def del: plain.simps(3))
  moreover have "distinct (map fst (json_fields r))" by (simp add: json_fields_keys)
  ultimately show ?thesis by (simp only: as_json_dict_def plain.simps(3))
qed

text \<open>All texts of a record are well-formed UTF-8.\<close>

definition utf8_record :: "journal_record \<Rightarrow> bool" where
  "utf8_record r \<longleftrightarrow>
     utf8_ok (tx_id r) \<and> utf8_ok (jstate r) \<and> utf8_ok (created_at r) \<and> utf8_ok (updated_at r) \<and>
     (\<forall>(k, v) \<in> set (hashes r). utf8_ok k \<and> pred_option utf8_ok v) \<and>
     (\<forall>(k, v) \<in> set (locations r). utf8_ok k \<and> utf8_ok v) \<and> pred_option utf8_ok (last_error r) \<and>
     (\<forall>e \<in> set (history r). utf8_ok (entry_state e) \<and> utf8_ok (entry_at e) \<and> utf8_ok (entry_note e))"

lemma ascii_keys: "\<forall>k \<in> set (map fst (json_fields r)). ascii_text k"
  by (simp add: json_fields_keys)

lemma texts_ok_opt_json:
  "texts_ok (opt_json JStr x) \<longleftrightarrow> pred_option utf8_ok x" "texts_ok (opt_json JInt y)"
  by (cases x; simp add: opt_json_def) (cases y; simp add: opt_json_def)

lemma texts_ok_as_json_dict:
  assumes "utf8_record r"
  shows "texts_ok (as_json_dict r)"
proof -
  have "texts_ok (JObj (map (\<lambda>(k, v). (k, opt_json JStr v)) (hashes r)))"
    "texts_ok (JObj (map (\<lambda>(k, v). (k, JStr v)) (locations r)))"
    "texts_ok (JList (map entry_json (history r)))"
    using assms by (auto simp: utf8_record_def texts_ok_opt_json entry_json_def)
  then have "\<forall>(k, v) \<in> set (json_fields r). texts_ok v"
    using assms
    by (simp add: json_fields_def utf8_record_def texts_ok_opt_json del: texts_ok.simps(3,4))
  then show ?thesis using ascii_keys [of r] utf8_ok_ascii by (force simp: as_json_dict_def)
qed

section \<open>The file\<close>

text \<open>
  The payload of \<open>_write\<close>, and the text part of \<open>load\<close>. The texts of a record are Unicode text, so
  \<open>encode("utf-8")\<close> cannot fail.
\<close>

definition journal_bytes :: "journal_record \<Rightarrow> bytes" where
  "journal_bytes r = text_bytes (json_dumps (as_json_dict r) @ [newline])"

definition parse_journal :: "string \<Rightarrow> bytes \<Rightarrow> (exn + journal_record) option" where
  "parse_journal path bs = (
    if \<not> utf8_ok (bytes_text bs) then Some (Inl (Exn UnicodeDecodeError ''codec cannot decode byte''))
    else (case json_loads (bytes_text bs) of
        None \<Rightarrow> Some (Inl (Exn JournalError (''cannot read journal '' @ path @ '': '' @ ''JSONDecodeError'')))
      | Some (JObj data) \<Rightarrow> (case from_json_dict data of
            Some (Inr r) \<Rightarrow> if texts_ok (JObj data) then Some (Inr r) else None
          | res \<Rightarrow> res)
      | Some _ \<Rightarrow> Some (Inl (Exn JournalError ''journal root must be an object''))))"

lemma parse_journal_bytes:
  assumes "readable r" and "utf8_record r"
  shows "parse_journal path (journal_bytes r) = Some (Inr (sorted_dicts r))"
proof -
  obtain fs where "sort_json (as_json_dict r) = JObj fs" "from_json_dict fs = Some (Inr (sorted_dicts r))"
    using from_json_sorted [OF assms(1)] by blast
  then show ?thesis
    using utf8_ok_dumps [OF texts_ok_as_json_dict [OF assms(2)]]
      texts_ok_sort [OF texts_ok_as_json_dict [OF assms(2)]]
      loads_dumps [OF plain_as_json_dict [OF assms(1)]]
    by (simp add: parse_journal_def journal_bytes_def)
qed

end
