(* ===== verification/Fsys.thy ===== *)
theory Fsys
  imports Effects Uuid
begin

text \<open>
  The operating system as the journal uses it (\<open>os\<close>, \<open>tempfile\<close>, \<open>pathlib\<close>), and
  \<open>JournalStore._atomic_bytes\<close> of \<open>broker/journal.py\<close> on it.

  A path is its components (the first one empty for an absolute path); \<open>Temp cs n\<close> is the temporary
  file that \<open>NamedTemporaryFile\<close> creates beside \<open>Path cs\<close>, its random suffix written as the number
  of its inode, since a fresh name is all the code relies on. A file has the bytes processes see
  (\<open>cache\<close>) and those a power loss leaves (\<open>disk\<close>; \<open>None\<close> when nothing is known of them). A
  directory likewise has the entry processes see (\<open>names\<close>) and the entries a power loss may
  bring back (\<open>saved\<close>): the one of the last directory \<open>fsync\<close> and every later one. \<open>survives\<close>
  says which contents of a path are possible after a power loss.

  Every call may fail: \<open>fault n\<close> is the text of the \<open>OSError\<close> that call number \<open>n\<close> raises, if it
  does. The clock and the random UUIDs are likewise read off the call number. Directories
  persist: \<open>mkdir\<close> may fail and otherwise has no effect here, and that a power loss takes a directory
  whose parent was not synced is not modelled.
\<close>

datatype path = Path "string list" | Temp "string list" nat

fun directory :: "path \<Rightarrow> string list" where
  "directory (Path cs) = butlast cs"
| "directory (Temp cs n) = butlast cs"

definition path_str :: "string list \<Rightarrow> string" where
  "path_str cs = (if cs = [] then ''.'' else tl (concat (map (\<lambda>c. ''/'' @ c) cs)))"

record inode =
  cache :: bytes
  disk :: "bytes option"

record os =
  inodes :: "nat \<Rightarrow> inode"
  names :: "path \<Rightarrow> nat option"
  saved :: "path \<Rightarrow> nat option list"
  next_inode :: nat
  calls :: nat
  fault :: "nat \<Rightarrow> string option"
  clock :: "nat \<Rightarrow> string"
  fresh_uuid :: "nat \<Rightarrow> uuid"

definition contents :: "os \<Rightarrow> path \<Rightarrow> bytes option" where
  "contents w p = map_option (\<lambda>i. cache (inodes w i)) (names w p)"

definition survives :: "os \<Rightarrow> path \<Rightarrow> bytes option \<Rightarrow> bool" where
  "survives w p c \<longleftrightarrow> (\<exists>e \<in> set (saved w p). case e of
      None \<Rightarrow> c = None
    | Some i \<Rightarrow> (case disk (inodes w i) of Some b \<Rightarrow> c = Some b | None \<Rightarrow> c \<noteq> None))"

text \<open>What every run keeps: new inodes are unused, and what processes see may also survive.\<close>

definition wf_os :: "os \<Rightarrow> bool" where
  "wf_os w \<longleftrightarrow>
    (\<forall>p i. names w p = Some i \<longrightarrow> i < next_inode w) \<and>
    (\<forall>p i. Some i \<in> set (saved w p) \<longrightarrow> i < next_inode w) \<and>
    (\<forall>cs n. next_inode w \<le> n \<longrightarrow> names w (Temp cs n) = None) \<and>
    (\<forall>p. names w p \<in> set (saved w p))"

section \<open>Calls\<close>

definition sys :: "(os \<Rightarrow> os) \<Rightarrow> (os, unit) prog" where
  "sys f = (\<lambda>w. let w' = w\<lparr>calls := Suc (calls w)\<rparr> in
     case fault w (calls w) of
       Some m \<Rightarrow> Some (w', Inl (Exn OSError m))
     | None \<Rightarrow> Some (f w', Inr ()))"

definition now :: "(os, string) prog" where
  "now = (\<lambda>w. Some (w\<lparr>calls := Suc (calls w)\<rparr>, Inr (clock w (calls w))))"

definition uuid4 :: "(os, uuid) prog" where
  "uuid4 = (\<lambda>w. Some (w\<lparr>calls := Suc (calls w)\<rparr>, Inr (fresh_uuid w (calls w))))"

definition path_exists :: "path \<Rightarrow> (os, bool) prog" where
  "path_exists p = andthen (sys id) (\<lambda>_. gets (\<lambda>w. names w p \<noteq> None))"

definition read_bytes :: "path \<Rightarrow> (os, bytes) prog" where
  "read_bytes p = andthen (sys id) (\<lambda>_. andthen (gets (\<lambda>w. contents w p)) (\<lambda>c.
     case c of
       None \<Rightarrow> raise (Exn FileNotFoundError ''No such file or directory'')
     | Some b \<Rightarrow> ret b))"

section \<open>The atomic write\<close>

text \<open>The calls between the creation of the temporary file and the \<open>fsync\<close> of the directory.\<close>

datatype wstep = Create | Write | Flush | Fsync | Replace | OpenDir | FsyncDir

fun wstep_effect :: "string list \<Rightarrow> bytes \<Rightarrow> nat \<Rightarrow> wstep \<Rightarrow> os \<Rightarrow> os" where
  "wstep_effect cs payload i Create w = w\<lparr>
      inodes := (inodes w)(i := \<lparr>cache = [], disk = None\<rparr>),
      names := (names w)(Temp cs i \<mapsto> i),
      saved := (saved w)(Temp cs i := saved w (Temp cs i) @ [Some i]),
      next_inode := Suc i\<rparr>"
| "wstep_effect cs payload i Write w = w\<lparr>
      inodes := (inodes w)(i := \<lparr>cache = payload, disk = None\<rparr>)\<rparr>"
| "wstep_effect cs payload i Flush w = w"
| "wstep_effect cs payload i Fsync w = w\<lparr>
      inodes := (inodes w)(i := (inodes w i)\<lparr>disk := Some (cache (inodes w i))\<rparr>)\<rparr>"
| "wstep_effect cs payload i Replace w = w\<lparr>
      names := (names w)(Path cs := names w (Temp cs i), Temp cs i := None),
      saved := (saved w)(Path cs := saved w (Path cs) @ [names w (Temp cs i)],
        Temp cs i := saved w (Temp cs i) @ [None])\<rparr>"
| "wstep_effect cs payload i OpenDir w = w"
| "wstep_effect cs payload i FsyncDir w = w\<lparr>
      saved := (\<lambda>p. if directory p = butlast cs then [names w p] else saved w p)\<rparr>"

definition unlink_effect :: "path \<Rightarrow> os \<Rightarrow> os" where
  "unlink_effect p w = w\<lparr>names := (names w)(p := None), saved := (saved w)(p := saved w p @ [None])\<rparr>"

fun run_wsteps :: "string list \<Rightarrow> bytes \<Rightarrow> nat \<Rightarrow> wstep list \<Rightarrow> (os, unit) prog" where
  "run_wsteps cs payload i [] = ret ()"
| "run_wsteps cs payload i (s # ss) =
    andthen (sys (wstep_effect cs payload i s)) (\<lambda>_. run_wsteps cs payload i ss)"

text \<open>
  \<open>temp_name\<close> is set when the temporary file has been created and \<open>None\<close> again after the
  replacement: exactly while the temporary name is there. The handle of the temporary file is closed
  when the \<open>with\<close> block is left and that of the directory after its \<open>fsync\<close>, whether a call before has
  failed or not, and either close may fail itself.
\<close>

definition remove_temp :: "string list \<Rightarrow> nat \<Rightarrow> (os, unit) prog" where
  "remove_temp cs i = andthen (gets (\<lambda>w. names w (Temp cs i))) (\<lambda>temp.
     if temp \<noteq> None
     then try_except FileNotFoundError (sys (unlink_effect (Temp cs i))) (\<lambda>_. ret ())
     else ret ())"

definition atomic_bytes :: "string list \<Rightarrow> bytes \<Rightarrow> (os, unit) prog" where
  "atomic_bytes cs payload =
    andthen (sys id) (\<lambda>_.
    andthen (gets next_inode) (\<lambda>i.
    try_finally
      (try_except OSError
        (andthen (run_wsteps cs payload i [Create]) (\<lambda>_.
         andthen (try_finally (run_wsteps cs payload i [Write, Flush, Fsync]) (sys id)) (\<lambda>_.
         andthen (run_wsteps cs payload i [Replace, OpenDir]) (\<lambda>_.
         try_finally (run_wsteps cs payload i [FsyncDir]) (sys id)))))
        (\<lambda>exc. raise (Exn JournalError
          (''atomic write failed for '' @ path_str cs @ '': '' @ message exc))))
      (remove_temp cs i)))"

section \<open>Rules for the calls\<close>

lemma wp_sys:
  "wp (sys f) Q E w \<longleftrightarrow> (case fault w (calls w) of
      None \<Rightarrow> Q () (f (w\<lparr>calls := Suc (calls w)\<rparr>))
    | Some m \<Rightarrow> E (Exn OSError m) (w\<lparr>calls := Suc (calls w)\<rparr>))"
  by (simp add: wp_def sys_def Let_def split: option.splits)

lemma wp_sys_I:
  assumes "\<And>n. Q () (f (w\<lparr>calls := n\<rparr>))" and "\<And>m n. E (Exn OSError m) (w\<lparr>calls := n\<rparr>)"
  shows "wp (sys f) Q E w"
  using assms by (simp add: wp_sys split: option.splits)

lemma wp_now [wp_simps]:
  "wp now Q E w \<longleftrightarrow> Q (clock w (calls w)) (w\<lparr>calls := Suc (calls w)\<rparr>)"
  by (simp add: wp_def now_def)

lemma wp_uuid4 [wp_simps]:
  "wp uuid4 Q E w \<longleftrightarrow> Q (fresh_uuid w (calls w)) (w\<lparr>calls := Suc (calls w)\<rparr>)"
  by (simp add: wp_def uuid4_def)

lemma os_error_simps [simp]:
  "isinstance (Exn OSError m) OSError" "\<not> isinstance (Exn OSError m) FileNotFoundError"
  "\<not> isinstance (Exn JournalError m) FileNotFoundError" "\<not> isinstance (Exn JournalError m) OSError"
  "isinstance (Exn FileNotFoundError m) OSError" "\<not> isinstance (Exn UnicodeDecodeError m) OSError"
  by (simp_all add: isinstance_simps)

lemma contents_calls [simp]: "contents (w\<lparr>calls := n\<rparr>) = contents w"
  by (simp add: contents_def fun_eq_iff)

lemma survives_calls [simp]: "survives (w\<lparr>calls := n\<rparr>) = survives w"
  by (intro ext) (simp add: survives_def cong: option.case_cong)

lemma wf_os_calls [simp]: "wf_os (w\<lparr>calls := n\<rparr>) = wf_os w"
  by (simp add: wf_os_def)

lemma returns_sys [simp]: "returns (sys f) w"
  by (simp add: returns_def sys_def Let_def split: option.splits)

lemma returns_now [simp]: "returns now w" "returns uuid4 w"
  by (simp_all add: returns_def now_def uuid4_def)

section \<open>What a write can do\<close>

text \<open>
  \<open>written w w' cs payload\<close> relates the states before and after any part of an atomic write of
  \<open>payload\<close> to \<open>Path cs\<close>: the path has its old contents or the payload, and after a power loss it
  has contents it could have had before or the payload; every other path is untouched.
\<close>

definition frame_os :: "os \<Rightarrow> os \<Rightarrow> bool" where
  "frame_os w w' \<longleftrightarrow> fault w' = fault w \<and> clock w' = clock w \<and> fresh_uuid w' = fresh_uuid w \<and>
     calls w \<le> calls w' \<and> next_inode w \<le> next_inode w'"

definition written :: "os \<Rightarrow> os \<Rightarrow> string list \<Rightarrow> bytes \<Rightarrow> bool" where
  "written w w' cs payload \<longleftrightarrow> wf_os w' \<and> frame_os w w' \<and>
     contents w' (Path cs) \<in> {contents w (Path cs), Some payload} \<and>
     (\<forall>c. survives w' (Path cs) c \<longrightarrow> survives w (Path cs) c \<or> c = Some payload) \<and>
     (\<forall>ds. ds \<noteq> cs \<longrightarrow> contents w' (Path ds) = contents w (Path ds) \<and>
       (\<forall>c. survives w' (Path ds) c \<longrightarrow> survives w (Path ds) c))"

text \<open>
  The states of a write that began in \<open>w\<close> and uses the new inode \<open>i\<close>: \<open>mid\<close> before the
  replacement (\<open>t\<close> is the temporary name's entry), \<open>replaced\<close> after it.
\<close>

definition mid :: "os \<Rightarrow> nat \<Rightarrow> string list \<Rightarrow> nat option \<Rightarrow> os \<Rightarrow> bool" where
  "mid w i cs t x \<longleftrightarrow> wf_os x \<and> frame_os w x \<and> (\<forall>k < i. inodes x k = inodes w k) \<and>
     (\<forall>ds. names x (Path ds) = names w (Path ds) \<and> saved x (Path ds) = saved w (Path ds)) \<and>
     names x (Temp cs i) = t"

definition mid_file :: "os \<Rightarrow> nat \<Rightarrow> string list \<Rightarrow> inode \<Rightarrow> os \<Rightarrow> bool" where
  "mid_file w i cs f x \<longleftrightarrow> mid w i cs (Some i) x \<and> inodes x i = f \<and> next_inode x = Suc i"

definition replaced :: "os \<Rightarrow> nat \<Rightarrow> string list \<Rightarrow> bytes \<Rightarrow> os \<Rightarrow> bool" where
  "replaced w i cs payload x \<longleftrightarrow> wf_os x \<and> frame_os w x \<and> (\<forall>k < i. inodes x k = inodes w k) \<and>
     inodes x i = \<lparr>cache = payload, disk = Some payload\<rparr> \<and> names x (Path cs) = Some i \<and>
     names x (Temp cs i) = None \<and>
     set (saved x (Path cs)) \<subseteq> insert (Some i) (set (saved w (Path cs))) \<and>
     (\<forall>ds. ds \<noteq> cs \<longrightarrow> names x (Path ds) = names w (Path ds) \<and>
       set (saved x (Path ds)) \<subseteq> set (saved w (Path ds)))"

lemma frame_os_refl [simp]: "frame_os w w"
  by (simp add: frame_os_def)

lemma frame_os_trans: "frame_os u v \<Longrightarrow> frame_os v w \<Longrightarrow> frame_os u w"
  by (simp add: frame_os_def)

lemma frame_os_calls: "frame_os w x \<Longrightarrow> calls x \<le> n \<Longrightarrow> frame_os w (x\<lparr>calls := n\<rparr>)"
  by (simp add: frame_os_def)

lemma wp_sys_step:
  assumes "P w" and "\<And>n. calls w \<le> n \<Longrightarrow> P w \<Longrightarrow> P (w\<lparr>calls := n\<rparr>)"
    and "\<And>x. P x \<Longrightarrow> Q () (f x)"
    and "\<And>m x. P x \<Longrightarrow> fault x \<noteq> (\<lambda>_. None) \<Longrightarrow> E (Exn OSError m) x"
  shows "wp (sys f) Q E w"
proof -
  have "fault w \<noteq> (\<lambda>_. None)" if "fault w n = Some m" for n m using that by (metis option.distinct(1))
  then show ?thesis using assms by (auto simp: wp_sys split: option.splits)
qed

lemma wp_sys_id:
  assumes "\<And>n. calls w \<le> n \<Longrightarrow> Q () (w\<lparr>calls := n\<rparr>)"
    and "\<And>m n. calls w \<le> n \<Longrightarrow> fault w \<noteq> (\<lambda>_. None) \<Longrightarrow> E (Exn OSError m) (w\<lparr>calls := n\<rparr>)"
  shows "wp (sys id) Q E w"
proof -
  have "fault w \<noteq> (\<lambda>_. None)" if "fault w n = Some m" for n m using that by (metis option.distinct(1))
  then show ?thesis using assms by (simp add: wp_sys split: option.split)
qed

lemma mid_calls: "mid w i cs t x \<Longrightarrow> calls x \<le> n \<Longrightarrow> mid w i cs t (x\<lparr>calls := n\<rparr>)"
  by (simp add: mid_def frame_os_calls)

lemma mid_file_calls: "mid_file w i cs f x \<Longrightarrow> calls x \<le> n \<Longrightarrow> mid_file w i cs f (x\<lparr>calls := n\<rparr>)"
  by (simp add: mid_file_def mid_calls)

lemma replaced_calls: "replaced w i cs b x \<Longrightarrow> calls x \<le> n \<Longrightarrow> replaced w i cs b (x\<lparr>calls := n\<rparr>)"
  by (simp add: replaced_def frame_os_calls)

lemma mid_create:
  assumes "mid w i cs None x" and "next_inode x = i"
  shows "mid_file w i cs \<lparr>cache = [], disk = None\<rparr> (wstep_effect cs b i Create x)"
  using assms by (auto simp: mid_file_def mid_def wf_os_def frame_os_def less_Suc_eq split: if_splits)

lemma mid_write:
  assumes "mid_file w i cs f x"
  shows "mid_file w i cs \<lparr>cache = b, disk = None\<rparr> (wstep_effect cs b i Write x)"
proof -
  have "next_inode x = Suc i" using assms by (simp add: mid_file_def)
  then show ?thesis using assms by (auto simp: mid_file_def mid_def wf_os_def frame_os_def)
qed

lemma mid_fsync:
  assumes "mid_file w i cs \<lparr>cache = b, disk = None\<rparr> x"
  shows "mid_file w i cs \<lparr>cache = b, disk = Some b\<rparr> (wstep_effect cs b i Fsync x)"
proof -
  have "next_inode x = Suc i" using assms by (simp add: mid_file_def)
  then show ?thesis using assms by (auto simp: mid_file_def mid_def wf_os_def frame_os_def)
qed

lemma mid_replace:
  assumes "mid_file w i cs \<lparr>cache = b, disk = Some b\<rparr> x"
  shows "replaced w i cs b (wstep_effect cs b i Replace x)"
proof -
  let ?y = "wstep_effect cs b i Replace x"
  have x: "wf_os x" "frame_os w x" "\<forall>k < i. inodes x k = inodes w k"
      "\<And>ds. names x (Path ds) = names w (Path ds)" "\<And>ds. saved x (Path ds) = saved w (Path ds)"
      "names x (Temp cs i) = Some i" "inodes x i = \<lparr>cache = b, disk = Some b\<rparr>"
    using assms by (auto simp: mid_file_def mid_def)
  have "wf_os ?y" using x(1,6) by (auto simp: wf_os_def)
  then show ?thesis using x(2-) by (simp add: replaced_def frame_os_def)
qed

lemma replaced_fsync_dir:
  assumes "replaced w i cs b x"
  shows "replaced w i cs b (wstep_effect cs b i FsyncDir x) \<and>
    saved (wstep_effect cs b i FsyncDir x) (Path cs) = [Some i]"
proof -
  let ?y = "wstep_effect cs b i FsyncDir x"
  have x: "wf_os x" "frame_os w x" "\<forall>k < i. inodes x k = inodes w k" "names x (Path cs) = Some i"
      "names x (Temp cs i) = None" "inodes x i = \<lparr>cache = b, disk = Some b\<rparr>"
      "set (saved x (Path cs)) \<subseteq> insert (Some i) (set (saved w (Path cs)))"
      "\<And>ds. ds \<noteq> cs \<Longrightarrow> names x (Path ds) = names w (Path ds)"
      "\<And>ds. ds \<noteq> cs \<Longrightarrow> set (saved x (Path ds)) \<subseteq> set (saved w (Path ds))"
    using assms by (auto simp: replaced_def)
  have cur: "names x p \<in> set (saved x p)" for p using x(1) by (simp add: wf_os_def)
  have "wf_os ?y" using x(1) by (auto simp: wf_os_def split: if_splits)
  moreover have "set (saved ?y (Path ds)) \<subseteq> set (saved w (Path ds))" if "ds \<noteq> cs" for ds
    using cur [of "Path ds"] x(9) [OF that] by auto
  ultimately show ?thesis using x by (simp add: replaced_def frame_os_def)
qed

lemma mid_unlink:
  assumes "mid w i cs t x"
  shows "mid w i cs None (unlink_effect (Temp cs i) x)"
  using assms by (auto simp: mid_def wf_os_def frame_os_def unlink_effect_def split: if_splits)

lemma mid_written:
  assumes "wf_os w" and "i = next_inode w" and "mid w i cs t x"
  shows "written w x cs b"
proof -
  have "contents x (Path ds) = contents w (Path ds)" for ds
    using assms by (auto simp: contents_def mid_def wf_os_def intro!: option.map_cong0)
  moreover have "survives x (Path ds) = survives w (Path ds)" for ds
  proof -
    have "inodes x k = inodes w k" if "Some k \<in> set (saved w (Path ds))" for k
      using assms that by (simp add: wf_os_def mid_def)
    then have "(case e of None \<Rightarrow> c = None | Some k \<Rightarrow>
          (case disk (inodes x k) of Some d \<Rightarrow> c = Some d | None \<Rightarrow> c \<noteq> None)) =
        (case e of None \<Rightarrow> c = None | Some k \<Rightarrow>
          (case disk (inodes w k) of Some d \<Rightarrow> c = Some d | None \<Rightarrow> c \<noteq> None))"
      if "e \<in> set (saved w (Path ds))" for e c
      using that by (cases e) simp_all
    moreover have "saved x (Path ds) = saved w (Path ds)" using assms(3) by (simp add: mid_def)
    ultimately show ?thesis by (intro ext) (simp add: survives_def cong: bex_cong)
  qed
  ultimately show ?thesis using assms by (simp add: written_def mid_def)
qed

lemma replaced_written:
  assumes "wf_os w" and "i = next_inode w" and "replaced w i cs b x"
  shows "written w x cs b \<and> contents x (Path cs) = Some b"
proof -
  have inode: "inodes x k = inodes w k" if "Some k \<in> set (saved w p)" for p k
    using assms that by (simp add: wf_os_def replaced_def)
  have old: "survives w p c"
    if "e \<in> set (saved w p)" "case e of None \<Rightarrow> c = None | Some k \<Rightarrow>
      (case disk (inodes x k) of Some d \<Rightarrow> c = Some d | None \<Rightarrow> c \<noteq> None)" for e p c
    using that inode by (auto simp: survives_def intro!: bexI [of _ e] split: option.splits)
  have "survives x (Path cs) c \<longrightarrow> survives w (Path cs) c \<or> c = Some b" for c
  proof
    assume "survives x (Path cs) c"
    then obtain e where e: "e \<in> set (saved x (Path cs))" "case e of None \<Rightarrow> c = None | Some k \<Rightarrow>
      (case disk (inodes x k) of Some d \<Rightarrow> c = Some d | None \<Rightarrow> c \<noteq> None)"
      by (auto simp: survives_def)
    then consider "e = Some i" | "e \<in> set (saved w (Path cs))"
      using assms(3) by (auto simp: replaced_def)
    then show "survives w (Path cs) c \<or> c = Some b"
      by cases (use e assms(3) old in \<open>auto simp: replaced_def\<close>)
  qed
  moreover have "survives x (Path ds) c \<longrightarrow> survives w (Path ds) c" if "ds \<noteq> cs" for ds c
    using assms(3) that old by (fastforce simp: replaced_def survives_def [of x])
  moreover have "contents x (Path ds) = contents w (Path ds)" if "ds \<noteq> cs" for ds
    using assms that by (auto simp: contents_def replaced_def wf_os_def intro!: option.map_cong0)
  moreover have "contents x (Path cs) = Some b"
    using assms(3) by (simp add: contents_def replaced_def)
  ultimately show ?thesis using assms(3) by (simp add: written_def replaced_def)
qed

lemma replaced_synced:
  assumes "replaced w i cs b x" and "saved x (Path cs) = [Some i]"
  shows "survives x (Path cs) c \<longleftrightarrow> c = Some b"
  using assms by (simp add: survives_def replaced_def)

text \<open>The steps one by one: each keeps \<open>mid\<close> until the replacement, and \<open>replaced\<close> after it.\<close>

abbreviation write_steps :: "wstep list" where
  "write_steps \<equiv> [Create, Write, Flush, Fsync, Replace, OpenDir, FsyncDir]"

definition midway :: "os \<Rightarrow> string list \<Rightarrow> bytes \<Rightarrow> os \<Rightarrow> bool" where
  "midway w cs b x \<longleftrightarrow> replaced w (next_inode w) cs b x \<or> (\<exists>t. mid w (next_inode w) cs t x)"

definition wstate :: "os \<Rightarrow> string list \<Rightarrow> bytes \<Rightarrow> nat \<Rightarrow> os \<Rightarrow> bool" where
  "wstate w cs b n x \<longleftrightarrow>
     (if n = 0 then mid w (next_inode w) cs None x \<and> next_inode x = next_inode w
      else if n = 1 then mid_file w (next_inode w) cs \<lparr>cache = [], disk = None\<rparr> x
      else if n < 4 then mid_file w (next_inode w) cs \<lparr>cache = b, disk = None\<rparr> x
      else if n = 4 then mid_file w (next_inode w) cs \<lparr>cache = b, disk = Some b\<rparr> x
      else replaced w (next_inode w) cs b x \<and>
        (n = 7 \<longrightarrow> saved x (Path cs) = [Some (next_inode w)]))"

lemma wstate_midway: "wstate w cs b n x \<Longrightarrow> midway w cs b x"
  by (auto simp: wstate_def midway_def mid_file_def split: if_splits)

lemma wstate_calls: "wstate w cs b n x \<Longrightarrow> calls x \<le> m \<Longrightarrow> wstate w cs b n (x\<lparr>calls := m\<rparr>)"
  by (auto simp: wstate_def mid_calls mid_file_calls replaced_calls split: if_splits)

lemma wstate_step:
  assumes "wstate w cs b n x" and "n < 7"
  shows "wstate w cs b (Suc n) (wstep_effect cs b (next_inode w) (write_steps ! n) x)"
proof -
  consider "n = 0" | "n = 1" | "n = 2" | "n = 3" | "n = 4" | "n = 5" | "n = 6" using assms(2) by linarith
  then show ?thesis
    using assms(1)
    by cases (simp_all add: wstate_def mid_create mid_write mid_fsync mid_replace replaced_fsync_dir
        del: wstep_effect.simps(1,2,4,5,7))
qed

lemma midway_frame: "midway w cs b x \<Longrightarrow> fault x = fault w"
  by (auto simp: midway_def mid_def replaced_def frame_os_def)

lemma wp_write_steps:
  assumes "wstate w cs b n x" and "n + k \<le> 7"
    and "\<And>y. wstate w cs b (n + k) y \<Longrightarrow> Q () y"
    and "\<And>m y. midway w cs b y \<Longrightarrow> fault w \<noteq> (\<lambda>_. None) \<Longrightarrow> E (Exn OSError m) y"
  shows "wp (run_wsteps cs b (next_inode w) (take k (drop n write_steps))) Q E x"
  using assms
proof (induction k arbitrary: n x)
  case 0
  then show ?case by (simp add: wp_ret)
next
  case (Suc k)
  have n: "n < 7" using Suc.prems(2) by simp
  then have "take (Suc k) (drop n write_steps) = write_steps ! n # take k (drop (Suc n) write_steps)"
    by (simp only: Cons_nth_drop_Suc [symmetric] take_Suc_Cons list.size)
  then show ?case
    using Suc.IH [of "Suc n"] Suc.prems wstate_step [OF _ n] wstate_midway
    by (auto simp: wp_andthen wstate_calls midway_frame simp del: drop_Suc_Cons
        intro!: wp_sys_step [where P = "wstate w cs b n"] dest: wstate_midway)
qed

lemma midway_calls: "midway w cs b x \<Longrightarrow> calls x \<le> m \<Longrightarrow> midway w cs b (x\<lparr>calls := m\<rparr>)"
  by (auto simp: midway_def intro: mid_calls replaced_calls)

lemma midway_written: "wf_os w \<Longrightarrow> midway w cs b x \<Longrightarrow> written w x cs b"
  by (auto simp: midway_def intro: mid_written replaced_written [THEN conjunct1])

lemma wp_remove_temp:
  assumes "midway w cs b x" and "\<And>y. midway w cs b y \<Longrightarrow> Q () y"
    and "\<And>m y. midway w cs b y \<Longrightarrow> fault w \<noteq> (\<lambda>_. None) \<Longrightarrow> E (Exn OSError m) y"
  shows "wp (remove_temp cs (next_inode w)) Q E x"
proof -
  have "midway w cs b (unlink_effect (Temp cs (next_inode w)) y)"
    if "midway w cs b y" "names y (Temp cs (next_inode w)) \<noteq> None" for y
    using that by (auto simp: midway_def replaced_def dest: mid_unlink)
  then show ?thesis
    using assms
    by (auto simp: remove_temp_def wp_simps midway_calls midway_frame simp del: not_None_eq
        intro!: wp_sys_step [where P = "\<lambda>y. midway w cs b y \<and> names y (Temp cs (next_inode w)) \<noteq> None"])
qed

lemma remove_temp_replaced:
  "replaced w (next_inode w) cs b x \<Longrightarrow> remove_temp cs (next_inode w) x = Some (x, Inr ())"
  by (simp add: remove_temp_def prog_defs replaced_def)

definition stored :: "os \<Rightarrow> os \<Rightarrow> string list \<Rightarrow> bytes \<Rightarrow> bool" where
  "stored w w' cs payload \<longleftrightarrow> written w w' cs payload \<and> contents w' (Path cs) = Some payload \<and>
     (\<forall>c. survives w' (Path cs) c \<longleftrightarrow> c = Some payload)"

lemma wstate_stored:
  assumes "wf_os w" and "wstate w cs b 7 x"
  shows "stored w x cs b"
proof -
  have x: "replaced w (next_inode w) cs b x" "saved x (Path cs) = [Some (next_inode w)]"
    using assms(2) by (simp_all add: wstate_def)
  show ?thesis
    using replaced_written [OF assms(1) refl x(1)] replaced_synced [OF x] by (simp add: stored_def)
qed

lemma write_steps_parts:
  "take 1 (drop 0 write_steps) = [Create]"
  "take 3 (drop 1 write_steps) = [Write, Flush, Fsync]"
  "take 2 (drop 4 write_steps) = [Replace, OpenDir]"
  "take 1 (drop 6 write_steps) = [FsyncDir]"
  by (simp_all add: eval_nat_numeral)

text \<open>An error of a call within the \<open>try\<close>.\<close>

definition cut_short :: "os \<Rightarrow> string list \<Rightarrow> bytes \<Rightarrow> exn \<Rightarrow> os \<Rightarrow> bool" where
  "cut_short w cs b e x \<longleftrightarrow> midway w cs b x \<and> class_of e = OSError \<and> fault w \<noteq> (\<lambda>_. None)"

text \<open>A part of the steps with a handle that is closed after it.\<close>

lemma wp_steps_close:
  assumes "wstate w cs b n x" and "n + k \<le> 7"
  shows "wp (try_finally (run_wsteps cs b (next_inode w) (take k (drop n write_steps))) (sys id))
    (\<lambda>_. wstate w cs b (n + k)) (cut_short w cs b) x"
  unfolding wp_try_finally
proof (rule wp_write_steps [OF assms], goal_cases)
  case (1 y)
  then show ?case
    by (intro wp_sys_step [where P = "wstate w cs b (n + k)"])
      (auto simp: cut_short_def wstate_calls midway_frame dest: wstate_midway)
next
  case (2 m y)
  then show ?case
    by (intro wp_sys_step [where P = "midway w cs b"]) (auto simp: cut_short_def midway_calls)
qed

abbreviation replace_file :: "string list \<Rightarrow> bytes \<Rightarrow> nat \<Rightarrow> (os, unit) prog" where
  "replace_file cs b i \<equiv>
    andthen (run_wsteps cs b i [Create]) (\<lambda>_.
    andthen (try_finally (run_wsteps cs b i [Write, Flush, Fsync]) (sys id)) (\<lambda>_.
    andthen (run_wsteps cs b i [Replace, OpenDir]) (\<lambda>_.
    try_finally (run_wsteps cs b i [FsyncDir]) (sys id))))"

lemma wp_write_replace:
  assumes "wstate w cs b 0 x"
  shows "wp (replace_file cs b (next_inode w)) (\<lambda>_. wstate w cs b 7) (cut_short w cs b) x"
proof -
  have last: "wp (try_finally (run_wsteps cs b (next_inode w) [FsyncDir]) (sys id)) (\<lambda>_. wstate w cs b 7) (cut_short w cs b) y"
    if "wstate w cs b 6 y" for y
    using wp_steps_close [OF that, of 1, unfolded write_steps_parts] by simp
  have mid: "wp (run_wsteps cs b (next_inode w) [Replace, OpenDir]) (\<lambda>_. wstate w cs b 6) (cut_short w cs b) y"
    if "wstate w cs b 4 y" for y
    by (rule wp_write_steps [OF that, of 2, unfolded write_steps_parts]) (simp_all add: cut_short_def)
  have body: "wp (try_finally (run_wsteps cs b (next_inode w) [Write, Flush, Fsync]) (sys id)) (\<lambda>_. wstate w cs b 4)
      (cut_short w cs b) y" if "wstate w cs b 1 y" for y
    using wp_steps_close [OF that, of 3, unfolded write_steps_parts] by simp
  have first: "wp (run_wsteps cs b (next_inode w) [Create]) (\<lambda>_. wstate w cs b 1) (cut_short w cs b) x"
    by (rule wp_write_steps [OF assms, of 1, unfolded write_steps_parts]) (simp_all add: cut_short_def)
  show ?thesis
    unfolding wp_andthen
    by (rule wp_mono [OF first], rule wp_mono [OF body], assumption, rule wp_mono [OF mid], assumption)
      (simp_all add: last del: run_wsteps.simps)
qed

lemma wp_atomic_bytes:
  assumes "wf_os w"
  shows "wp (atomic_bytes cs b) (\<lambda>_ x. stored w x cs b)
    (\<lambda>e x. written w x cs b \<and> class_of e \<in> {JournalError, OSError} \<and> fault w \<noteq> (\<lambda>_. None)) w"
proof -
  let ?i = "next_inode w"
  let ?Q = "\<lambda>_::unit. \<lambda>x. stored w x cs b"
  let ?E = "\<lambda>e x. written w x cs b \<and> class_of e \<in> {JournalError, OSError} \<and> fault w \<noteq> (\<lambda>_. None)"
  have body: "wp (try_finally (try_except OSError (replace_file cs b ?i)
      (\<lambda>exc. raise (Exn JournalError (''atomic write failed for '' @ path_str cs @ '': '' @ message exc))))
      (remove_temp cs ?i)) ?Q ?E x" if "wstate w cs b 0 x" for x
    unfolding wp_try_finally wp_try_except
  proof (rule wp_mono [OF wp_write_replace [OF that]], goal_cases)
    case (1 a y)
    then have "replaced w ?i cs b y" by (simp add: wstate_def)
    then show ?case using wstate_stored [OF assms 1] by (simp add: wp_def remove_temp_replaced)
  next
    case (2 e y)
    then have "isinstance e OSError" by (cases e) (simp add: cut_short_def isinstance_simps)
    then show ?case using 2 unfolding cut_short_def
      by (auto simp: wp_raise midway_written [OF assms] intro!: wp_remove_temp [where b = b])
  qed
  show ?thesis
    unfolding atomic_bytes_def wp_andthen wp_gets
  proof (rule wp_sys_step [where P = "wstate w cs b 0"], goal_cases)
    case 1
    then show ?case using assms by (simp add: wstate_def mid_def wf_os_def)
  next
    case (2 n)
    then show ?case by (rule wstate_calls [rotated])
  next
    case (3 x)
    then have "next_inode x = next_inode w" by (simp add: wstate_def)
    then show ?case using body [OF 3] by simp
  next
    case (4 m x)
    then show ?case
      using midway_frame [OF wstate_midway [OF 4(1)]] by (simp add: midway_written [OF assms] wstate_midway)
  qed
qed

lemma returns_run_wsteps [simp]: "returns (run_wsteps cs b i ss) w"
  by (induction ss arbitrary: w) (simp_all add: returns_andthen)

lemma returns_atomic_bytes [simp]: "returns (atomic_bytes cs b) w"
  by (auto simp: atomic_bytes_def remove_temp_def simp del: run_wsteps.simps
      intro!: returns_andthen returns_try_finally returns_try_except)

text \<open>A machine with no files, for concrete runs: calls fail as \<open>f\<close> says.\<close>

definition fresh_os :: "(nat \<Rightarrow> string option) \<Rightarrow> os" where
  "fresh_os f = \<lparr>inodes = (\<lambda>_. \<lparr>cache = [], disk = None\<rparr>), names = (\<lambda>_. None), saved = (\<lambda>_. [None]),
     next_inode = 0, calls = 0, fault = f, clock = (\<lambda>n. ''2025-01-01T00:00:'' @ dec_nat n),
     fresh_uuid = (\<lambda>_. Abs_uuid (replicate 16 0))\<rparr>"

lemma wf_fresh_os [simp]: "wf_os (fresh_os f)"
  by (simp add: wf_os_def fresh_os_def)

lemma fault_fresh_os [simp]: "fault (fresh_os f) = f"
  by (simp add: fresh_os_def)

section \<open>Properties\<close>

text \<open>
  C10. \<open>_atomic_bytes\<close> is all or nothing, whatever calls fail. It always comes back; the path then
  has its old contents or the new ones, no other path changes, and after a power loss the path has
  contents it could have had before the call or the complete payload, never part of it. When it
  returns normally the payload is there and is the only thing a power loss can leave; when it
  raises, the exception is a \<open>JournalError\<close> or, from the calls outside the \<open>try\<close>, an \<open>OSError\<close>, and
  some call has failed. (A power loss before call \<open>n\<close> is the run in which call \<open>n\<close> and all later
  ones fail: failed calls change nothing, so its final state is the state at the power loss.)
\<close>

theorem atomic_write_all_or_nothing:
  assumes "wf_os w"
  shows "\<exists>x r. atomic_bytes cs payload w = Some (x, r) \<and> wf_os x \<and>
    contents x (Path cs) \<in> {contents w (Path cs), Some payload} \<and>
    (\<forall>c. survives x (Path cs) c \<longrightarrow> survives w (Path cs) c \<or> c = Some payload) \<and>
    (\<forall>ds. ds \<noteq> cs \<longrightarrow> contents x (Path ds) = contents w (Path ds) \<and>
      (\<forall>c. survives x (Path ds) c \<longrightarrow> survives w (Path ds) c)) \<and>
    (case r of
       Inr _ \<Rightarrow> contents x (Path cs) = Some payload \<and> (\<forall>c. survives x (Path cs) c \<longleftrightarrow> c = Some payload)
     | Inl e \<Rightarrow> class_of e \<in> {JournalError, OSError} \<and> (\<exists>n. fault w n \<noteq> None))"
proof -
  obtain x r where run: "atomic_bytes cs payload w = Some (x, r)"
    using returns_atomic_bytes [of cs payload w] by (auto simp: returns_def)
  show ?thesis
    using wp_atomic_bytes [OF assms, of cs payload] run
    by (cases r) (auto simp: wp_def stored_def written_def)
qed

lemma atomic_write_all_or_nothing_witness:
  "(\<exists>x r. atomic_bytes [''j''] [1, 2] (fresh_os (\<lambda>n. if n = 5 then Some ''no space'' else None)) = Some (x, r) \<and>
     contents x (Path [''j'']) \<in> {None, Some [1, 2]} \<and> \<not> survives x (Path [''j'']) (Some [1])) \<and>
   (\<exists>x. atomic_bytes [''j''] [1, 2] (fresh_os (\<lambda>n. None)) = Some (x, Inr ()) \<and>
     contents x (Path [''j'']) = Some [1, 2] \<and> \<not> survives x (Path [''j'']) None)"
  (is "?failing \<and> ?quiet")
proof
  have "\<not> survives (fresh_os f) (Path [''j'']) (Some [1])" "contents (fresh_os f) (Path [''j'']) = None" for f
    by (simp_all add: survives_def contents_def fresh_os_def)
  then show ?failing
    using atomic_write_all_or_nothing [OF wf_fresh_os, of "[''j'']" "[1, 2]"] by fastforce
  obtain x r where "atomic_bytes [''j''] [1, 2] (fresh_os (\<lambda>n. None)) = Some (x, r)"
      "case r of Inr _ \<Rightarrow> contents x (Path [''j'']) = Some [1, 2] \<and>
          (\<forall>c. survives x (Path [''j'']) c \<longleftrightarrow> c = Some [1, 2]) | Inl _ \<Rightarrow> False"
    using atomic_write_all_or_nothing [OF wf_fresh_os, of "[''j'']" "[1, 2]" "\<lambda>n. None"]
    by (auto cong: sum.case_cong)
  then show ?quiet by (cases r) (auto simp: unit_eq)
qed

end
