(* ===== verification/Journal.thy ===== *)
theory Journal
  imports Journal_Record Fsys Pokemon
begin

text \<open>
  \<open>JournalStore\<close> of \<open>broker/journal.py\<close>. A store is its path (a list of components); its
  operations are programs over the operating system. \<open>transition\<close> changes the caller's record in
  place before it writes, so it runs on the pair of that record and the system, and a write that
  fails leaves the record changed.
\<close>

section \<open>Operations\<close>

definition on_os :: "(os, 'a) prog \<Rightarrow> (journal_record \<times> os, 'a) prog" where
  "on_os m = zoom snd (\<lambda>w (r, _). (r, w)) m"

definition with_record :: "journal_record \<Rightarrow> (journal_record \<times> os, 'a) prog \<Rightarrow> (os, 'a) prog" where
  "with_record r m = (\<lambda>w. map_option (\<lambda>((r', w'), x). (w', x)) (m (r, w)))"

definition checked :: "(exn + 'a) option \<Rightarrow> ('w, 'a) prog" where
  "checked x = (\<lambda>w. map_option (Pair w) x)"

definition store_exists :: "string list \<Rightarrow> (os, bool) prog" where
  "store_exists path = path_exists (Path path)"

definition load :: "string list \<Rightarrow> (os, journal_record) prog" where
  "load path =
    andthen (try_except OSError (read_bytes (Path path))
      (\<lambda>exc. raise (Exn JournalError (''cannot read journal '' @ path_str path @ '': '' @ message exc))))
    (\<lambda>bs. checked (parse_journal (path_str path) bs))"

definition write_record :: "string list \<Rightarrow> (journal_record \<times> os, unit) prog" where
  "write_record path = andthen (gets fst) (\<lambda>r. on_os (atomic_bytes path (journal_bytes r)))"

definition artifact_labels :: "string set" where
  "artifact_labels = {''A'', ''B'', ''P'', ''P_RETURNED''}"

definition artifact_path :: "string list \<Rightarrow> string \<Rightarrow> string \<Rightarrow> pokemon100 \<Rightarrow> string list" where
  "artifact_path path txid label mon =
    butlast path @ [''artifacts'', txid, label @ ''-'' @ sha256 mon @ ''.pk3'']"

definition save_artifact ::
    "string list \<Rightarrow> journal_record \<Rightarrow> string \<Rightarrow> pokemon100 \<Rightarrow> (os, string list) prog" where
  "save_artifact path r label mon = (
    if label \<notin> artifact_labels then raise (Exn JournalError (''invalid artifact label '' @ label))
    else
      andthen (sys id) (\<lambda>_.
      andthen (atomic_bytes (artifact_path path (tx_id r) label mon) (raw mon)) (\<lambda>_.
      ret (artifact_path path (tx_id r) label mon))))"

text \<open>The arguments of \<open>transition\<close>; an absent dictionary and an empty one are the same to the code.\<close>

record change =
  ch_note :: string
  new_hashes :: "(string \<times> string option) list"
  new_locations :: "(string \<times> string) list"
  new_slot :: "int option"
  new_error :: "string option"

definition noted :: "string \<Rightarrow> change" where
  "noted n = \<lparr>ch_note = n, new_hashes = [], new_locations = [], new_slot = None, new_error = None\<rparr>"

fun check_hashes :: "(string \<times> string option) list \<Rightarrow> (string \<times> string option) list \<Rightarrow> exn + unit" where
  "check_hashes hs [] = Inr ()"
| "check_hashes hs ((k, v) # us) = (case map_of hs k of
      None \<Rightarrow> Inl (Exn JournalError (''unknown '' @ accented @ '' label '' @ k))
    | Some previous \<Rightarrow>
        if previous \<noteq> None \<and> v \<noteq> previous then Inl (Exn JournalError (''hash for '' @ k @ '' is immutable''))
        else check_hashes hs us)"

definition transition_check :: "journal_record \<Rightarrow> journal_state \<Rightarrow> change \<Rightarrow> exn + unit" where
  "transition_check r new ch = (case state_enum r of
      Inl e \<Rightarrow> Inl e
    | Inr current \<Rightarrow>
        if new \<noteq> RECOVERY_REQUIRED \<and> next_state current \<noteq> Some new then
          Inl (Exn InvalidTransition
            (''cannot transition '' @ state_value current @ '' -> '' @ state_value new))
        else if current \<in> terminal_states then
          Inl (Exn InvalidTransition
            (''terminal journal state '' @ state_value current @ '' cannot transition''))
        else (case check_hashes (hashes r) (new_hashes ch) of
          Inl e \<Rightarrow> Inl e
        | Inr _ \<Rightarrow>
            if new_slot ch \<noteq> None \<and> \<not> (0 \<le> the (new_slot ch) \<and> the (new_slot ch) \<le> 5) then
              Inl (Exn JournalError ''GBA selected slot must be 0..5'')
            else Inr ()))"

text \<open>\<open>d.update(new)\<close>\<close>

definition dict_update :: "('k \<times> 'v) list \<Rightarrow> ('k \<times> 'v) list \<Rightarrow> ('k \<times> 'v) list" where
  "dict_update d new = fold (\<lambda>(k, v). AList.update k v) new d"

definition advance :: "journal_state \<Rightarrow> change \<Rightarrow> string \<Rightarrow> journal_record \<Rightarrow> journal_record" where
  "advance new ch at r = r\<lparr>
     jseq := jseq r + 1,
     jstate := state_value new,
     updated_at := at,
     hashes := dict_update (hashes r) (new_hashes ch),
     locations := dict_update (locations r) (new_locations ch),
     gba_slot := (if new_slot ch \<noteq> None then new_slot ch else gba_slot r),
     last_error := new_error ch,
     history := history r @ [\<lparr>entry_seq = jseq r + 1, entry_state = state_value new, entry_at = at,
       entry_note = ch_note ch\<rparr>]\<rparr>"

definition transition ::
    "string list \<Rightarrow> journal_state \<Rightarrow> change \<Rightarrow> (journal_record \<times> os, unit) prog" where
  "transition path new ch =
    andthen (gets fst) (\<lambda>r.
    andthen (lift (transition_check r new ch)) (\<lambda>_.
    andthen (on_os now) (\<lambda>at.
    andthen (modify (map_prod (advance new ch at) id)) (\<lambda>_.
    write_record path))))"

definition new_record :: "string \<Rightarrow> uuid \<Rightarrow> pokemon100 \<Rightarrow> journal_record" where
  "new_record at txid placeholder = \<lparr>
     schema_version = 1,
     tx_id = uuid_str txid,
     jstate = state_value IDLE,
     jseq = 0,
     created_at = at,
     updated_at = at,
     hashes = [(''A'', None), (''B'', None), (''P'', Some (sha256 placeholder))],
     locations = [(''A'', ''gba (unobserved)''), (''B'', ''switch (unobserved)''), (''P'', ''broker'')],
     gba_slot = None,
     last_error = None,
     history = [\<lparr>entry_seq = 0, entry_state = state_value IDLE, entry_at = at,
       entry_note = ''transaction created''\<rparr>]\<rparr>"

definition create :: "string list \<Rightarrow> pokemon100 \<Rightarrow> (os, journal_record) prog" where
  "create path placeholder =
    andthen (store_exists path) (\<lambda>there.
    andthen (if there
        then andthen (load path) (\<lambda>old. raise (Exn RecoveryRequired
          (''journal already exists in '' @ jstate old @ ''; archive it before a new transaction'')))
        else ret ()) (\<lambda>_.
    andthen now (\<lambda>at.
    andthen uuid4 (\<lambda>txid.
    andthen (save_artifact path (new_record at txid placeholder) ''P'' placeholder) (\<lambda>_.
    andthen (atomic_bytes path (journal_bytes (new_record at txid placeholder))) (\<lambda>_.
    ret (new_record at txid placeholder)))))))"

definition restart_change :: "journal_record \<Rightarrow> change" where
  "restart_change r = (noted ''incomplete transaction detected on process start'')
     \<lparr>new_error := Some (''restart detected while journal was '' @ jstate r)\<rparr>"

definition require_new_transaction :: "string list \<Rightarrow> (os, unit) prog" where
  "require_new_transaction path =
    andthen (store_exists path) (\<lambda>there.
    if \<not> there then ret ()
    else
      andthen (load path) (\<lambda>r.
      andthen (lift (state_enum r)) (\<lambda>s.
      andthen (if s \<notin> terminal_states
          then with_record r (transition path RECOVERY_REQUIRED (restart_change r))
          else ret ()) (\<lambda>_.
      andthen (load path) (\<lambda>now.
      raise (Exn RecoveryRequired (''journal '' @ path_str path @ '' is '' @ jstate now @
        ''; archive it before starting again''))))))) "

section \<open>Rules\<close>

lemma wp_on_os [wp_simps]: "wp (on_os m) Q E (r, w) \<longleftrightarrow> wp m (\<lambda>a x. Q a (r, x)) (\<lambda>e x. E e (r, x)) w"
  by (simp add: on_os_def wp_zoom)

lemma wp_with_record [wp_simps]:
  "wp (with_record r m) Q E w \<longleftrightarrow> wp m (\<lambda>a x. Q a (snd x)) (\<lambda>e x. E e (snd x)) (r, w)"
  by (auto simp: wp_def with_record_def split: option.splits sum.splits)

lemma wp_checked [wp_simps]:
  "wp (checked x) Q E w \<longleftrightarrow> (case x of None \<Rightarrow> True | Some (Inl e) \<Rightarrow> E e w | Some (Inr a) \<Rightarrow> Q a w)"
  by (auto simp: wp_def checked_def split: option.splits sum.splits)

lemma stored_calls: "stored (w\<lparr>calls := n\<rparr>) x cs b \<Longrightarrow> calls w \<le> n \<Longrightarrow> stored w x cs b"
  by (simp add: stored_def written_def frame_os_def)

lemma written_calls: "written (w\<lparr>calls := n\<rparr>) x cs b \<Longrightarrow> calls w \<le> n \<Longrightarrow> written w x cs b"
  by (simp add: written_def frame_os_def)

lemma wp_atomic_bytes_I:
  assumes "wf_os w"
    and "\<And>x. stored w x cs b \<Longrightarrow> Q () x"
    and "\<And>e x. written w x cs b \<Longrightarrow> class_of e \<in> {JournalError, OSError} \<Longrightarrow> fault w \<noteq> (\<lambda>_. None) \<Longrightarrow> E e x"
  shows "wp (atomic_bytes cs b) Q E w"
  by (rule wp_mono [OF wp_atomic_bytes [OF assms(1)]]) (use assms(2,3) in auto)

lemma transition_rejected:
  "transition_check r new ch = Inl e \<Longrightarrow> transition path new ch (r, w) = Some ((r, w), Inl e)"
  by (simp add: transition_def prog_defs)

lemma wp_transition:
  assumes "wf_os w"
    and "\<And>e. transition_check r new ch = Inl e \<Longrightarrow> E e (r, w)"
    and "\<And>x r'. transition_check r new ch = Inr () \<Longrightarrow> r' = advance new ch (clock w (calls w)) r \<Longrightarrow>
      stored w x path (journal_bytes r') \<Longrightarrow> Q () (r', x)"
    and "\<And>e x r'. transition_check r new ch = Inr () \<Longrightarrow> r' = advance new ch (clock w (calls w)) r \<Longrightarrow>
      written w x path (journal_bytes r') \<Longrightarrow> class_of e \<in> {JournalError, OSError} \<Longrightarrow>
      fault w \<noteq> (\<lambda>_. None) \<Longrightarrow> E e (r', x)"
  shows "wp (transition path new ch) Q E (r, w)"
proof (cases "transition_check r new ch")
  case (Inl e)
  then show ?thesis using assms(2) by (simp add: wp_def transition_rejected)
next
  case (Inr u)
  then have ok: "transition_check r new ch = Inr ()" by simp
  show ?thesis
    unfolding transition_def wp_andthen wp_gets wp_lift fst_conv ok sum.case wp_on_os wp_now wp_modify
      write_record_def map_prod_simp id_apply
    by (rule wp_atomic_bytes_I)
      (use assms(1) assms(3,4) [OF ok refl] in \<open>auto dest: stored_calls written_calls\<close>)
qed

lemma returns_on_os [simp]: "returns (on_os m) (r, w) = returns m w"
  by (auto simp: returns_def on_os_def zoom_def split: option.splits)

lemma returns_transition [simp]: "returns (transition path new ch) (r, w)"
  by (auto simp: transition_def write_record_def intro!: returns_andthen)

section \<open>When a transition is accepted\<close>

lemma check_hashes_ok: "check_hashes hs us = Inr () \<longleftrightarrow>
    (\<forall>(k, v) \<in> set us. \<exists>old. map_of hs k = Some old \<and> (old = None \<or> v = old))"
  by (induction us) (auto split: option.splits if_splits)

definition slot_ok :: "int option \<Rightarrow> bool" where
  "slot_ok slot \<longleftrightarrow> (case slot of None \<Rightarrow> True | Some n \<Rightarrow> 0 \<le> n \<and> n \<le> 5)"

lemma transition_check_ok:
  "transition_check r new ch = Inr () \<longleftrightarrow>
    (\<exists>s. jstate r = state_value s \<and> moves s new) \<and>
    check_hashes (hashes r) (new_hashes ch) = Inr () \<and> slot_ok (new_slot ch)"
proof (cases "state_of_value (jstate r)")
  case None
  then show ?thesis by (auto simp: transition_check_def state_enum_def)
next
  case (Some s)
  then have v: "jstate r = state_value s" by (rule state_value_of)
  have "(new \<noteq> RECOVERY_REQUIRED \<and> next_state s \<noteq> Some new \<or> s \<in> terminal_states) = (\<not> moves s new)"
    by (cases s) (auto simp: moves_simps terminal_states_def)
  then show ?thesis
    by (auto simp: transition_check_def state_enum_def v slot_ok_def split: sum.splits option.splits)
qed

lemma transition_check_errors:
  "transition_check r new ch = Inl e \<Longrightarrow> class_of e \<in> {ValueError, InvalidTransition, JournalError}"
proof -
  have "class_of e = JournalError" if "check_hashes hs us = Inl e" for hs us
    using that by (induction us) (auto split: option.splits if_splits)
  then show "transition_check r new ch = Inl e \<Longrightarrow> class_of e \<in> {ValueError, InvalidTransition, JournalError}"
    by (auto simp: transition_check_def state_enum_def split: option.splits if_splits sum.splits)
qed

section \<open>Well-formed records\<close>

text \<open>
  The history of a record is a walk through the graph from \<open>IDLE\<close>, numbered from 0, and the other
  fields agree with its first and last entries. \<open>grows r r'\<close> says that \<open>r'\<close> is a later version of
  \<open>r\<close>: entries are only added to the history, and a hash, once captured, stays.
\<close>

definition wf_record :: "journal_record \<Rightarrow> bool" where
  "wf_record r \<longleftrightarrow> schema_version r = 1 \<and> uuid_text_ok (tx_id r) \<and>
     (\<exists>ss. ss \<noteq> [] \<and> hd ss = IDLE \<and> successively moves ss \<and>
       map entry_state (history r) = map state_value ss \<and> jstate r = state_value (last ss)) \<and>
     map entry_seq (history r) = map int [0..<length (history r)] \<and>
     jseq r = int (length (history r)) - 1 \<and>
     entry_at (hd (history r)) = created_at r \<and> entry_at (last (history r)) = updated_at r \<and>
     map fst (hashes r) = [''A'', ''B'', ''P''] \<and> distinct (map fst (locations r)) \<and>
     slot_ok (gba_slot r)"

definition grows :: "journal_record \<Rightarrow> journal_record \<Rightarrow> bool" where
  "grows r r' \<longleftrightarrow> schema_version r' = schema_version r \<and> tx_id r' = tx_id r \<and>
     created_at r' = created_at r \<and> (\<exists>es. history r' = history r @ es) \<and>
     (\<forall>k h. map_of (hashes r) k = Some (Some h) \<longrightarrow> map_of (hashes r') k = Some (Some h))"

lemma grows_refl [simp]: "grows r r"
  by (simp add: grows_def)

lemma grows_trans: "grows r s \<Longrightarrow> grows s t \<Longrightarrow> grows r t"
  by (auto simp: grows_def)

lemma dict_update_keys:
  assumes "fst ` set us \<subseteq> set (map fst d)"
  shows "map fst (dict_update d us) = map fst d"
  using assms
proof (induction us arbitrary: d)
  case (Cons u us)
  obtain a v where u: "u = (a, v)" by (cases u)
  have same: "map fst (AList.update a v d) = map fst d"
    using Cons.prems u by (simp add: update_keys)
  have "map fst (dict_update (AList.update a v d) us) = map fst (AList.update a v d)"
    by (rule Cons.IH) (use Cons.prems in \<open>simp only: same\<close>, auto)
  then show ?case using u same by (simp add: dict_update_def)
qed (simp add: dict_update_def)

lemma dict_update_distinct: "distinct (map fst d) \<Longrightarrow> distinct (map fst (dict_update d us))"
proof (induction us arbitrary: d)
  case (Cons u us)
  then show ?case by (cases u) (simp add: dict_update_def distinct_update)
qed (simp add: dict_update_def)

lemma dict_update_keeps:
  assumes "\<And>v. (k, v) \<in> set us \<Longrightarrow> v = x" and "map_of d k = Some x"
  shows "map_of (dict_update d us) k = Some x"
  using assms
proof (induction us arbitrary: d)
  case (Cons u us)
  obtain a v where u: "u = (a, v)" by (cases u)
  have "map_of (AList.update a v d) k = Some x"
    using Cons.prems(1) [of v] Cons.prems(2) u by (simp add: update_conv')
  then show ?case
    using Cons.IH [of "AList.update a v d"] Cons.prems(1) u by (simp add: dict_update_def)
qed (simp add: dict_update_def)

lemma advance_grows:
  assumes "transition_check r new ch = Inr ()"
  shows "grows r (advance new ch at r)"
proof -
  have "map_of (dict_update (hashes r) (new_hashes ch)) k = Some (Some h)"
    if "map_of (hashes r) k = Some (Some h)" for k h
    using assms that by (intro dict_update_keeps) (auto simp: transition_check_ok check_hashes_ok)
  then show ?thesis by (simp add: grows_def advance_def)
qed

lemma successively_snoc:
  "successively P (xs @ [x]) \<longleftrightarrow> successively P xs \<and> (xs \<noteq> [] \<longrightarrow> P (last xs) x)"
  by (auto simp: successively_append_iff)

lemma advance_wf:
  assumes "wf_record r" and "transition_check r new ch = Inr ()"
  shows "wf_record (advance new ch at r)"
proof -
  obtain ss where ss: "ss \<noteq> []" "hd ss = IDLE" "successively moves ss"
      "map entry_state (history r) = map state_value ss" "jstate r = state_value (last ss)"
    using assms(1) by (auto simp: wf_record_def)
  have nonempty: "history r \<noteq> []" using ss(1,4) by auto
  have "moves (last ss) new" using assms(2) ss(5) by (auto simp: transition_check_ok)
  then have "\<exists>ss. ss \<noteq> [] \<and> hd ss = IDLE \<and> successively moves ss \<and>
      map entry_state (history (advance new ch at r)) = map state_value ss \<and>
      jstate (advance new ch at r) = state_value (last ss)"
    using ss by (intro exI [of _ "ss @ [new]"]) (simp add: advance_def successively_snoc)
  moreover have "map fst (dict_update (hashes r) (new_hashes ch)) = [''A'', ''B'', ''P'']"
  proof -
    have "fst ` set (new_hashes ch) \<subseteq> set (map fst (hashes r))"
      using assms(2) by (force simp: transition_check_ok check_hashes_ok dest: map_of_SomeD)
    then show ?thesis using assms(1) by (simp only: dict_update_keys wf_record_def)
  qed
  moreover have "slot_ok (gba_slot (advance new ch at r))"
    using assms by (simp add: advance_def transition_check_ok wf_record_def)
  ultimately show ?thesis
    using assms(1) nonempty by (simp add: wf_record_def advance_def dict_update_distinct)
qed

lemma wf_new_record: "wf_record (new_record at u p)"
  unfolding wf_record_def
  by (intro conjI exI [of _ "[IDLE]"]) (simp_all add: new_record_def uuid_str_parses slot_ok_def)

lemma wf_record_readable: "wf_record r \<Longrightarrow> readable r"
proof -
  assume r: "wf_record r"
  then have "history r \<noteq> []" "\<exists>s. state_of_value (jstate r) = Some s"
    by (auto simp: wf_record_def)
  then show ?thesis using r by (cases "history r") (auto simp: wf_record_def readable_def)
qed

lemma new_record_tx: "tx_id (new_record at u p) = uuid_str u"
  by (simp add: new_record_def)

section \<open>Reading\<close>

lemma wp_store_exists:
  assumes "\<And>n. calls w \<le> n \<Longrightarrow> Q (names w (Path path) \<noteq> None) (w\<lparr>calls := n\<rparr>)"
    and "\<And>m n. calls w \<le> n \<Longrightarrow> fault w \<noteq> (\<lambda>_. None) \<Longrightarrow> E (Exn OSError m) (w\<lparr>calls := n\<rparr>)"
  shows "wp (store_exists path) Q E w"
  unfolding store_exists_def path_exists_def wp_andthen
  by (rule wp_sys_id) (use assms in \<open>simp_all add: wp_gets\<close>)

lemma wp_load:
  assumes "\<And>n b r. calls w \<le> n \<Longrightarrow> contents w (Path path) = Some b \<Longrightarrow>
      parse_journal (path_str path) b = Some (Inr r) \<Longrightarrow> Q r (w\<lparr>calls := n\<rparr>)"
    and "\<And>n b e. calls w \<le> n \<Longrightarrow> contents w (Path path) = Some b \<Longrightarrow>
      parse_journal (path_str path) b = Some (Inl e) \<Longrightarrow> E e (w\<lparr>calls := n\<rparr>)"
    and "\<And>m n. calls w \<le> n \<Longrightarrow> contents w (Path path) = None \<or> fault w \<noteq> (\<lambda>_. None) \<Longrightarrow>
      E (Exn JournalError m) (w\<lparr>calls := n\<rparr>)"
  shows "wp (load path) Q E w"
  unfolding load_def read_bytes_def wp_andthen wp_try_except
  by (rule wp_sys_id) (auto simp: wp_simps assms split: option.split sum.split)

lemma wf_os_contents: "contents w p = None \<longleftrightarrow> names w p = None"
  by (simp add: contents_def)

lemma sorted_dicts_wf:
  assumes "wf_record r"
  shows "wf_record (sorted_dicts r) \<and> hashes (sorted_dicts r) = hashes r \<and>
    map_of (locations (sorted_dicts r)) = map_of (locations r)"
proof -
  have "sorted (map fst (hashes r))" using assms by (simp add: wf_record_def)
  then have "hashes (sorted_dicts r) = hashes r" by (simp add: sorted_dicts_def sort_key_id_if_sorted)
  moreover have "map_of (locations (sorted_dicts r)) = map_of (locations r)"
    using assms by (simp add: sorted_dicts_def map_of_sort_key wf_record_def)
  moreover have "distinct (map fst (locations (sorted_dicts r)))"
    using assms by (auto simp: sorted_dicts_def wf_record_def intro: mset_eq_imp_distinct_iff [THEN iffD1, rotated])
  ultimately show ?thesis using assms by (simp add: wf_record_def) (simp add: sorted_dicts_def)
qed

section \<open>Clients that change a record again and again\<close>

definition journal_inv :: "string list \<Rightarrow> journal_record \<Rightarrow> journal_record \<times> os \<Rightarrow> bool" where
  "journal_inv path r0 = (\<lambda>(r, w). wf_os w \<and> wf_record r \<and> grows r0 r \<and>
     (\<exists>d. wf_record d \<and> grows r0 d \<and> grows d r \<and> contents w (Path path) = Some (journal_bytes d)) \<and>
     (\<forall>c. survives w (Path path) c \<longrightarrow>
       (\<exists>d. wf_record d \<and> grows r0 d \<and> grows d r \<and> c = Some (journal_bytes d))))"

text \<open>Transitions attempted one after the other, going on after a failure.\<close>

fun attempts :: "string list \<Rightarrow> (journal_state \<times> change) list \<Rightarrow> (journal_record \<times> os, unit) prog" where
  "attempts path [] = ret ()"
| "attempts path ((new, ch) # cs) =
    andthen (try_except Exception (transition path new ch) (\<lambda>_. ret ())) (\<lambda>_. attempts path cs)"

lemma journal_inv_advance:
  assumes "journal_inv path r0 (r, w)" and "transition_check r new ch = Inr ()"
    and "r' = advance new ch at r" and "written w x path (journal_bytes r')"
  shows "journal_inv path r0 (r', x)"
proof -
  have r: "wf_record r'" "grows r r'"
    using assms by (auto simp: journal_inv_def advance_wf advance_grows)
  have "\<exists>d. wf_record d \<and> grows r0 d \<and> grows d r' \<and> c = Some (journal_bytes d)"
    if "c = Some (journal_bytes r') \<or>
      (\<exists>d. wf_record d \<and> grows r0 d \<and> grows d r \<and> c = Some (journal_bytes d))" for c
    using that assms(1) r by (auto simp: journal_inv_def intro: grows_trans)
  then show ?thesis
    using assms r unfolding journal_inv_def written_def by (auto intro: grows_trans) metis+
qed

lemma transition_keeps_inv:
  assumes "journal_inv path r0 (r, w)"
  shows "wp (transition path new ch) (\<lambda>_. journal_inv path r0) (\<lambda>_. journal_inv path r0) (r, w)"
proof (rule wp_transition)
  show "wf_os w" using assms by (simp add: journal_inv_def)
qed (use assms journal_inv_advance [OF assms] in \<open>simp_all add: stored_def\<close>)

lemma attempts_keep_inv:
  "journal_inv path r0 s \<Longrightarrow> wp (attempts path cs) (\<lambda>_. journal_inv path r0) (\<lambda>_. journal_inv path r0) s"
proof (induction cs arbitrary: s)
  case Nil
  then show ?case by (simp add: wp_ret)
next
  case (Cons c cs)
  obtain new ch r w where c: "c = (new, ch)" "s = (r, w)" by (cases c; cases s)
  show ?case
    unfolding c attempts.simps wp_andthen wp_try_except wp_ret
    by (rule wp_mono [OF transition_keeps_inv]) (use Cons c in auto)
qed

lemma returns_attempts: "returns (attempts path cs) s"
proof (induction cs arbitrary: s)
  case (Cons c cs)
  then show ?case
    by (cases c; cases s) (auto intro!: returns_andthen returns_try_except)
qed simp

section \<open>Files that survive\<close>

definition durable :: "os \<Rightarrow> string list \<Rightarrow> bytes \<Rightarrow> bool" where
  "durable w cs b \<longleftrightarrow> contents w (Path cs) = Some b \<and> (\<forall>c. survives w (Path cs) c \<longrightarrow> c = Some b)"

lemma durable_calls [simp]: "durable (w\<lparr>calls := n\<rparr>) cs b = durable w cs b"
  by (simp add: durable_def)

lemma stored_durable: "stored w x cs b \<Longrightarrow> durable x cs b"
  by (simp add: stored_def durable_def)

lemma written_keeps_durable: "written w x cs b \<Longrightarrow> ds \<noteq> cs \<Longrightarrow> durable w ds d \<Longrightarrow> durable x ds d"
  by (auto simp: written_def durable_def)

lemma stored_written: "stored w x cs b \<Longrightarrow> written w x cs b"
  by (simp add: stored_def)

lemma written_refl: "wf_os w \<Longrightarrow> calls w \<le> n \<Longrightarrow> written w (w\<lparr>calls := n\<rparr>) cs b"
  by (simp add: written_def frame_os_def)

lemma written_fixed:
  "written w x cs b \<Longrightarrow> wf_os x" "written w x cs b \<Longrightarrow> fault x = fault w"
  "written w x cs b \<Longrightarrow> clock x = clock w"
  by (simp_all add: written_def frame_os_def)

lemma artifact_path_not_journal [simp]: "artifact_path path t l m \<noteq> path" "path \<noteq> artifact_path path t l m"
proof -
  have "length (artifact_path path t l m) = length path - 1 + 3" by (simp add: artifact_path_def)
  then have "length (artifact_path path t l m) \<noteq> length path" by linarith
  then show "artifact_path path t l m \<noteq> path" "path \<noteq> artifact_path path t l m" by auto
qed

lemma wp_save_artifact:
  assumes "wf_os w" and "label \<in> artifact_labels"
    and "\<And>x. stored w x (artifact_path path (tx_id r) label mon) (raw mon) \<Longrightarrow>
      Q (artifact_path path (tx_id r) label mon) x"
    and "\<And>e x. written w x (artifact_path path (tx_id r) label mon) (raw mon) \<Longrightarrow>
      class_of e \<in> {JournalError, OSError} \<Longrightarrow> fault w \<noteq> (\<lambda>_. None) \<Longrightarrow> E e x"
  shows "wp (save_artifact path r label mon) Q E w"
proof -
  let ?Q = "\<lambda>_. wp (andthen (atomic_bytes (artifact_path path (tx_id r) label mon) (raw mon))
    (\<lambda>_. ret (artifact_path path (tx_id r) label mon))) Q E"
  have "wp (sys id) ?Q E w"
  proof (rule wp_sys_id)
    fix n assume n: "calls w \<le> n"
    show "?Q () (w\<lparr>calls := n\<rparr>)"
      unfolding wp_andthen wp_ret
      by (rule wp_atomic_bytes_I)
        (use assms n in \<open>auto dest: stored_calls [OF _ n] written_calls [OF _ n]\<close>)
  next
    fix m n assume "calls w \<le> n" "fault w \<noteq> (\<lambda>_. None)"
    then show "E (Exn OSError m) (w\<lparr>calls := n\<rparr>)" using assms(1,4) by (simp add: written_refl)
  qed
  then show ?thesis using assms(2) by (simp add: save_artifact_def wp_andthen)
qed

lemma wp_create:
  assumes "wf_os w"
    and "\<And>at u x. names w (Path path) = None \<Longrightarrow> wf_os x \<Longrightarrow> fault x = fault w \<Longrightarrow> clock x = clock w \<Longrightarrow>
      durable x path (journal_bytes (new_record at u p)) \<Longrightarrow>
      durable x (artifact_path path (uuid_str u) ''P'' p) (raw p) \<Longrightarrow> Q (new_record at u p) x"
    and "\<And>e x. wf_os x \<Longrightarrow> names w (Path path) \<noteq> None \<or> fault w \<noteq> (\<lambda>_. None) \<Longrightarrow>
      contents x (Path path) = contents w (Path path) \<or> names w (Path path) = None \<and>
        (\<exists>at u. contents x (Path path) = Some (journal_bytes (new_record at u p))) \<Longrightarrow> E e x"
  shows "wp (create path p) Q E w"
proof -
  have make: "wp (andthen now (\<lambda>at. andthen uuid4 (\<lambda>txid.
    andthen (save_artifact path (new_record at txid p) ''P'' p) (\<lambda>_.
    andthen (atomic_bytes path (journal_bytes (new_record at txid p))) (\<lambda>_.
    ret (new_record at txid p)))))) Q E (w\<lparr>calls := n\<rparr>)"
    if new: "names w (Path path) = None" for n
    unfolding wp_andthen wp_now wp_uuid4 wp_ret
  proof (rule wp_save_artifact, goal_cases)
    case (3 x)
    note x = stored_written [OF 3, THEN written_fixed(1)] stored_written [OF 3, THEN written_fixed(2)]
      stored_written [OF 3, THEN written_fixed(3)]
    have art: "durable x (artifact_path path (uuid_str u) ''P'' p) (raw p)"
      if "u = fresh_uuid (w\<lparr>calls := Suc n\<rparr>) (Suc n)" for u
      using stored_durable [OF 3] that by (simp add: new_record_tx)
    have same: "contents x (Path path) = contents w (Path path)"
      using stored_written [OF 3] by (simp add: written_def)
    show ?case
    proof (rule wp_atomic_bytes_I [OF x(1)], goal_cases)
      case (1 y)
      let ?u = "fresh_uuid (w\<lparr>calls := Suc n\<rparr>) (Suc n)"
      have "durable y (artifact_path path (uuid_str ?u) ''P'' p) (raw p)"
        using art [OF refl] by (intro written_keeps_durable [OF stored_written [OF 1]]) simp_all
      then show ?case
        using 1 x written_fixed [OF stored_written [OF 1]] stored_durable [OF 1]
        by (intro assms(2)) (simp_all add: new)
    next
      case (2 e y)
      then show ?case
        using x written_fixed [OF 2(1)] same new
        by (intro assms(3)) (auto simp: written_def)
    qed
  next
    case (4 e x)
    then show ?case
      using written_fixed [OF 4(1)] new by (intro assms(3)) (auto simp: written_def)
  qed (use assms(1) in \<open>auto simp: artifact_labels_def\<close>)
  have old: "wp (load path) (\<lambda>old. wp (raise (f old)) Q' E) E (w\<lparr>calls := n\<rparr>)"
    if "names w (Path path) \<noteq> None" for n f Q'
    by (rule wp_load) (use that assms(1) in \<open>auto simp: wp_raise intro!: assms(3)\<close>)
  show ?thesis
    unfolding create_def wp_andthen wp_if
    by (rule wp_store_exists)
      (use make [unfolded wp_simps] old assms(1) in \<open>auto simp: wp_simps intro!: assms(3)\<close>)
qed

end
