(* ===== verification/Transaction.thy ===== *)
theory Transaction
  imports Endpoints Journal
begin

text \<open>
  \<open>TradeCoordinator\<close> of \<open>broker/transaction.py\<close>, with the journal store and any two endpoints. The
  state of a run is the operating system, the two endpoints, the local variables that outlive a
  statement (\<open>record\<close>, \<open>gba_connected\<close>, \<open>switch_connected\<close>) and, for the theorems only, \<open>trace\<close>: the
  calls made to the endpoints, each with the operating system as it was at the call. The fault hook
  is a function that says whether it raises; one that changes the record or has other effects is not
  modelled. Log messages are not modelled.
\<close>

datatype endpoint_call =
    SwitchConnect | GbaConnect | SwitchWait | SwitchTrade pokemon100 | GbaTrade pokemon100
  | GbaClose | SwitchClose

record ('s, 'g) run =
  system :: os
  switch :: 's
  gba :: 'g
  current :: journal_record
  gba_connected :: bool
  switch_connected :: bool
  trace :: "(endpoint_call \<times> os) list"

type_synonym hook = "string \<Rightarrow> journal_record \<Rightarrow> exn option"

record transaction_outcome =
  outcome_id :: string
  gba_mon :: pokemon100
  switch_mon :: pokemon100
  broker_mon :: pokemon100

section \<open>Statements\<close>

definition sys_call :: "(os, 'a) prog \<Rightarrow> (('s, 'g) run, 'a) prog" where
  "sys_call m = zoom system (\<lambda>w c. c\<lparr>system := w\<rparr>) m"

definition switch_call :: "endpoint_call \<Rightarrow> ('s, 'a) prog \<Rightarrow> (('s, 'g) run, 'a) prog" where
  "switch_call ev m = andthen (modify (\<lambda>c. c\<lparr>trace := trace c @ [(ev, system c)]\<rparr>))
     (\<lambda>_. zoom switch (\<lambda>s c. c\<lparr>switch := s\<rparr>) m)"

definition gba_call :: "endpoint_call \<Rightarrow> ('g, 'a) prog \<Rightarrow> (('s, 'g) run, 'a) prog" where
  "gba_call ev m = andthen (modify (\<lambda>c. c\<lparr>trace := trace c @ [(ev, system c)]\<rparr>))
     (\<lambda>_. zoom gba (\<lambda>s c. c\<lparr>gba := s\<rparr>) m)"

definition journal_step :: "string list \<Rightarrow> journal_state \<Rightarrow> change \<Rightarrow> (('s, 'g) run, unit) prog" where
  "journal_step path new ch =
     zoom (\<lambda>c. (current c, system c)) (\<lambda>(r, w) c. c\<lparr>current := r, system := w\<rparr>) (transition path new ch)"

definition fault_hook :: "hook \<Rightarrow> string \<Rightarrow> (('s, 'g) run, unit) prog" where
  "fault_hook hook boundary = andthen (gets current) (\<lambda>r.
     case hook boundary r of None \<Rightarrow> ret () | Some e \<Rightarrow> raise e)"

definition keep_artifact :: "string list \<Rightarrow> string \<Rightarrow> pokemon100 \<Rightarrow> (('s, 'g) run, unit) prog" where
  "keep_artifact path label mon = andthen (gets current) (\<lambda>r.
     andthen (sys_call (save_artifact path r label mon)) (\<lambda>_. ret ()))"

section \<open>Validation\<close>

definition validate_result :: "('z) trade_result_scheme \<Rightarrow> pokemon100 \<Rightarrow> string \<Rightarrow> exn + unit" where
  "validate_result res expected endpoint = (
     if offered_mon res \<noteq> expected then
       Inl (Exn EndpointError (endpoint @ '' reported a different offered record: expected '' @
         sha256 expected @ '', got '' @ sha256 (offered_mon res)))
     else if \<not> commit_confirmed res then
       Inl (Exn CommitNotConfirmed (endpoint @ '' did not confirm irreversible commit''))
     else Inr ())"

definition validate_gba_result :: "gba_trade_result \<Rightarrow> pokemon100 \<Rightarrow> exn + unit" where
  "validate_gba_result res expected = (
     case validate_result res expected ''physical GBA'' of
       Inl e \<Rightarrow> Inl e
     | Inr _ \<Rightarrow>
         if \<not> (0 \<le> selected_slot res \<and> selected_slot res \<le> 5) then
           Inl (Exn EndpointError (''invalid selected GBA slot '' @ dec (selected_slot res)))
         else if \<not> link_closed res then
           Inl (Exn CommitNotConfirmed
             ''GBA trade committed but wired link did not close successfully'')
         else Inr ())"

section \<open>The transaction\<close>

definition connect_both :: "'s switch_endpoint \<Rightarrow> 'g gba_endpoint \<Rightarrow> (('s, 'g) run, unit) prog" where
  "connect_both sw gb =
     andthen (switch_call SwitchConnect (switch_connect sw)) (\<lambda>_.
     andthen (modify (\<lambda>c. c\<lparr>switch_connected := True\<rparr>)) (\<lambda>_.
     andthen (gba_call GbaConnect (gba_connect gb)) (\<lambda>_.
     modify (\<lambda>c. c\<lparr>gba_connected := True\<rparr>))))"

definition b_captured :: "pokemon100 \<Rightarrow> change" where
  "b_captured b = (noted ''Switch commit confirmed; B captured and P transferred'')
     \<lparr>new_hashes := [(''B'', Some (sha256 b))],
      new_locations := [(''B'', ''broker''), (''P'', ''switch'')]\<rparr>"

definition stage1 ::
    "string list \<Rightarrow> 's switch_endpoint \<Rightarrow> hook \<Rightarrow> pokemon100 \<Rightarrow> (('s, 'g) run, pokemon100) prog" where
  "stage1 path sw hook placeholder =
     andthen (journal_step path SWITCH_STAGE1_STARTED (noted ''starting Switch trade B for placeholder P'')) (\<lambda>_.
     andthen (fault_hook hook ''before_switch_stage1'') (\<lambda>_.
     andthen (switch_call SwitchWait (switch_wait sw)) (\<lambda>_.
     andthen (switch_call (SwitchTrade placeholder) (switch_trade sw placeholder)) (\<lambda>first.
     andthen (fault_hook hook ''after_switch1_endpoint_before_persist'') (\<lambda>_.
     andthen (lift (validate_result first placeholder ''Switch stage 1'')) (\<lambda>_.
     andthen (lift (refuse_mail (received_mon first))) (\<lambda>_.
     andthen (keep_artifact path ''B'' (received_mon first)) (\<lambda>_.
     andthen (journal_step path SWITCH_B_CAPTURED (b_captured (received_mon first))) (\<lambda>_.
     andthen (journal_step path PLACEHOLDER_ON_SWITCH (noted ''durably recorded placeholder on Switch'')) (\<lambda>_.
     andthen (fault_hook hook ''after_placeholder_on_switch'') (\<lambda>_.
     ret (received_mon first))))))))))))"

definition a_captured :: "gba_trade_result \<Rightarrow> change" where
  "a_captured res = (noted ''GBA commit confirmed; selected A captured and B transferred'')
     \<lparr>new_hashes := [(''A'', Some (sha256 (received_mon res)))],
      new_locations := [(''A'', ''broker''), (''B'', ''gba'')],
      new_slot := Some (selected_slot res)\<rparr>"

definition gba_stage ::
    "string list \<Rightarrow> 'g gba_endpoint \<Rightarrow> hook \<Rightarrow> pokemon100 \<Rightarrow> (('s, 'g) run, pokemon100) prog" where
  "gba_stage path gb hook b_mon =
     andthen (journal_step path GBA_STAGE_STARTED (noted ''starting physical GBA trade A for B'')) (\<lambda>_.
     andthen (fault_hook hook ''before_gba_trade'') (\<lambda>_.
     andthen (gba_call (GbaTrade b_mon) (gba_trade gb b_mon)) (\<lambda>res.
     andthen (fault_hook hook ''after_gba_endpoint_before_persist'') (\<lambda>_.
     andthen (lift (validate_gba_result res b_mon)) (\<lambda>_.
     andthen (lift (refuse_mail (received_mon res))) (\<lambda>_.
     andthen (keep_artifact path ''A'' (received_mon res)) (\<lambda>_.
     andthen (journal_step path GBA_A_CAPTURED (a_captured res)) (\<lambda>_.
     andthen (journal_step path B_COMMITTED_TO_GBA (noted ''durably recorded B ownership on GBA'')) (\<lambda>_.
     andthen (fault_hook hook ''after_b_committed_to_gba'') (\<lambda>_.
     ret (received_mon res)))))))))))"

definition a_committed :: change where
  "a_committed = (noted ''Switch return commit confirmed; A transferred and candidate P captured'')
     \<lparr>new_locations := [(''A'', ''switch''), (''P'', ''broker (unverified candidate)''), (''B'', ''gba'')]\<rparr>"

definition exchange_complete :: change where
  "exchange_complete = (noted ''placeholder recovered byte-for-byte; A/B/P exchange complete'')
     \<lparr>new_locations := [(''P'', ''broker'')]\<rparr>"

definition stage2 ::
    "string list \<Rightarrow> 's switch_endpoint \<Rightarrow> hook \<Rightarrow> pokemon100 \<Rightarrow> pokemon100 \<Rightarrow> (('s, 'g) run, pokemon100) prog" where
  "stage2 path sw hook placeholder a_mon =
     andthen (journal_step path SWITCH_STAGE2_STARTED (noted ''starting Switch return trade P for A'')) (\<lambda>_.
     andthen (fault_hook hook ''before_switch_stage2'') (\<lambda>_.
     andthen (switch_call SwitchWait (switch_wait sw)) (\<lambda>_.
     andthen (switch_call (SwitchTrade a_mon) (switch_trade sw a_mon)) (\<lambda>second.
     andthen (fault_hook hook ''after_switch2_endpoint_before_persist'') (\<lambda>_.
     andthen (lift (validate_result second a_mon ''Switch stage 2'')) (\<lambda>_.
     andthen (keep_artifact path ''P_RETURNED'' (received_mon second)) (\<lambda>_.
     andthen (journal_step path A_COMMITTED_TO_SWITCH a_committed) (\<lambda>_.
     andthen (fault_hook hook ''before_placeholder_validation'') (\<lambda>_.
     andthen (if received_mon second \<noteq> placeholder
         then raise (Exn PlaceholderMismatch (''returned placeholder mismatch: expected '' @
           sha256 placeholder @ '', received '' @ sha256 (received_mon second)))
         else ret ()) (\<lambda>_.
     andthen (journal_step path COMPLETE exchange_complete) (\<lambda>_.
     ret (received_mon second))))))))))))"

definition exchange ::
    "string list \<Rightarrow> 's switch_endpoint \<Rightarrow> 'g gba_endpoint \<Rightarrow> hook \<Rightarrow> pokemon100 \<Rightarrow>
     (('s, 'g) run, transaction_outcome) prog" where
  "exchange path sw gb hook placeholder =
     andthen (connect_both sw gb) (\<lambda>_.
     andthen (stage1 path sw hook placeholder) (\<lambda>b_mon.
     andthen (gba_stage path gb hook b_mon) (\<lambda>a_mon.
     andthen (stage2 path sw hook placeholder a_mon) (\<lambda>returned.
     andthen (gets current) (\<lambda>r.
     ret \<lparr>outcome_id = tx_id r, gba_mon = b_mon, switch_mon = a_mon, broker_mon = returned\<rparr>)))))"

definition recovery_change :: "exn \<Rightarrow> change" where
  "recovery_change exc = (noted ''transaction stopped because endpoint outcome may be unsafe or incomplete'')
     \<lparr>new_error := Some (exn_text exc)\<rparr>"

definition mark_recovery :: "string list \<Rightarrow> exn \<Rightarrow> (('s, 'g) run, unit) prog" where
  "mark_recovery path exc =
     andthen (gets current) (\<lambda>r.
     andthen (lift (state_enum r)) (\<lambda>s.
     if s \<in> terminal_states then ret ()
     else try_except Exception (journal_step path RECOVERY_REQUIRED (recovery_change exc)) (\<lambda>_. ret ())))"

definition close_both :: "'s switch_endpoint \<Rightarrow> 'g gba_endpoint \<Rightarrow> (('s, 'g) run, unit) prog" where
  "close_both sw gb =
     andthen (gets gba_connected) (\<lambda>g.
     andthen (run_if g (try_except Exception (gba_call GbaClose (gba_close gb)) (\<lambda>_. ret ()))) (\<lambda>_.
     andthen (gets switch_connected) (\<lambda>s.
     run_if s (try_except Exception (switch_call SwitchClose (switch_close sw)) (\<lambda>_. ret ())))))"

definition execute ::
    "string list \<Rightarrow> 's switch_endpoint \<Rightarrow> 'g gba_endpoint \<Rightarrow> hook \<Rightarrow> pokemon100 \<Rightarrow>
     (('s, 'g) run, transaction_outcome) prog" where
  "execute path sw gb hook placeholder =
     andthen (lift (refuse_mail placeholder)) (\<lambda>_.
     andthen (sys_call (require_new_transaction path)) (\<lambda>_.
     andthen (sys_call (create path placeholder)) (\<lambda>r.
     andthen (modify (\<lambda>c. c\<lparr>current := r, gba_connected := False, switch_connected := False\<rparr>)) (\<lambda>_.
     try_finally
       (try_except Exception (exchange path sw gb hook placeholder)
         (\<lambda>exc. andthen (mark_recovery path exc) (\<lambda>_. raise exc)))
       (close_both sw gb)))))"

end
