(* ===== verification/Escrow.thy ===== *)
theory Escrow
  imports Transaction "HOL-Library.Sublist"
begin

text \<open>
  How a transaction runs. A \<open>ledger\<close> is the abstract state of an exchange: how far it has come, what
  the journal says of the three records, which records have been kept and which endpoint calls have
  been made. \<open>agrees\<close> relates it to the state of the coordinator, with the journal on disk equal to
  the record in memory; \<open>stopped\<close> is what holds of any state in which the exchange can break off.
  The locale \<open>escrow\<close> runs the coordinator against two endpoint contracts.
\<close>

definition forward :: "journal_state list" where
  "forward = [IDLE, SWITCH_STAGE1_STARTED, SWITCH_B_CAPTURED, PLACEHOLDER_ON_SWITCH, GBA_STAGE_STARTED,
     GBA_A_CAPTURED, B_COMMITTED_TO_GBA, SWITCH_STAGE2_STARTED, A_COMMITTED_TO_SWITCH, COMPLETE]"

record ledger =
  stage :: nat
  hash_of :: "string \<Rightarrow> string option option"
  place_of :: "string \<Rightarrow> string option"
  slot_of :: "int option"
  kept :: "(string \<times> pokemon100) set"
  made :: "endpoint_call list"

section \<open>What is on disk\<close>

text \<open>Every hash in the journal is that of a record whose bytes are durably on disk.\<close>

definition evidence :: "string list \<Rightarrow> os \<Rightarrow> journal_record \<Rightarrow> bool" where
  "evidence path w r \<longleftrightarrow> (\<forall>n h. map_of (hashes r) n = Some (Some h) \<longrightarrow>
     (\<exists>m. sha256 m = h \<and> durable w (artifact_path path (tx_id r) n m) (raw m)))"

text \<open>
  A trade may only be asked for a record without Mail that is durably on disk under a label whose
  hash is in the durable journal, in one of the states \<open>S\<close>.
\<close>

definition backed :: "string list \<Rightarrow> os \<Rightarrow> journal_state set \<Rightarrow> pokemon100 \<Rightarrow> bool" where
  "backed path w S m \<longleftrightarrow> refuse_mail m = Inr () \<and>
     (\<exists>r n. wf_record r \<and> durable w path (journal_bytes r) \<and> jstate r \<in> state_value ` S \<and>
       map_of (hashes r) n = Some (Some (sha256 m)) \<and>
       durable w (artifact_path path (tx_id r) n m) (raw m))"

fun guarded_call :: "string list \<Rightarrow> endpoint_call \<Rightarrow> os \<Rightarrow> bool" where
  "guarded_call path (SwitchTrade m) w = backed path w {SWITCH_STAGE1_STARTED, SWITCH_STAGE2_STARTED} m"
| "guarded_call path (GbaTrade m) w = backed path w {GBA_STAGE_STARTED} m"
| "guarded_call path ev w = True"

definition guarded :: "string list \<Rightarrow> (endpoint_call \<times> os) list \<Rightarrow> bool" where
  "guarded path tr \<longleftrightarrow> (\<forall>(ev, w) \<in> set tr. guarded_call path ev w)"

text \<open>The calls of a whole exchange, in their order.\<close>

definition script :: "pokemon100 \<Rightarrow> pokemon100 \<Rightarrow> pokemon100 \<Rightarrow> endpoint_call list" where
  "script p b a = [SwitchConnect, GbaConnect, SwitchWait, SwitchTrade p, GbaTrade b, SwitchWait, SwitchTrade a]"

definition in_order :: "pokemon100 \<Rightarrow> endpoint_call list \<Rightarrow> bool" where
  "in_order p cs \<longleftrightarrow> (\<exists>b a. prefix cs (script p b a))"

lemma guarded_simps [simp]:
  "guarded path []" "guarded path (tr @ [(ev, w)]) \<longleftrightarrow> guarded path tr \<and> guarded_call path ev w"
  by (auto simp: guarded_def)

lemma in_order_shorter: "in_order p (cs @ ds) \<Longrightarrow> in_order p cs"
  by (auto simp: in_order_def dest: append_prefixD)

text \<open>There is a journal, and a power loss leaves one.\<close>

definition present :: "string list \<Rightarrow> os \<Rightarrow> bool" where
  "present path w \<longleftrightarrow> contents w (Path path) \<noteq> None \<and> \<not> survives w (Path path) None"

lemma durable_present: "durable w path b \<Longrightarrow> present path w"
  by (auto simp: durable_def present_def)

lemma present_written: "written w x path b \<Longrightarrow> present path w \<Longrightarrow> present path x"
  by (auto simp: written_def present_def)

definition agrees :: "string list \<Rightarrow> (nat \<Rightarrow> string option) \<Rightarrow> ledger \<Rightarrow> ('s, 'g) run \<Rightarrow> bool" where
  "agrees path f l c \<longleftrightarrow> wf_os (system c) \<and> fault (system c) = f \<and> wf_record (current c) \<and>
     stage l < length forward \<and>
     map entry_state (history (current c)) = map state_value (take (Suc (stage l)) forward) \<and>
     map_of (hashes (current c)) = hash_of l \<and> map_of (locations (current c)) = place_of l \<and>
     gba_slot (current c) = slot_of l \<and>
     durable (system c) path (journal_bytes (current c)) \<and> evidence path (system c) (current c) \<and>
     (\<forall>(n, m) \<in> kept l. durable (system c) (artifact_path path (tx_id (current c)) n m) (raw m)) \<and>
     map fst (trace c) = made l \<and> guarded path (trace c)"

definition stopped :: "string list \<Rightarrow> (nat \<Rightarrow> string option) \<Rightarrow> pokemon100 \<Rightarrow> ('s, 'g) run \<Rightarrow> bool" where
  "stopped path f p c \<longleftrightarrow> wf_os (system c) \<and> fault (system c) = f \<and> wf_record (current c) \<and>
     evidence path (system c) (current c) \<and> guarded path (trace c) \<and> in_order p (map fst (trace c)) \<and>
     present path (system c) \<and> (f = (\<lambda>_. None) \<longrightarrow> (\<exists>s. jstate (current c) = state_value s \<and> s \<notin> terminal_states) \<and>
       durable (system c) path (journal_bytes (current c)))"

definition set_all :: "('k \<times> 'v) list \<Rightarrow> ('k \<Rightarrow> 'v option) \<Rightarrow> 'k \<Rightarrow> 'v option" where
  "set_all us d = fold (\<lambda>(k, v) d. d(k \<mapsto> v)) us d"

lemma map_of_dict_update: "map_of (dict_update d us) = set_all us (map_of d)"
proof (induction us arbitrary: d)
  case (Cons u us)
  then show ?case by (cases u) (simp add: dict_update_def set_all_def update_conv')
qed (simp add: dict_update_def set_all_def)

definition enter :: "change \<Rightarrow> ledger \<Rightarrow> ledger" where
  "enter ch l = l\<lparr>stage := Suc (stage l), hash_of := set_all (new_hashes ch) (hash_of l),
     place_of := set_all (new_locations ch) (place_of l),
     slot_of := (if new_slot ch \<noteq> None then new_slot ch else slot_of l)\<rparr>"

lemma agrees_state:
  assumes "agrees path f l c"
  shows "jstate (current c) = state_value (forward ! stage l)"
proof -
  obtain ss where ss: "ss \<noteq> []" "map entry_state (history (current c)) = map state_value ss"
      "jstate (current c) = state_value (last ss)"
    using assms by (auto simp: agrees_def wf_record_def)
  then have "map state_value ss = map state_value (take (Suc (stage l)) forward)"
    using assms by (simp add: agrees_def)
  then have "ss = take (Suc (stage l)) forward" by (rule inj_on_map_eq_map [THEN iffD1, rotated]) (auto intro: inj_onI)
  then show ?thesis using assms ss(3) by (simp add: agrees_def last_conv_nth take_Suc_conv_app_nth)
qed

lemma forward_terminal: "n < 9 \<Longrightarrow> forward ! n \<notin> terminal_states"
proof -
  have "\<forall>n \<in> set [0..<9]. forward ! n \<notin> terminal_states"
    by (simp add: upt_conv_Cons forward_def terminal_states_def)
  then show "n < 9 \<Longrightarrow> forward ! n \<notin> terminal_states" by simp
qed

lemma forward_moves: "n < 9 \<Longrightarrow> moves (forward ! n) (forward ! Suc n)"
proof -
  have "\<forall>n \<in> set [0..<9]. moves (forward ! n) (forward ! Suc n)"
    by (simp add: upt_conv_Cons forward_def moves_simps)
  then show "n < 9 \<Longrightarrow> moves (forward ! n) (forward ! Suc n)" by simp
qed

lemma length_forward [simp]: "length forward = 10"
  by (simp add: forward_def)

lemma agrees_stopped: "agrees path f l c \<Longrightarrow> stage l < 9 \<Longrightarrow> in_order p (made l) \<Longrightarrow> stopped path f p c"
  using agrees_state [of path f l c] forward_terminal [of "stage l"]
  by (auto simp: stopped_def agrees_def intro: durable_present)

section \<open>Steps of the coordinator\<close>

lemma set_all_Some: "set_all us d k = Some v \<Longrightarrow> d k = Some v \<or> (k, v) \<in> set us"
proof (induction us arbitrary: d)
  case (Cons u us)
  obtain a x where u: "u = (a, x)" by (cases u)
  have "set_all us (d(a \<mapsto> x)) k = Some v" using Cons.prems by (simp add: u set_all_def)
  then have "(d(a \<mapsto> x)) k = Some v \<or> (k, v) \<in> set us" by (rule Cons.IH)
  then show ?case by (auto simp: u split: if_splits)
qed (simp add: set_all_def)

lemma tx_id_advance [simp]: "tx_id (advance new ch at r) = tx_id r"
  by (simp add: advance_def)

lemma evidence_written:
  "written w x path b \<Longrightarrow> evidence path w r \<Longrightarrow> evidence path x r"
  unfolding evidence_def by (meson artifact_path_not_journal(1) written_keeps_durable)

definition supported :: "change \<Rightarrow> ledger \<Rightarrow> bool" where
  "supported ch l \<longleftrightarrow> slot_ok (new_slot ch) \<and> (\<forall>(k, v) \<in> set (new_hashes ch).
     (\<exists>old. hash_of l k = Some old \<and> (old = None \<or> v = old)) \<and> (\<exists>m. v = Some (sha256 m) \<and> (k, m) \<in> kept l))"

lemma evidence_advance:
  assumes "agrees path f l c" and "supported ch l" and "written (system c) x path b"
  shows "evidence path x (advance new ch at (current c))"
  unfolding evidence_def
proof (intro allI impI)
  fix n h
  assume "map_of (hashes (advance new ch at (current c))) n = Some (Some h)"
  then have "set_all (new_hashes ch) (hash_of l) n = Some (Some h)"
    using assms(1) by (simp add: advance_def map_of_dict_update agrees_def)
  then consider "map_of (hashes (current c)) n = Some (Some h)" | "(n, Some h) \<in> set (new_hashes ch)"
    using assms(1) set_all_Some by (fastforce simp: agrees_def)
  then have "\<exists>m. sha256 m = h \<and> durable (system c) (artifact_path path (tx_id (current c)) n m) (raw m)"
    using assms(1,2) by cases (fastforce simp: agrees_def evidence_def supported_def)+
  then show "\<exists>m. sha256 m = h \<and> durable x (artifact_path path (tx_id (advance new ch at (current c))) n m) (raw m)"
    using written_keeps_durable [OF assms(3)] by (auto simp: artifact_path_not_journal)
qed

lemma supported_check:
  assumes "agrees path f l c" and "stage l < 9" and "supported ch l"
  shows "transition_check (current c) (forward ! Suc (stage l)) ch = Inr ()"
  using assms agrees_state [OF assms(1)] forward_moves [OF assms(2)]
  by (fastforce simp: transition_check_ok check_hashes_ok supported_def agrees_def)

lemma agrees_enter:
  assumes "agrees path f l c" and "stage l < 9" and "supported ch l"
    and "r = advance (forward ! Suc (stage l)) ch at (current c)"
    and "stored (system c) x path (journal_bytes r)"
  shows "agrees path f (enter ch l) (c\<lparr>current := r, system := x\<rparr>)"
proof -
  note w = stored_written [OF assms(5)]
  have "wf_record r" using assms(1,4) supported_check [OF assms(1-3)] by (simp add: advance_wf agrees_def)
  moreover have "evidence path x r" using evidence_advance [OF assms(1,3) w] assms(4) by simp
  moreover have "durable x (artifact_path path (tx_id r) n m) (raw m)" if "(n, m) \<in> kept l" for n m
    using assms(1,4) that by (auto simp: agrees_def intro: written_keeps_durable [OF w])
  moreover have "map entry_state (history r) = map state_value (take (Suc (Suc (stage l))) forward)"
    using assms(1,2,4) by (simp add: agrees_def advance_def take_Suc_conv_app_nth [of "Suc (stage l)"])
  ultimately show ?thesis
    using assms(1,2,4) stored_durable [OF assms(5)] written_fixed [OF w]
    by (auto simp: agrees_def enter_def advance_def map_of_dict_update)
qed

lemma stopped_ahead:
  assumes "agrees path f l c" and "stage l < 9" and "supported ch l" and "in_order p (made l)"
    and "r = advance (forward ! Suc (stage l)) ch at (current c)"
    and "written (system c) x path (journal_bytes r)" and "f \<noteq> (\<lambda>_. None)"
  shows "stopped path f p (c\<lparr>current := r, system := x\<rparr>)"
proof -
  have "wf_record r" using assms(1,5) supported_check [OF assms(1-3)] by (simp add: advance_wf agrees_def)
  moreover have "evidence path x r" using evidence_advance [OF assms(1,3,6)] assms(5) by simp
  moreover have "present path x"
    using assms(1) by (auto simp: agrees_def intro: present_written [OF assms(6)] durable_present)
  ultimately show ?thesis
    using assms(1,4,7) written_fixed [OF assms(6)] by (simp add: stopped_def agrees_def)
qed

lemma wp_journal_step:
  assumes "agrees path f l c" and "stage l < 9" and "supported ch l" and "in_order p (made l)"
    and "new = forward ! Suc (stage l)"
    and "\<And>r x. agrees path f (enter ch l) (c\<lparr>current := r, system := x\<rparr>) \<Longrightarrow>
      Q () (c\<lparr>current := r, system := x\<rparr>)"
    and "\<And>e r x. f \<noteq> (\<lambda>_. None) \<Longrightarrow> stopped path f p (c\<lparr>current := r, system := x\<rparr>) \<Longrightarrow>
      E e (c\<lparr>current := r, system := x\<rparr>)"
  shows "wp (journal_step path new ch) Q E c"
  unfolding journal_step_def wp_zoom
proof (rule wp_transition, goal_cases)
  case 1
  then show ?case using assms(1) by (simp add: agrees_def)
next
  case (2 e)
  then show ?case using supported_check [OF assms(1-3)] assms(5) by simp
next
  case (3 x r)
  then show ?case using agrees_enter [OF assms(1-3), of r _ x] assms(5,6) by simp
next
  case (4 e x r)
  have "f \<noteq> (\<lambda>_. None)" using 4(5) assms(1) by (simp add: agrees_def)
  then show ?case using stopped_ahead [OF assms(1-4), of r _ x] 4 assms(5,7) by simp
qed

definition keep :: "string \<Rightarrow> pokemon100 \<Rightarrow> ledger \<Rightarrow> ledger" where
  "keep n m l = l\<lparr>kept := insert (n, m) (kept l)\<rparr>"

definition call :: "endpoint_call \<Rightarrow> ledger \<Rightarrow> ledger" where
  "call ev l = l\<lparr>made := made l @ [ev]\<rparr>"

lemma artifact_label: "artifact_path path t n m = artifact_path path t n' m' \<Longrightarrow> n = n'"
  by (simp add: artifact_path_def sha256_def)

definition unused :: "string \<Rightarrow> ledger \<Rightarrow> bool" where
  "unused n l \<longleftrightarrow> n \<in> artifact_labels \<and> n \<notin> fst ` kept l \<and> (\<forall>h. hash_of l n \<noteq> Some (Some h))"

lemma agrees_save:
  assumes "agrees path f l c" and "unused n l"
    and "written (system c) x (artifact_path path (tx_id (current c)) n m) (raw m)"
  shows "agrees path f l (c\<lparr>system := x\<rparr>)"
proof -
  have d: "durable x (artifact_path path (tx_id (current c)) n' m') (raw m')"
    if "durable (system c) (artifact_path path (tx_id (current c)) n' m') (raw m')" "n' \<noteq> n" for n' m'
    using that by (auto intro: written_keeps_durable [OF assms(3)] dest: artifact_label)
  have "durable x path (journal_bytes (current c))"
    using assms(1) by (auto simp: agrees_def intro: written_keeps_durable [OF assms(3)])
  moreover have "evidence path x (current c)"
    unfolding evidence_def
  proof (intro allI impI)
    fix n' h assume h: "map_of (hashes (current c)) n' = Some (Some h)"
    then have "n' \<noteq> n" using assms(1,2) by (auto simp: agrees_def unused_def)
    then show "\<exists>m'. sha256 m' = h \<and> durable x (artifact_path path (tx_id (current c)) n' m') (raw m')"
      using h assms(1) d unfolding agrees_def evidence_def by meson
  qed
  moreover have "durable x (artifact_path path (tx_id (current c)) n' m') (raw m')" if "(n', m') \<in> kept l" for n' m'
    using that assms(1,2) by (intro d) (force simp: agrees_def unused_def)+
  ultimately show ?thesis using assms(1) written_fixed [OF assms(3)] by (auto simp: agrees_def)
qed

lemma wp_keep_artifact:
  assumes "agrees path f l c" and "stage l < 9" and "unused n l" and "in_order p (made l)"
    and "\<And>x. agrees path f (keep n m l) (c\<lparr>system := x\<rparr>) \<Longrightarrow> Q () (c\<lparr>system := x\<rparr>)"
    and "\<And>e x. f \<noteq> (\<lambda>_. None) \<Longrightarrow> stopped path f p (c\<lparr>system := x\<rparr>) \<Longrightarrow> E e (c\<lparr>system := x\<rparr>)"
  shows "wp (keep_artifact path n m) Q E c"
  unfolding keep_artifact_def sys_call_def wp_andthen wp_gets wp_zoom wp_ret
proof (rule wp_save_artifact, goal_cases)
  case (3 x)
  have "agrees path f l (c\<lparr>system := x\<rparr>)" using agrees_save [OF assms(1,3) stored_written [OF 3]] .
  then show ?case
    using stored_durable [OF 3] by (intro assms(5)) (auto simp: agrees_def keep_def)
next
  case (4 e x)
  have "agrees path f l (c\<lparr>system := x\<rparr>)" using agrees_save [OF assms(1,3) 4(1)] .
  then show ?case
    using 4(3) assms(1,2,4) by (intro assms(6) agrees_stopped) (auto simp: agrees_def)
qed (use assms(1,3) in \<open>auto simp: agrees_def unused_def\<close>)

lemma agrees_call:
  assumes "agrees path f l c" and "guarded_call path ev (system c)"
  shows "agrees path f (call ev l) (c\<lparr>trace := trace c @ [(ev, system c)], switch := s, gba := g\<rparr>)"
  using assms by (simp add: agrees_def call_def)

section \<open>Against two endpoint contracts\<close>

lemma ledger_simps [simp]:
  "stage (enter ch l) = Suc (stage l)" "stage (keep n m l) = stage l" "stage (call ev l) = stage l"
  "hash_of (enter ch l) = set_all (new_hashes ch) (hash_of l)" "hash_of (keep n m l) = hash_of l"
  "hash_of (call ev l) = hash_of l"
  "place_of (enter ch l) = set_all (new_locations ch) (place_of l)" "place_of (keep n m l) = place_of l"
  "place_of (call ev l) = place_of l"
  "kept (enter ch l) = kept l" "kept (keep n m l) = insert (n, m) (kept l)" "kept (call ev l) = kept l"
  "made (enter ch l) = made l" "made (keep n m l) = made l" "made (call ev l) = made l @ [ev]"
  "slot_of (keep n m l) = slot_of l" "slot_of (call ev l) = slot_of l"
  "slot_of (enter ch l) = (if new_slot ch \<noteq> None then new_slot ch else slot_of l)"
  by (simp_all add: enter_def keep_def call_def)

lemma set_all_simps [simp]: "set_all [] d = d" "set_all ((k, v) # us) d = set_all us (d(k \<mapsto> v))"
  by (simp_all add: set_all_def)

lemma noted_simps [simp]:
  "new_hashes (noted n) = []" "new_locations (noted n) = []" "new_slot (noted n) = None"
  by (simp_all add: noted_def)

lemma supported_noted [simp]: "supported (noted n) l"
  by (simp add: supported_def slot_ok_def)

text \<open>The ledger at the start, with both sessions open, and after each of the three trades.\<close>

definition ledger0 :: "pokemon100 \<Rightarrow> ledger" where
  "ledger0 p = \<lparr>stage = 0,
     hash_of = [''A'' \<mapsto> None, ''B'' \<mapsto> None, ''P'' \<mapsto> Some (sha256 p)],
     place_of = [''A'' \<mapsto> ''gba (unobserved)'', ''B'' \<mapsto> ''switch (unobserved)'', ''P'' \<mapsto> ''broker''],
     slot_of = None, kept = {(''P'', p)}, made = []\<rparr>"

definition ledger1 :: "pokemon100 \<Rightarrow> ledger" where
  "ledger1 p = call GbaConnect (call SwitchConnect (ledger0 p))"

definition ledger2 :: "pokemon100 \<Rightarrow> pokemon100 \<Rightarrow> ledger" where
  "ledger2 p b = enter (noted ''durably recorded placeholder on Switch'') (enter (b_captured b)
     (keep ''B'' b (call (SwitchTrade p) (call SwitchWait
       (enter (noted ''starting Switch trade B for placeholder P'') (ledger1 p))))))"

definition ledger3 :: "pokemon100 \<Rightarrow> pokemon100 \<Rightarrow> gba_trade_result \<Rightarrow> ledger" where
  "ledger3 p b res = enter (noted ''durably recorded B ownership on GBA'') (enter (a_captured res)
     (keep ''A'' (received_mon res) (call (GbaTrade b)
       (enter (noted ''starting physical GBA trade A for B'') (ledger2 p b)))))"

definition ledger4 :: "pokemon100 \<Rightarrow> pokemon100 \<Rightarrow> gba_trade_result \<Rightarrow> ledger" where
  "ledger4 p b res = enter exchange_complete (enter a_committed
     (keep ''P_RETURNED'' p (call (SwitchTrade (received_mon res)) (call SwitchWait
       (enter (noted ''starting Switch return trade P for A'') (ledger3 p b res))))))"

lemmas change_defs = b_captured_def a_captured_def a_committed_def exchange_complete_def noted_def

lemma ledger0_simps [simp]:
  "stage (ledger0 p) = 0" "kept (ledger0 p) = {(''P'', p)}" "made (ledger0 p) = []"
  by (simp_all add: ledger0_def)

lemma ledger1_simps [simp]:
  "stage (ledger1 p) = 0" "kept (ledger1 p) = {(''P'', p)}" "made (ledger1 p) = [SwitchConnect, GbaConnect]"
  "hash_of (ledger1 p) = [''A'' \<mapsto> None, ''B'' \<mapsto> None, ''P'' \<mapsto> Some (sha256 p)]"
  by (simp_all add: ledger1_def) (simp add: ledger0_def)

lemma ledger2_simps [simp]:
  "stage (ledger2 p b) = 3" "kept (ledger2 p b) = {(''B'', b), (''P'', p)}"
  "made (ledger2 p b) = [SwitchConnect, GbaConnect, SwitchWait, SwitchTrade p]"
  "hash_of (ledger2 p b) = [''A'' \<mapsto> None, ''B'' \<mapsto> Some (sha256 b), ''P'' \<mapsto> Some (sha256 p)]"
  by (simp_all add: ledger2_def change_defs eval_nat_numeral) (auto simp: fun_eq_iff)

lemma ledger3_simps [simp]:
  "stage (ledger3 p b res) = 6"
  "kept (ledger3 p b res) = {(''A'', received_mon res), (''B'', b), (''P'', p)}"
  "made (ledger3 p b res) = [SwitchConnect, GbaConnect, SwitchWait, SwitchTrade p, GbaTrade b]"
  "hash_of (ledger3 p b res) = [''A'' \<mapsto> Some (sha256 (received_mon res)), ''B'' \<mapsto> Some (sha256 b),
     ''P'' \<mapsto> Some (sha256 p)]"
  by (simp_all add: ledger3_def change_defs eval_nat_numeral) (auto simp: fun_eq_iff)

lemma ledger4_simps [simp]:
  "stage (ledger4 p b res) = 9"
  "kept (ledger4 p b res) = {(''P_RETURNED'', p), (''A'', received_mon res), (''B'', b), (''P'', p)}"
  "made (ledger4 p b res) = script p b (received_mon res)"
  "hash_of (ledger4 p b res) = [''A'' \<mapsto> Some (sha256 (received_mon res)), ''B'' \<mapsto> Some (sha256 b),
     ''P'' \<mapsto> Some (sha256 p)]"
  by (simp_all add: ledger4_def change_defs script_def)

lemma ledger4_places:
  "place_of (ledger4 p b res) = [''A'' \<mapsto> ''switch'', ''B'' \<mapsto> ''gba'', ''P'' \<mapsto> ''broker'']"
  "slot_of (ledger4 p b res) = Some (selected_slot res)"
  by (simp_all add: ledger4_def ledger3_def ledger2_def ledger1_def ledger0_def change_defs)

text \<open>After \<open>_mark_recovery\<close>, and what closing the endpoints may change.\<close>

definition recovered :: "string list \<Rightarrow> (nat \<Rightarrow> string option) \<Rightarrow> pokemon100 \<Rightarrow> exn \<Rightarrow> ('s, 'g) run \<Rightarrow> bool" where
  "recovered path f p e c \<longleftrightarrow> wf_os (system c) \<and> fault (system c) = f \<and> wf_record (current c) \<and>
     evidence path (system c) (current c) \<and> guarded path (trace c) \<and> in_order p (map fst (trace c)) \<and>
     present path (system c) \<and> (f = (\<lambda>_. None) \<longrightarrow> jstate (current c) = state_value RECOVERY_REQUIRED \<and>
       last_error (current c) = Some (exn_text e) \<and> durable (system c) path (journal_bytes (current c)))"

definition only_closes :: "('s, 'g) run \<Rightarrow> ('s, 'g) run \<Rightarrow> bool" where
  "only_closes c c' \<longleftrightarrow> system c' = system c \<and> current c' = current c \<and>
     (\<exists>es. trace c' = trace c @ es \<and> fst ` set es \<subseteq> {GbaClose, SwitchClose})"

lemma recovery_change_simps [simp]:
  "new_hashes (recovery_change e) = []" "new_locations (recovery_change e) = []"
  "new_slot (recovery_change e) = None" "new_error (recovery_change e) = Some (exn_text e)"
  by (simp_all add: recovery_change_def)

lemma is_exception:
  "class_of e \<in> {JournalError, OSError} \<Longrightarrow> isinstance e Exception"
proof -
  have "Exception \<in> set (ancestors JournalError)" "Exception \<in> set (ancestors OSError)"
    by (simp_all add: ancestors.simps)
  then show "class_of e \<in> {JournalError, OSError} \<Longrightarrow> isinstance e Exception"
    by (auto simp: isinstance_def)
qed

lemma wp_mark_recovery:
  assumes "stopped path f p c"
  shows "wp (mark_recovery path e) (\<lambda>_. recovered path f p e) (\<lambda>_ _. False) c"
proof -
  let ?r = "current c" and ?ch = "recovery_change e"
  have wf: "wf_os (system c)" "wf_record ?r" "fault (system c) = f" "evidence path (system c) ?r"
    using assms by (simp_all add: stopped_def)
  obtain s where s: "jstate ?r = state_value s" using wf(2) by (auto simp: wf_record_def)
  then have enum: "state_enum ?r = Inr s" by (simp add: state_enum_def)
  show ?thesis
  proof (cases "s \<in> terminal_states")
    case True
    then have "f \<noteq> (\<lambda>_. None)" using assms s by (auto simp: stopped_def)
    then show ?thesis
      using assms True by (simp add: mark_recovery_def wp_simps enum recovered_def stopped_def)
  next
    case False
    then have ok: "transition_check ?r RECOVERY_REQUIRED ?ch = Inr ()"
      using s by (auto simp: transition_check_ok slot_ok_def moves_simps)
    have adv: "wf_record r" "evidence path x r"
      if "r = advance RECOVERY_REQUIRED ?ch at ?r" "written (system c) x path b" for r x b at
      using that advance_wf [OF wf(2) ok] evidence_written [OF that(2) wf(4)]
      by (simp_all add: evidence_def advance_def dict_update_def)
    show ?thesis
      unfolding mark_recovery_def wp_andthen wp_gets wp_lift enum sum.case
      unfolding if_not_P [OF False] wp_try_except journal_step_def wp_zoom wp_ret
    proof (rule wp_transition [OF wf(1)], goal_cases)
      case (1 e)
      then show ?case using ok by simp
    next
      case (2 x r)
      have "jstate r = state_value RECOVERY_REQUIRED" "last_error r = Some (exn_text e)"
        using 2(2) by (simp_all add: advance_def)
      then show ?case
        using assms adv [OF 2(2) stored_written [OF 2(3)]] stored_durable [OF 2(3)]
          written_fixed [OF stored_written [OF 2(3)]] durable_present [OF stored_durable [OF 2(3)]]
        by (simp add: recovered_def stopped_def)
    next
      case (3 e' x r)
      then show ?case
        using assms adv [OF 3(2,3)] written_fixed [OF 3(3)] is_exception [OF 3(4)] present_written [OF 3(3)]
        by (auto simp: recovered_def stopped_def)
    qed
  qed
qed

lemma returns_journal_step [simp]: "returns (journal_step path new ch) c"
  by (auto simp: journal_step_def intro!: returns_zoom split: prod.split)

lemma returns_keep_artifact [simp]: "returns (keep_artifact path n m) c"
  by (auto simp: keep_artifact_def sys_call_def save_artifact_def intro!: returns_andthen returns_zoom)

lemma wpr_fault_hook:
  "wpr t (fault_hook hook b) Q E c \<longleftrightarrow> (case hook b (current c) of None \<Rightarrow> Q () c | Some e \<Rightarrow> E e c)"
  by (simp add: fault_hook_def wpr_simps split: option.split)

lemma returns_mark_recovery: "returns (mark_recovery path e) c"
  by (auto simp: mark_recovery_def intro!: returns_andthen returns_try_except)

lemma wpr_swallowed:
  "wpr t (run_if b (try_except Exception m (\<lambda>_. ret ()))) Q E c \<longleftrightarrow>
    (if b then wpr t m Q (\<lambda>e c'. if isinstance e Exception then Q () c' else E e c') c else Q () c)"
  by (simp add: run_if_def wpr_simps)

lemma wpr_switch_call:
  "wpr t (switch_call ev m) Q E c \<longleftrightarrow>
    wpr t m (\<lambda>a s. Q a (c\<lparr>trace := trace c @ [(ev, system c)], switch := s\<rparr>))
      (\<lambda>e s. E e (c\<lparr>trace := trace c @ [(ev, system c)], switch := s\<rparr>)) (switch c)"
  by (simp add: switch_call_def wpr_simps)

lemma wpr_gba_call:
  "wpr t (gba_call ev m) Q E c \<longleftrightarrow>
    wpr t m (\<lambda>a s. Q a (c\<lparr>trace := trace c @ [(ev, system c)], gba := s\<rparr>))
      (\<lambda>e s. E e (c\<lparr>trace := trace c @ [(ev, system c)], gba := s\<rparr>)) (gba c)"
  by (simp add: gba_call_def wpr_simps)

lemma only_closes_refl [simp]: "only_closes c c"
  by (simp add: only_closes_def)

lemma only_closes_step:
  "only_closes c c' \<Longrightarrow> ev \<in> {GbaClose, SwitchClose} \<Longrightarrow>
   only_closes c (c'\<lparr>trace := trace c' @ [(ev, w)], switch := s, gba := g\<rparr>)"
  by (auto simp: only_closes_def)

lemma wp_close_gba:
  assumes "only_closes c c'" and "\<And>x. only_closes c x \<Longrightarrow> Q () x" and "\<And>e x. only_closes c x \<Longrightarrow> E e x"
  shows "wp (run_if b (try_except Exception (gba_call GbaClose (gba_close gb)) (\<lambda>_. ret ()))) Q E c'"
proof -
  have x: "only_closes c (c'\<lparr>trace := trace c' @ [(GbaClose, w)], gba := g\<rparr>)" for w g
    using only_closes_step [OF assms(1), where ev = GbaClose and w = w and s = "switch c'" and g = g]
    by simp
  show ?thesis
    unfolding wp_run_if wp_try_except gba_call_def wp_andthen wp_modify wp_zoom wp_ret
    using assms x by (auto intro!: wp_any)
qed

lemma wp_close_switch:
  assumes "only_closes c c'" and "\<And>x. only_closes c x \<Longrightarrow> Q () x" and "\<And>e x. only_closes c x \<Longrightarrow> E e x"
  shows "wp (run_if b (try_except Exception (switch_call SwitchClose (switch_close sw)) (\<lambda>_. ret ()))) Q E c'"
proof -
  have x: "only_closes c (c'\<lparr>trace := trace c' @ [(SwitchClose, w)], switch := s\<rparr>)" for w s
    using only_closes_step [OF assms(1), where ev = SwitchClose and w = w and s = s and g = "gba c'"]
    by simp
  show ?thesis
    unfolding wp_run_if wp_try_except switch_call_def wp_andthen wp_modify wp_zoom wp_ret
    using assms x by (auto intro!: wp_any)
qed

lemma wp_close_both: "wp (close_both sw gb) (\<lambda>_. only_closes c) (\<lambda>_. only_closes c) c"
  unfolding close_both_def wp_andthen wp_gets
  by (rule wp_close_gba [where c = c], simp) (rule wp_close_switch, simp_all)

text \<open>What closing raises is no \<open>Exception\<close>.\<close>

lemma wp_close_raises:
  fixes c :: "('s, 'g) run"
  shows "wp (close_both sw gb) (\<lambda>_ _. True) (\<lambda>e _. \<not> isinstance e Exception) c"
proof -
  have swallow: "wp (run_if b (try_except Exception m (\<lambda>_. ret ()))) (\<lambda>_ _. True) (\<lambda>e _. \<not> isinstance e Exception) x"
    for b x and m :: "(('s, 'g) run, unit) prog"
    by (auto simp: wp_def run_if_def ret_def try_except_def split: option.split sum.split)
  show ?thesis
    unfolding close_both_def wp_andthen wp_gets
    by (rule wp_mono [OF swallow]) (use swallow in simp_all)
qed

locale escrow = sw: switch_contract sw sclosed sready wild + gb: gba_contract gb gfresh gready gtraded gclosed wild
  for sw :: "'s switch_endpoint" and sclosed sready
    and gb :: "'g gba_endpoint" and gfresh gready gtraded gclosed and wild +
  fixes path :: "string list" and hook :: hook and f :: "nat \<Rightarrow> string option" and p :: pokemon100
  assumes quiet_hook: "\<not> wild \<Longrightarrow> hook b r = None"
begin

text \<open>Without \<open>wild\<close> and without failing calls a run is sure to come back.\<close>

definition sure :: bool where
  "sure \<longleftrightarrow> \<not> wild \<and> f = (\<lambda>_. None)"

lemma delivered: "delivers wild m Q w \<Longrightarrow> wpr sure m (\<lambda>a w'. wild \<or> Q a w') (\<lambda>_ _. wild) w"
  by (rule delivers_wpr) (simp_all add: sure_def)

text \<open>The GBA session before its trade and after.\<close>

definition has_traded :: "ledger \<Rightarrow> bool" where
  "has_traded l \<longleftrightarrow> (\<exists>m. GbaTrade m \<in> set (made l))"

definition in_hand :: "ledger \<Rightarrow> pokemon100 \<Rightarrow> 'g \<Rightarrow> bool" where
  "in_hand l = (if has_traded l then gtraded else gready)"

lemma in_hand_simps [simp]:
  "in_hand (enter ch l) = in_hand l" "in_hand (keep n m l) = in_hand l"
  "in_hand (call SwitchWait l) = in_hand l" "in_hand (call (SwitchTrade m) l) = in_hand l"
  "in_hand (call SwitchConnect l) = in_hand l" "in_hand (call GbaConnect l) = in_hand l"
  "in_hand (call (GbaTrade m) l) = gtraded"
  by (auto simp: in_hand_def has_traded_def fun_eq_iff)

lemma not_yet_traded: "in_order p (made l @ [GbaTrade m]) \<Longrightarrow> \<not> has_traded l"
  by (auto simp: in_order_def script_def has_traded_def prefix_def append_eq_Cons_conv Cons_eq_append_conv
      dest!: sym [of "[SwitchConnect, GbaConnect, SwitchWait, SwitchTrade p]"])

lemma ledger0_in_hand [simp]: "in_hand (ledger0 p) = gready"
  by (simp add: in_hand_def has_traded_def)

text \<open>Both sessions are open, the Switch owns \<open>x\<close>, the GBA \<open>y\<close>; \<open>failed\<close> where a run breaks off.\<close>

definition opened :: "ledger \<Rightarrow> pokemon100 \<Rightarrow> pokemon100 \<Rightarrow> ('s, 'g) run \<Rightarrow> bool" where
  "opened l x y c \<longleftrightarrow> agrees path f l c \<and> in_order p (made l) \<and>
     switch_connected c \<and> gba_connected c \<and>
     (wild \<or> sready x (switch c)) \<and> (wild \<or> in_hand l y (gba c))"

definition failed :: "('s, 'g) run \<Rightarrow> bool" where
  "failed c \<longleftrightarrow> stopped path f p c \<and> (wild \<or> f \<noteq> (\<lambda>_. None))"

lemma opened_failed: "opened l x y c \<Longrightarrow> stage l < 9 \<Longrightarrow> wild \<Longrightarrow> failed c"
  unfolding opened_def failed_def by (auto simp: agrees_stopped)

lemma step:
  assumes "opened l x y c" and "stage l < 9" and "new = forward ! Suc (stage l)" and "supported ch l"
    and "\<And>c'. opened (enter ch l) x y c' \<Longrightarrow> Q () c'"
  shows "wpr sure (journal_step path new ch) Q (\<lambda>_. failed) c"
  by (rule wprI, rule wp_journal_step [of path f l c ch p])
    (use assms in \<open>auto simp: opened_def failed_def\<close>)

lemma hooked:
  assumes "opened l x y c" and "stage l < 9" and "Q () c"
  shows "wpr sure (fault_hook hook b) Q (\<lambda>_. failed) c"
proof (cases "hook b (current c)")
  case (Some e)
  then have "wild" using quiet_hook by (metis option.distinct(1))
  then show ?thesis using opened_failed [OF assms(1,2)] Some by (simp add: wpr_fault_hook)
qed (use assms(3) in \<open>simp add: wpr_fault_hook\<close>)

lemma check:
  assumes "opened l x y c" and "stage l < 9" and "wild \<or> r = Inr ()" and "r = Inr () \<Longrightarrow> Q () c"
  shows "wpr sure (lift r) Q (\<lambda>_. failed) c"
  using assms opened_failed [OF assms(1,2)] by (auto simp: wpr_basic split: sum.split)

lemma save:
  assumes "opened l x y c" and "stage l < 9" and "unused n l"
    and "\<And>c'. opened (keep n m l) x y c' \<Longrightarrow> Q () c'"
  shows "wpr sure (keep_artifact path n m) Q (\<lambda>_. failed) c"
  by (rule wprI, rule wp_keep_artifact [of path f l c n p])
    (use assms in \<open>auto simp: opened_def failed_def\<close>)

lemma switch_op:
  assumes "agrees path f l c" and "stage l < 9" and "in_order p (made l @ [ev])"
    and "guarded_call path ev (system c)" and "wild \<or> delivers wild m R (switch c)"
    and "\<And>a s c'. wild \<or> R a s \<Longrightarrow> agrees path f (call ev l) c' \<Longrightarrow> switch c' = s \<Longrightarrow> gba c' = gba c \<Longrightarrow>
      switch_connected c' = switch_connected c \<Longrightarrow> gba_connected c' = gba_connected c \<Longrightarrow> Q a c'"
  shows "wpr sure (switch_call ev m) Q (\<lambda>_. failed) c"
proof -
  have c': "agrees path f (call ev l) (c\<lparr>trace := trace c @ [(ev, system c)], switch := s\<rparr>)" for s
    using agrees_call [OF assms(1,4), where s = s and g = "gba c"] by simp
  have "stopped path f p (c\<lparr>trace := trace c @ [(ev, system c)], switch := s\<rparr>)" for s
    by (rule agrees_stopped [OF c']) (use assms(2,3) in simp_all)
  then have bad: "wild \<Longrightarrow> failed (c\<lparr>trace := trace c @ [(ev, system c)], switch := s\<rparr>)" for s
    unfolding failed_def by simp
  have m: "delivers wild m R (switch c)" using assms(5) by (auto simp: delivers_def)
  show ?thesis
    unfolding wpr_switch_call
  proof (rule wpr_mono [OF delivered [OF m]], goal_cases)
    case (1 a s)
    then show ?case by (intro assms(6) [OF _ c']) simp_all
  next
    case (2 e s)
    then show ?case using bad by simp
  qed
qed

lemma gba_op:
  assumes "agrees path f l c" and "stage l < 9" and "in_order p (made l @ [ev])"
    and "guarded_call path ev (system c)" and "wild \<or> delivers wild m R (gba c)"
    and "\<And>a s c'. wild \<or> R a s \<Longrightarrow> agrees path f (call ev l) c' \<Longrightarrow> gba c' = s \<Longrightarrow> switch c' = switch c \<Longrightarrow>
      switch_connected c' = switch_connected c \<Longrightarrow> gba_connected c' = gba_connected c \<Longrightarrow> Q a c'"
  shows "wpr sure (gba_call ev m) Q (\<lambda>_. failed) c"
proof -
  have c': "agrees path f (call ev l) (c\<lparr>trace := trace c @ [(ev, system c)], gba := g\<rparr>)" for g
    using agrees_call [OF assms(1,4), where s = "switch c" and g = g] by simp
  have "stopped path f p (c\<lparr>trace := trace c @ [(ev, system c)], gba := g\<rparr>)" for g
    by (rule agrees_stopped [OF c']) (use assms(2,3) in simp_all)
  then have bad: "wild \<Longrightarrow> failed (c\<lparr>trace := trace c @ [(ev, system c)], gba := s\<rparr>)" for s
    unfolding failed_def by simp
  have m: "delivers wild m R (gba c)" using assms(5) by (auto simp: delivers_def)
  show ?thesis
    unfolding wpr_gba_call
  proof (rule wpr_mono [OF delivered [OF m]], goal_cases)
    case (1 a s)
    then show ?case by (intro assms(6) [OF _ c']) simp_all
  next
    case (2 e s)
    then show ?case using bad by simp
  qed
qed

lemma waited:
  assumes "opened l x y c" and "stage l < 9" and "in_order p (made l @ [SwitchWait])"
    and "\<And>c'. opened (call SwitchWait l) x y c' \<Longrightarrow> Q () c'"
  shows "wpr sure (switch_call SwitchWait (switch_wait sw)) Q (\<lambda>_. failed) c"
proof (rule switch_op [where R = "\<lambda>_. sready x"])
  show "wild \<or> delivers wild (switch_wait sw) (\<lambda>_. sready x) (switch c)"
    using assms(1) sw.wait by (auto simp: opened_def)
qed (use assms in \<open>auto simp: opened_def\<close>)

definition sound :: "'z trade_result_scheme \<Rightarrow> pokemon100 \<Rightarrow> pokemon100 \<Rightarrow> bool" where
  "sound res m x \<longleftrightarrow> wild \<or> offered_mon res = m \<and> received_mon res = x \<and> commit_confirmed res"

lemma backed_ready:
  assumes "opened l x y c" and "refuse_mail m = Inr ()" and "(n, m) \<in> kept l"
    and "hash_of l n = Some (Some (sha256 m))" and "forward ! stage l \<in> S"
  shows "backed path (system c) S m"
proof -
  have a: "agrees path f l c" using assms(1) by (simp add: opened_def)
  show ?thesis
    unfolding backed_def
    using a assms(2-5) agrees_state [OF a]
    by (intro conjI exI [of _ "current c"] exI [of _ n]) (auto simp: agrees_def)
qed

lemma switch_traded:
  assumes "opened l x y c" and "stage l < 9" and "in_order p (made l @ [SwitchTrade m])"
    and "refuse_mail m = Inr ()" and "(n, m) \<in> kept l" and "hash_of l n = Some (Some (sha256 m))"
    and "forward ! stage l \<in> {SWITCH_STAGE1_STARTED, SWITCH_STAGE2_STARTED}"
    and "\<And>res c'. opened (call (SwitchTrade m) l) m y c' \<Longrightarrow> sound res m x \<Longrightarrow> Q res c'"
  shows "wpr sure (switch_call (SwitchTrade m) (switch_trade sw m)) Q (\<lambda>_. failed) c"
proof (rule switch_op [where R = "\<lambda>res s. sound res m x \<and> sready m s"])
  have "wild \<or> sready x (switch c)" using assms(1) by (simp add: opened_def)
  then show "wild \<or> delivers wild (switch_trade sw m) (\<lambda>res s. sound res m x \<and> sready m s) (switch c)"
    using sw.trade [of x "switch c" m] assms(4) by (auto simp: delivers_def sound_def)
  show "guarded_call path (SwitchTrade m) (system c)"
    using backed_ready [OF assms(1,4-7)] by simp
  fix res :: trade_result and s c'
  assume c': "wild \<or> sound res m x \<and> sready m s" "agrees path f (call (SwitchTrade m) l) c'" "switch c' = s"
    "gba c' = gba c" "switch_connected c' = switch_connected c" "gba_connected c' = gba_connected c"
  have "sound res m x" using c'(1) unfolding sound_def by blast
  then show "Q res c'" by (rule assms(8) [rotated]) (use c' assms(1,3) in \<open>auto simp: opened_def\<close>)
qed (use assms in \<open>simp_all add: opened_def\<close>)

lemma gba_traded:
  assumes "opened l x y c" and "stage l < 9" and "in_order p (made l @ [GbaTrade m])"
    and "refuse_mail m = Inr ()" and "(n, m) \<in> kept l" and "hash_of l n = Some (Some (sha256 m))"
    and "forward ! stage l = GBA_STAGE_STARTED"
    and "\<And>res c'. opened (call (GbaTrade m) l) x m c' \<Longrightarrow> sound res m y \<Longrightarrow>
      wild \<or> 0 \<le> selected_slot res \<and> selected_slot res \<le> 5 \<and> link_closed res \<Longrightarrow> Q res c'"
  shows "wpr sure (gba_call (GbaTrade m) (gba_trade gb m)) Q (\<lambda>_. failed) c"
proof (rule gba_op [where R = "\<lambda>res s. sound res m y \<and>
    (0 \<le> selected_slot res \<and> selected_slot res \<le> 5 \<and> link_closed res) \<and> gtraded m s"])
  have "wild \<or> gready y (gba c)"
    using assms(1) not_yet_traded [OF assms(3)] by (simp add: opened_def in_hand_def)
  then show "wild \<or> delivers wild (gba_trade gb m) (\<lambda>res s. sound res m y \<and>
      (0 \<le> selected_slot res \<and> selected_slot res \<le> 5 \<and> link_closed res) \<and> gtraded m s) (gba c)"
    using gb.trade [of y "gba c" m] assms(4) by (fastforce simp: delivers_def sound_def)
  show "guarded_call path (GbaTrade m) (system c)"
    using backed_ready [OF assms(1,4-6), of "{GBA_STAGE_STARTED}"] assms(7) by simp
  fix res :: gba_trade_result and s c'
  assume c': "wild \<or> sound res m y \<and>
      (0 \<le> selected_slot res \<and> selected_slot res \<le> 5 \<and> link_closed res) \<and> gtraded m s"
    "agrees path f (call (GbaTrade m) l) c'" "gba c' = s"
    "switch c' = switch c" "switch_connected c' = switch_connected c" "gba_connected c' = gba_connected c"
  have "sound res m y" using c'(1) unfolding sound_def by blast
  then show "Q res c'" by (rule assms(8) [rotated]) (use c' assms(1,3) in \<open>auto simp: opened_def\<close>)
qed (use assms in \<open>simp_all add: opened_def\<close>)

lemma wpr_stage1:
  assumes "opened (ledger1 p) x y c" and "refuse_mail p = Inr ()" and "wild \<or> refuse_mail x = Inr ()"
    and "\<And>b c'. opened (ledger2 p b) p y c' \<Longrightarrow> refuse_mail b = Inr () \<Longrightarrow> wild \<or> b = x \<Longrightarrow> Q b c'"
  shows "wpr sure (stage1 path sw hook p) Q (\<lambda>_. failed) c"
  unfolding stage1_def wpr_andthen wpr_ret
  apply (rule step [OF assms(1)], simp, simp add: forward_def, simp)
  apply (rule hooked, assumption, simp)
  apply (rule waited, assumption, simp, simp add: in_order_def script_def)
  apply (rule switch_traded [where n = "''P''"], assumption, simp, simp add: in_order_def script_def,
      rule assms(2), simp, simp, simp add: forward_def)
  apply (rule hooked, assumption, simp)
  apply (rule check, assumption, simp, fastforce simp: sound_def validate_result_def)
  apply (rule check, assumption, simp, use assms(3) in \<open>fastforce simp: sound_def\<close>)
  apply (rule save, assumption, simp, simp add: unused_def artifact_labels_def)
  apply (rule step, assumption, simp, simp add: forward_def,
      simp add: supported_def b_captured_def noted_def slot_ok_def)
  apply (rule step, assumption, simp, simp add: forward_def, simp)
  apply (rule hooked, assumption, simp)
  apply (rule assms(4), simp add: ledger2_def, simp, auto simp: sound_def)
  done

lemma wpr_gba_stage:
  assumes "opened (ledger2 p b) x y c" and "refuse_mail b = Inr ()" and "wild \<or> refuse_mail y = Inr ()"
    and "\<And>res c'. opened (ledger3 p b res) x b c' \<Longrightarrow> refuse_mail (received_mon res) = Inr () \<Longrightarrow>
      wild \<or> received_mon res = y \<Longrightarrow> Q (received_mon res) c'"
  shows "wpr sure (gba_stage path gb hook b) Q (\<lambda>_. failed) c"
  unfolding gba_stage_def wpr_andthen wpr_ret
  apply (rule step [OF assms(1)], simp, simp add: forward_def, simp)
  apply (rule hooked, assumption, simp)
  apply (rule gba_traded [where n = "''B''"], assumption, simp, simp add: in_order_def script_def,
      rule assms(2), simp, simp, simp add: forward_def)
  apply (rule hooked, assumption, simp)
  apply (rule check, assumption, simp, fastforce simp: sound_def validate_result_def validate_gba_result_def)
  apply (rule check, assumption, simp, use assms(3) in \<open>fastforce simp: sound_def\<close>)
  apply (rule save, assumption, simp, simp add: unused_def artifact_labels_def)
  apply (rule step, assumption, simp, simp add: forward_def,
      simp add: supported_def a_captured_def noted_def slot_ok_def validate_gba_result_def
        split: sum.splits if_splits)
  apply (rule step, assumption, simp, simp add: forward_def, simp)
  apply (rule hooked, assumption, simp)
  apply (rule assms(4), simp add: ledger3_def, simp, auto simp: sound_def)
  done

lemma wpr_stage2:
  assumes "opened (ledger3 p b res) x y c" and "refuse_mail (received_mon res) = Inr ()" and "wild \<or> x = p"
    and "\<And>c'. opened (ledger4 p b res) (received_mon res) y c' \<Longrightarrow> Q p c'"
  shows "wpr sure (stage2 path sw hook p (received_mon res)) Q (\<lambda>_. failed) c"
  unfolding stage2_def wpr_andthen wpr_if wpr_ret wpr_raise
  apply (rule step [OF assms(1)], simp, simp add: forward_def, simp)
  apply (rule hooked, assumption, simp)
  apply (rule waited, assumption, simp, simp add: in_order_def script_def)
  apply (rule switch_traded [where n = "''A''"], assumption, simp, simp add: in_order_def script_def,
      rule assms(2), simp, simp, simp add: forward_def)
  apply (rule hooked, assumption, simp)
  apply (rule check, assumption, simp, fastforce simp: sound_def validate_result_def)
  apply (rule save, assumption, simp, simp add: unused_def artifact_labels_def)
  apply (rule step, assumption, simp, simp add: forward_def,
      simp add: supported_def a_committed_def noted_def slot_ok_def)
  apply (rule hooked, assumption, simp)
  apply (split if_split, intro conjI impI)
   apply (rule opened_failed, assumption, simp, use assms(3) in \<open>fastforce simp: sound_def\<close>)
  apply (rule step, assumption, simp, simp add: forward_def,
      simp add: supported_def exchange_complete_def noted_def slot_ok_def)
  apply (simp, rule assms(4), simp add: ledger4_def)
  done

definition started :: "pokemon100 \<Rightarrow> pokemon100 \<Rightarrow> ('s, 'g) run \<Rightarrow> bool" where
  "started x y c \<longleftrightarrow> agrees path f (ledger0 p) c \<and>
     (wild \<or> sclosed x (switch c)) \<and> (wild \<or> gfresh y (gba c))"

lemma wpr_connect_both:
  assumes "started x y c" and "\<And>c'. opened (ledger1 p) x y c' \<Longrightarrow> Q () c'"
  shows "wpr sure (connect_both sw gb) Q (\<lambda>_. failed) c"
  unfolding connect_both_def wpr_andthen
proof (rule switch_op [where R = "\<lambda>_. sready x" and l = "ledger0 p"], goal_cases)
  case 5
  show ?case using assms(1) sw.connect by (auto simp: started_def)
next
  case (6 _ s c1)
  let ?c = "c1\<lparr>switch_connected := True\<rparr>"
  have a: "agrees path f (call SwitchConnect (ledger0 p)) ?c" using 6(2) by (simp add: agrees_def)
  have "wpr sure (gba_call GbaConnect (gba_connect gb))
      (\<lambda>_. wpr sure (modify (\<lambda>c. c\<lparr>gba_connected := True\<rparr>)) Q (\<lambda>_. failed)) (\<lambda>_. failed) ?c"
  proof (rule gba_op [where R = "\<lambda>_. gready y", OF a], goal_cases)
    case 4
    show ?case using assms(1) 6(4) gb.connect by (auto simp: started_def)
  next
    case (5 _ g c2)
    have "opened (ledger1 p) x y (c2\<lparr>gba_connected := True\<rparr>)"
      using 5 6(1,3) by (simp add: opened_def agrees_def ledger1_def in_order_def script_def)
    then show ?case by (simp add: wpr_basic assms(2))
  qed (simp_all add: in_order_def script_def)
  then show ?case by (simp add: wpr_basic)
qed (use assms(1) in \<open>simp_all add: started_def in_order_def script_def\<close>)

text \<open>A finished exchange: the journal is complete, all four records are kept, the owners swapped.\<close>

definition swapped :: "pokemon100 \<Rightarrow> pokemon100 \<Rightarrow> transaction_outcome \<Rightarrow> ('s, 'g) run \<Rightarrow> bool" where
  "swapped x y out c \<longleftrightarrow> (\<exists>b res. opened (ledger4 p b res) (received_mon res) b c \<and>
     refuse_mail b = Inr () \<and> refuse_mail (received_mon res) = Inr () \<and>
     (wild \<or> b = x \<and> received_mon res = y) \<and>
     out = \<lparr>outcome_id = tx_id (current c), gba_mon = b, switch_mon = received_mon res, broker_mon = p\<rparr>)"

lemma wpr_exchange:
  assumes "started x y c" and "refuse_mail p = Inr ()"
    and "wild \<or> refuse_mail x = Inr ()" and "wild \<or> refuse_mail y = Inr ()"
  shows "wpr sure (exchange path sw gb hook p) (swapped x y) (\<lambda>_. failed) c"
  unfolding exchange_def wpr_andthen wpr_basic
  apply (rule wpr_connect_both [OF assms(1)])
  apply (rule wpr_stage1 [OF _ assms(2,3)], assumption)
  apply (rule wpr_gba_stage, assumption, assumption, rule assms(4))
  apply (rule wpr_stage2, assumption, assumption, simp)
  apply (unfold swapped_def, blast)
  done

lemma wpr_close_opened:
  assumes "opened l x y c" and "has_traded l"
  shows "wpr sure (close_both sw gb)
    (\<lambda>_ c'. system c' = system c \<and> current c' = current c \<and>
      trace c' = trace c @ [(GbaClose, system c), (SwitchClose, system c)] \<and>
      (wild \<or> sclosed x (switch c') \<and> gclosed y (gba c')))
    (\<lambda>_ _. wild) c"
proof -
  have "delivers wild (gba_close gb) (\<lambda>_. gclosed y) (gba c)"
    using assms gb.close [of y "gba c"] unfolding opened_def delivers_def in_hand_def by auto
  note g = delivered [OF this]
  have "delivers wild (switch_close sw) (\<lambda>_. sclosed x) (switch c)"
    using assms(1) sw.close [of x "switch c"] unfolding opened_def delivers_def by blast
  note s = delivered [OF this]
  have flags: "gba_connected c" "switch_connected c" using assms by (simp_all add: opened_def)
  show ?thesis
    unfolding close_both_def wpr_andthen wpr_basic wpr_swallowed
    by (simp add: flags wpr_gba_call wpr_switch_call) (auto intro!: wpr_mono [OF g] wpr_mono [OF s])
qed

lemma created_started:
  assumes "wf_os w" and "fault w = f" and "durable w path (journal_bytes (new_record at u p))"
    and "durable w (artifact_path path (uuid_str u) ''P'' p) (raw p)" and "trace c = []"
    and "wild \<or> sclosed x (switch c)" and "wild \<or> gfresh y (gba c)"
  shows "started x y (c\<lparr>system := w, current := new_record at u p, gba_connected := False,
    switch_connected := False\<rparr>)"
proof -
  have "evidence path w (new_record at u p)"
    using assms(4) by (auto simp: evidence_def new_record_def split: if_splits)
  moreover have "map entry_state (history (new_record at u p)) = map state_value (take (Suc 0) forward)"
    by (simp add: new_record_def forward_def)
  moreover have "map_of (hashes (new_record at u p)) = hash_of (ledger0 p)"
    "map_of (locations (new_record at u p)) = place_of (ledger0 p)"
    by (simp_all add: new_record_def ledger0_def fun_upd_twist)
  moreover have "gba_slot (new_record at u p) = slot_of (ledger0 p)"
    by (simp add: new_record_def ledger0_def)
  ultimately show ?thesis
    using assms by (simp add: started_def agrees_def wf_new_record new_record_tx)
qed

end

end
