(* ===== verification/Journal_Spec.thy ===== *)
theory Journal_Spec
  imports Journal
begin

text \<open>
  What \<open>JournalStore\<close> promises: when a transition is accepted and what it leaves on disk, the journal
  as a durable history of the record, the way of a record to the file and back, and what a new start
  finds.
\<close>

section \<open>Restart\<close>

text \<open>What a start may leave at the journal's path: what was there, or a journal in recovery.\<close>

definition kept_or_recovery :: "string list \<Rightarrow> os \<Rightarrow> os \<Rightarrow> bool" where
  "kept_or_recovery path w x \<longleftrightarrow> contents x (Path path) = contents w (Path path) \<or>
     (\<exists>r. jstate r = state_value RECOVERY_REQUIRED \<and> contents x (Path path) = Some (journal_bytes r))"

lemma kept_or_recovery_refl [simp]: "kept_or_recovery path w w"
  by (simp add: kept_or_recovery_def)

lemma kept_or_recovery_calls [simp]: "kept_or_recovery path w (x\<lparr>calls := n\<rparr>) = kept_or_recovery path w x"
  by (simp add: kept_or_recovery_def)

lemma wp_load_calls:
  assumes "\<And>r n. Q r (w\<lparr>calls := n\<rparr>)" and "\<And>e n. E e (w\<lparr>calls := n\<rparr>)"
  shows "wp (load path) Q E w"
  by (rule wp_load) (rule assms)+

lemma jstate_advance [simp]: "jstate (advance new ch at r) = state_value new"
  by (simp add: advance_def)

lemma written_recovery:
  assumes "written w x path (journal_bytes (advance RECOVERY_REQUIRED ch at r))"
  shows "kept_or_recovery path w x"
proof -
  have "contents x (Path path) \<in> {contents w (Path path), Some (journal_bytes (advance RECOVERY_REQUIRED ch at r))}"
    using assms by (simp add: written_def)
  then show ?thesis using jstate_advance unfolding kept_or_recovery_def by blast
qed

lemma wp_mark_restart:
  assumes "wf_os w"
  shows "wp (transition path RECOVERY_REQUIRED ch) (\<lambda>_ s. kept_or_recovery path w (snd s))
    (\<lambda>_ s. kept_or_recovery path w (snd s)) (r, w\<lparr>calls := n\<rparr>)"
proof -
  have "kept_or_recovery path (w\<lparr>calls := n\<rparr>) x = kept_or_recovery path w x" for x
    by (simp add: kept_or_recovery_def)
  note k = this [THEN iffD1]
  show ?thesis
    by (rule wp_transition)
      (use assms in \<open>auto intro: k written_recovery dest: stored_written\<close>)
qed

lemma wp_require_new_transaction:
  assumes "wf_os w"
  shows "wp (require_new_transaction path) (\<lambda>_ x. names w (Path path) = None \<and> (\<exists>n. x = w\<lparr>calls := n\<rparr>))
    (\<lambda>e x. kept_or_recovery path w x) w"
    (is "wp _ ?Q ?E w")
proof -
  have rest: "wp (load path) (\<lambda>r. wp (raise (f r)) ?Q ?E) ?E x"
    if "kept_or_recovery path w x" for x and f :: "journal_record \<Rightarrow> exn"
    by (rule wp_load_calls) (use that in \<open>simp_all add: wp_raise\<close>)
  have mark: "wp (with_record r (transition path RECOVERY_REQUIRED ch))
      (\<lambda>_. wp (load path) (\<lambda>r. wp (raise (f r)) ?Q ?E) ?E) ?E (w\<lparr>calls := n\<rparr>)"
    for r ch n and f :: "journal_record \<Rightarrow> exn"
    unfolding wp_with_record by (rule wp_mono [OF wp_mark_restart [OF assms]]) (simp_all add: rest)
  show ?thesis
    unfolding require_new_transaction_def wp_andthen
  proof (rule wp_store_exists, goal_cases)
    case (1 n)
    show ?case
    proof (cases "names w (Path path)")
      case None
      then show ?thesis by (auto simp: wp_ret)
    next
      case (Some i)
      have body: "wp (andthen (lift (state_enum r)) (\<lambda>s. andthen (if s \<notin> terminal_states
          then with_record r (transition path RECOVERY_REQUIRED (restart_change r)) else ret ())
          (\<lambda>_. andthen (load path) (\<lambda>r. raise (f r))))) ?Q ?E x"
        if "x = w\<lparr>calls := m\<rparr>" for r m x and f :: "journal_record \<Rightarrow> exn"
        unfolding that using mark [of r "restart_change r" f m] rest [of "w\<lparr>calls := m\<rparr>" f]
        by (simp add: wp_andthen_fun wp_andthen wp_lift wp_ret split: sum.split)
      have there: "(\<not> names w (Path path) \<noteq> None) = False" by (simp add: Some)
      show ?thesis
        unfolding there if_False wp_andthen by (rule wp_load_calls, rule body [unfolded wp_andthen]) simp_all
    qed
  qed simp
qed

lemma wp_require_raises:
  "wp (require_new_transaction path) (\<lambda>_ _. True) (\<lambda>_ _. names w (Path path) \<noteq> None \<or> fault w \<noteq> (\<lambda>_. None)) w"
  unfolding require_new_transaction_def wp_andthen
  by (rule wp_store_exists) (cases "names w (Path path)"; simp add: wp_ret)+

section \<open>Runs in which no call fails\<close>

abbreviation quiet :: "os \<Rightarrow> bool" where
  "quiet w \<equiv> fault w = (\<lambda>_. None)"

lemma sys_quiet: "quiet w \<Longrightarrow> sys f w = Some (f (w\<lparr>calls := Suc (calls w)\<rparr>), Inr ())"
  by (simp add: sys_def)

lemma store_exists_quiet:
  "quiet w \<Longrightarrow> store_exists path w = Some (w\<lparr>calls := Suc (calls w)\<rparr>, Inr (names w (Path path) \<noteq> None))"
  by (simp add: store_exists_def path_exists_def sys_quiet andthen_def gets_def)

lemma load_quiet:
  "quiet w \<Longrightarrow> contents w (Path path) = Some b \<Longrightarrow> parse_journal (path_str path) b = Some res \<Longrightarrow>
   load path w = Some (w\<lparr>calls := Suc (calls w)\<rparr>, res)"
  by (simp add: load_def read_bytes_def prog_defs sys_quiet checked_def)

lemma transition_quiet:
  assumes "quiet w" and "wf_os w" and "transition_check r new ch = Inr ()"
  shows "\<exists>x. transition path new ch (r, w) = Some ((advance new ch (clock w (calls w)) r, x), Inr ()) \<and>
    stored w x path (journal_bytes (advance new ch (clock w (calls w)) r))"
proof -
  obtain s res where run: "transition path new ch (r, w) = Some (s, res)"
    using returns_transition [of path new ch r w] by (auto simp: returns_def)
  have "wp (transition path new ch) (\<lambda>_ (r', x). r' = advance new ch (clock w (calls w)) r \<and>
      stored w x path (journal_bytes r')) (\<lambda>_ _. False) (r, w)"
    by (rule wp_transition) (use assms in simp_all)
  then show ?thesis using run by (cases res) (auto simp: wp_def)
qed

definition clock_ok :: "os \<Rightarrow> bool" where
  "clock_ok w \<longleftrightarrow> (\<forall>n. ascii_text (clock w n))"

lemma clock_ok_fresh [simp]: "clock_ok (fresh_os f)"
  by (simp add: clock_ok_def fresh_os_def)

lemma utf8_sorted_dicts: "utf8_record r \<Longrightarrow> utf8_record (sorted_dicts r)"
  by (simp add: utf8_record_def sorted_dicts_def)

lemma advance_utf8:
  assumes "utf8_record r" and "utf8_ok at" and "utf8_ok (ch_note ch)" and "pred_option utf8_ok (new_error ch)"
    and "new_hashes ch = []" and "new_locations ch = []"
  shows "utf8_record (advance new ch at r)"
  using assms by (auto simp: utf8_record_def advance_def dict_update_def utf8_ok_ascii)

lemma restart_check:
  assumes "jstate r = state_value s" and "s \<notin> terminal_states"
  shows "transition_check r RECOVERY_REQUIRED (restart_change q) = Inr ()"
  using assms by (auto simp: transition_check_ok restart_change_def noted_def slot_ok_def moves_simps)

lemma restart_utf8:
  assumes "utf8_record r" and "ascii_text at"
  shows "utf8_record (advance RECOVERY_REQUIRED (restart_change r) at r)"
  using assms
  by (intro advance_utf8)
    (simp_all add: restart_change_def noted_def utf8_ok_ascii utf8_record_def)

text \<open>A start on an intact journal, with \<open>r\<close> the record as it is read back.\<close>

lemma require_terminal:
  assumes "quiet w" and "contents w (Path path) = Some b"
    and "parse_journal (path_str path) b = Some (Inr r)" and "jstate r = state_value s" and "s \<in> terminal_states"
  shows "\<exists>x m. require_new_transaction path w = Some (x, Inl (Exn RecoveryRequired m)) \<and>
    contents x (Path path) = Some b"
proof -
  have "names w (Path path) \<noteq> None" using assms(2) by (auto simp: contents_def)
  then show ?thesis
    using assms
    by (simp add: require_new_transaction_def andthen_def store_exists_quiet load_quiet state_enum_def
        lift_def ret_def raise_def)
qed

lemma require_interrupted:
  assumes "quiet w" and "wf_os w" and "clock_ok w" and "contents w (Path path) = Some b"
    and "parse_journal (path_str path) b = Some (Inr r)" and "wf_record r" and "utf8_record r"
    and "jstate r = state_value s" and "s \<notin> terminal_states"
  shows "\<exists>x m at r'. require_new_transaction path w = Some (x, Inl (Exn RecoveryRequired m)) \<and>
    r' = advance RECOVERY_REQUIRED (restart_change r) at r \<and> durable x path (journal_bytes r')"
proof -
  have there: "names w (Path path) \<noteq> None" using assms(4) by (auto simp: contents_def)
  define v where "v = w\<lparr>calls := Suc (Suc (calls w))\<rparr>"
  have v: "quiet v" "wf_os v" "clock v = clock w" using assms(1,2) by (simp_all add: v_def)
  note check = restart_check [OF assms(8,9), of r]
  define r' where "r' = advance RECOVERY_REQUIRED (restart_change r) (clock v (calls v)) r"
  obtain x where x: "transition path RECOVERY_REQUIRED (restart_change r) (r, v) = Some ((r', x), Inr ())"
      "stored v x path (journal_bytes r')"
    using transition_quiet [OF v(1,2) check, of path] unfolding r'_def by blast
  have "wf_record r'" using advance_wf [OF assms(6) check] by (simp add: r'_def)
  moreover have "utf8_record r'"
    using assms(3,7) by (simp add: r'_def restart_utf8 clock_ok_def v(3))
  ultimately have "parse_journal (path_str path) (journal_bytes r') = Some (Inr (sorted_dicts r'))"
    by (simp add: parse_journal_bytes wf_record_readable)
  moreover have "quiet x" using x(2) v(1) by (simp add: stored_def written_def frame_os_def)
  moreover have "contents x (Path path) = Some (journal_bytes r')" using x(2) by (simp add: stored_def)
  ultimately have "load path x = Some (x\<lparr>calls := Suc (calls x)\<rparr>, Inr (sorted_dicts r'))"
    by (simp add: load_quiet)
  then have "\<exists>m. require_new_transaction path w =
      Some (x\<lparr>calls := Suc (calls x)\<rparr>, Inl (Exn RecoveryRequired m))"
    using assms there x(1)
    by (simp add: require_new_transaction_def andthen_def store_exists_quiet load_quiet state_enum_def
        lift_def raise_def with_record_def v_def)
  then show ?thesis
    using stored_durable [OF x(2)] r'_def by (metis durable_calls)
qed

section \<open>Properties\<close>

text \<open>A machine with one file, and a record just created, for the concrete runs.\<close>

definition one_file_os :: "string list \<Rightarrow> bytes \<Rightarrow> (nat \<Rightarrow> string option) \<Rightarrow> os" where
  "one_file_os path b f = (fresh_os f)\<lparr>inodes := (\<lambda>_. \<lparr>cache = b, disk = Some b\<rparr>),
     names := [Path path \<mapsto> 0], saved := (\<lambda>p. [if p = Path path then Some 0 else None]), next_inode := 1\<rparr>"

lemma one_file_os_simps [simp]:
  "wf_os (one_file_os path b f)" "fault (one_file_os path b f) = f"
  "contents (one_file_os path b f) (Path path) = Some b" "clock_ok (one_file_os path b f)"
  by (auto simp: one_file_os_def wf_os_def contents_def fresh_os_def clock_ok_def)

definition demo_record :: journal_record where
  "demo_record = new_record ''2025'' (Abs_uuid (replicate 16 0)) zero_pokemon"

lemma ascii_uuid_str [simp]: "ascii_text (uuid_str u)"
  by (simp add: uuid_str_def Let_def)

lemma ascii_sha256 [simp]: "ascii_text (sha256 p)"
  by (simp add: sha256_def sha256_hex_def)

lemma utf8_new_record:
  assumes "utf8_ok at"
  shows "utf8_record (new_record at u p)"
  using assms by (simp add: utf8_record_def new_record_def utf8_ok_ascii)

lemma demo_record [simp]: "wf_record demo_record" "utf8_record demo_record"
  "jstate demo_record = state_value IDLE"
  by (simp_all add: demo_record_def wf_new_record utf8_new_record) (simp add: new_record_def)

text \<open>
  C11. What \<open>transition\<close> does. It always comes back. It accepts exactly the moves of the state graph
  (the successor of the current state, or \<open>RECOVERY_REQUIRED\<close> from a state that is not terminal)
  whose hashes are of known labels and change no captured one, and whose slot is absent or 0 to 5.
  Then the record is advanced, and either the new version is durably at the journal's path or, if a
  call failed, the path has its old contents or the new version and the caller gets a
  \<open>JournalError\<close> or \<open>OSError\<close>. Otherwise nothing changes, neither the record nor the files.
\<close>

theorem transition_behaviour:
  assumes "wf_os w"
  shows "\<exists>r' x res. transition path new ch (r, w) = Some ((r', x), res) \<and>
    (if (\<exists>s. jstate r = state_value s \<and> moves s new) \<and>
        (\<forall>(k, v) \<in> set (new_hashes ch). \<exists>old. map_of (hashes r) k = Some old \<and> (old = None \<or> v = old)) \<and>
        slot_ok (new_slot ch)
     then r' = advance new ch (clock w (calls w)) r \<and>
       (case res of
          Inr _ \<Rightarrow> durable x path (journal_bytes r')
        | Inl e \<Rightarrow> class_of e \<in> {JournalError, OSError} \<and> (\<exists>n. fault w n \<noteq> None) \<and>
            contents x (Path path) \<in> {contents w (Path path), Some (journal_bytes r')})
     else r' = r \<and> x = w \<and> (\<exists>e. res = Inl e \<and> class_of e \<in> {ValueError, InvalidTransition, JournalError}))"
proof -
  obtain s res where run: "transition path new ch (r, w) = Some (s, res)"
    using returns_transition [of path new ch r w] by (auto simp: returns_def)
  show ?thesis
  proof (cases "transition_check r new ch")
    case (Inl e)
    then show ?thesis
      using transition_rejected [OF Inl, of path w] transition_check_errors [OF Inl]
        transition_check_ok [of r new ch] by (auto simp: check_hashes_ok)
  next
    case (Inr u)
    let ?r = "advance new ch (clock w (calls w)) r"
    have ok: "transition_check r new ch = Inr ()" using Inr by simp
    have "wp (transition path new ch) (\<lambda>_ (r', x). r' = ?r \<and> durable x path (journal_bytes ?r))
        (\<lambda>e (r', x). r' = ?r \<and> class_of e \<in> {JournalError, OSError} \<and> (\<exists>n. fault w n \<noteq> None) \<and>
          contents x (Path path) \<in> {contents w (Path path), Some (journal_bytes ?r)}) (r, w)"
      by (rule wp_transition)
        (use assms ok in \<open>auto simp: fun_eq_iff written_def intro: stored_durable\<close>)
    then show ?thesis
      using run ok [unfolded transition_check_ok check_hashes_ok]
      by (cases res; cases s) (simp_all add: wp_def)
  qed
qed

lemma transition_behaviour_witness:
  "(\<exists>r' x. transition [''j''] SWITCH_STAGE1_STARTED (noted ''go'') (demo_record, fresh_os (\<lambda>_. None)) =
      Some ((r', x), Inr ()) \<and> durable x [''j''] (journal_bytes r')) \<and>
   (\<exists>e. transition [''j''] COMPLETE (noted ''skip'') (demo_record, fresh_os (\<lambda>_. None)) =
      Some ((demo_record, fresh_os (\<lambda>_. None)), Inl e))"
proof
  have go: "moves IDLE SWITCH_STAGE1_STARTED" "\<not> moves IDLE COMPLETE"
    by (simp_all add: moves_simps)
  have ch: "new_hashes (noted n) = []" "slot_ok (new_slot (noted n))" for n
    by (simp_all add: noted_def slot_ok_def)
  obtain r' x res where "transition [''j''] SWITCH_STAGE1_STARTED (noted ''go'') (demo_record, fresh_os (\<lambda>_. None)) =
      Some ((r', x), res)" "case res of Inr _ \<Rightarrow> durable x [''j''] (journal_bytes r') | Inl e \<Rightarrow> False"
    using transition_behaviour [OF wf_fresh_os, of "[''j'']" SWITCH_STAGE1_STARTED "noted ''go''" demo_record "\<lambda>_. None"] go ch
    by (auto cong: sum.case_cong)
  then show "\<exists>r' x. transition [''j''] SWITCH_STAGE1_STARTED (noted ''go'') (demo_record, fresh_os (\<lambda>_. None)) =
      Some ((r', x), Inr ()) \<and> durable x [''j''] (journal_bytes r')"
    by (cases res) auto
  show "\<exists>e. transition [''j''] COMPLETE (noted ''skip'') (demo_record, fresh_os (\<lambda>_. None)) =
      Some ((demo_record, fresh_os (\<lambda>_. None)), Inl e)"
    using transition_behaviour [OF wf_fresh_os, of "[''j'']" COMPLETE "noted ''skip''" demo_record "\<lambda>_. None"] go
    by auto
qed

lemma journal_inv_start:
  "wf_os x \<Longrightarrow> wf_record r \<Longrightarrow> durable x path (journal_bytes r) \<Longrightarrow> journal_inv path r (r, x)"
  using grows_refl [of r] unfolding journal_inv_def durable_def by auto

text \<open>
  C12. The life of a journal. A record that \<open>create\<close> returned and that a client then puts through
  any transitions, whatever calls fail and whatever failures the client ignores, stays well-formed:
  its history is a walk through the state graph from \<open>IDLE\<close>, numbered from 0, its other fields agree
  with it, and a captured hash never changes. The file at the journal's path is always a complete
  version of this record, at most older than the one in memory, and the same holds of whatever a power
  loss leaves there.
\<close>

theorem journal_history:
  assumes "wf_os w" and "create path p w = Some (w1, Inr r)"
    and "attempts path changes (r, w1) = Some ((r', w2), res)"
  shows "wf_record r' \<and> grows r r' \<and>
    (\<exists>d. wf_record d \<and> grows r d \<and> grows d r' \<and> contents w2 (Path path) = Some (journal_bytes d)) \<and>
    (\<forall>c. survives w2 (Path path) c \<longrightarrow>
      (\<exists>d. wf_record d \<and> grows r d \<and> grows d r' \<and> c = Some (journal_bytes d)))"
proof -
  have "wp (create path p) (\<lambda>r x. journal_inv path r (r, x)) (\<lambda>_ _. True) w"
    by (rule wp_create [OF assms(1)]) (simp_all add: journal_inv_start wf_new_record)
  then have "journal_inv path r (r, w1)" using assms(2) by (simp add: wp_def)
  then have "wp (attempts path changes) (\<lambda>_. journal_inv path r) (\<lambda>_. journal_inv path r) (r, w1)"
    by (rule attempts_keep_inv)
  then have "journal_inv path r (r', w2)" using assms(3) by (cases res) (simp_all add: wp_def)
  then show ?thesis by (simp add: journal_inv_def)
qed

lemma returns_save_artifact [simp]: "returns (save_artifact path r l p) w"
  by (auto simp: save_artifact_def intro!: returns_andthen)

lemma create_quiet:
  assumes "wf_os w" and "quiet w" and "names w (Path path) = None"
  shows "\<exists>x at u. create path p w = Some (x, Inr (new_record at u p)) \<and> wf_os x \<and> quiet x \<and>
    durable x path (journal_bytes (new_record at u p))"
proof -
  have "returns (create path p) w"
    using assms(2,3)
    by (auto simp: create_def store_exists_quiet returns_def [of "store_exists path"]
        intro!: returns_andthen)
  then obtain x res where run: "create path p w = Some (x, res)" by (auto simp: returns_def)
  have "wp (create path p) (\<lambda>r x. (\<exists>at u. r = new_record at u p) \<and> wf_os x \<and> quiet x \<and>
      durable x path (journal_bytes r)) (\<lambda>_ _. False) w"
    by (rule wp_create) (use assms in auto)
  then show ?thesis using run by (cases res) (auto simp: wp_def)
qed

lemma fresh_os_empty [simp]: "names (fresh_os f) p = None"
  by (simp add: fresh_os_def)

lemma journal_history_witness:
  "\<exists>w1 r r' w2 res. create [''j''] zero_pokemon (fresh_os (\<lambda>_. None)) = Some (w1, Inr r) \<and>
     attempts [''j''] [(SWITCH_STAGE1_STARTED, noted ''a''), (COMPLETE, noted ''b'')] (r, w1) = Some ((r', w2), res) \<and>
     wf_record r' \<and> grows r r' \<and> \<not> survives w2 (Path [''j'']) None"
proof -
  let ?cs = "[(SWITCH_STAGE1_STARTED, noted ''a''), (COMPLETE, noted ''b'')]"
  obtain w1 at u where c: "create [''j''] zero_pokemon (fresh_os (\<lambda>_. None)) =
      Some (w1, Inr (new_record at u zero_pokemon))"
    using create_quiet [OF wf_fresh_os, of "\<lambda>_. None" "[''j'']" zero_pokemon] by auto
  obtain r' w2 res where a: "attempts [''j''] ?cs (new_record at u zero_pokemon, w1) = Some ((r', w2), res)"
    using returns_attempts [of "[''j'']" ?cs "(new_record at u zero_pokemon, w1)"]
    by (auto simp: returns_def simp del: attempts.simps)
  show ?thesis using journal_history [OF wf_fresh_os c a] c a by blast
qed

text \<open>
  C24. Round trip. The bytes \<open>_write\<close> produces for a well-formed record whose texts are UTF-8 are
  accepted by \<open>load\<close>, which rebuilds the record: all fields are the same, the dictionaries as
  dictionaries (JSON with \<open>sort_keys\<close> keeps no order).
\<close>

theorem journal_round_trip:
  assumes "wf_record r" and "utf8_record r"
  shows "\<exists>r'. parse_journal path (journal_bytes r) = Some (Inr r') \<and>
    schema_version r' = schema_version r \<and> tx_id r' = tx_id r \<and> jstate r' = jstate r \<and>
    jseq r' = jseq r \<and> created_at r' = created_at r \<and> updated_at r' = updated_at r \<and>
    hashes r' = hashes r \<and> map_of (locations r') = map_of (locations r) \<and>
    gba_slot r' = gba_slot r \<and> last_error r' = last_error r \<and> history r' = history r"
  using parse_journal_bytes [OF wf_record_readable [OF assms(1)] assms(2)] sorted_dicts_wf [OF assms(1)]
  by (intro exI [of _ "sorted_dicts r"]) (simp add: sorted_dicts_def)

lemma journal_round_trip_witness:
  "\<exists>r'. parse_journal ''j'' (journal_bytes demo_record) = Some (Inr r') \<and> history r' = history demo_record"
  using journal_round_trip [OF demo_record(1,2), of "''j''"] by blast

text \<open>
  C23. A journal is never overwritten by a new transaction. \<open>create\<close> returns normally only when
  nothing was at the journal's path; then the new record is well-formed, in \<open>IDLE\<close>, and both it and
  the placeholder's bytes are durably on disk. When something was there, it is left as it is.
\<close>

theorem create_fresh:
  assumes "wf_os w" and "create path p w = Some (x, res)"
  shows "case res of
      Inr r \<Rightarrow> names w (Path path) = None \<and> wf_record r \<and> jstate r = state_value IDLE \<and>
        map_of (hashes r) ''P'' = Some (Some (sha256 p)) \<and> durable x path (journal_bytes r) \<and>
        durable x (artifact_path path (tx_id r) ''P'' p) (raw p)
    | Inl e \<Rightarrow> (names w (Path path) \<noteq> None \<or> (\<exists>n. fault w n \<noteq> None)) \<and>
        (names w (Path path) \<noteq> None \<longrightarrow> contents x (Path path) = contents w (Path path))"
proof -
  have "wp (create path p)
      (\<lambda>r x. names w (Path path) = None \<and> wf_record r \<and> jstate r = state_value IDLE \<and>
        map_of (hashes r) ''P'' = Some (Some (sha256 p)) \<and> durable x path (journal_bytes r) \<and>
        durable x (artifact_path path (tx_id r) ''P'' p) (raw p))
      (\<lambda>e x. (names w (Path path) \<noteq> None \<or> (\<exists>n. fault w n \<noteq> None)) \<and>
        (names w (Path path) \<noteq> None \<longrightarrow> contents x (Path path) = contents w (Path path))) w"
    by (rule wp_create [OF assms(1)]) (auto simp: wf_new_record new_record_tx fun_eq_iff, simp_all add: new_record_def)
  then show ?thesis using assms(2) by (cases res) (simp_all add: wp_def)
qed

lemma parse_not_utf8: "parse_journal path [255] = Some (Inl (Exn UnicodeDecodeError ''codec cannot decode byte''))"
  by (simp add: parse_journal_def bytes_text_def utf8_ok.simps trail_def)

lemma names_one_file [simp]: "names (one_file_os path b f) (Path path) = Some 0"
  by (simp add: one_file_os_def)

lemma create_not_utf8:
  "\<exists>x e. create path p (one_file_os path [255] (\<lambda>_. None)) = Some (x, Inl e)"
  by (simp add: create_def store_exists_quiet load_quiet parse_not_utf8 andthen_def)

lemma require_not_utf8:
  "\<exists>x e. require_new_transaction path (one_file_os path [255] (\<lambda>_. None)) = Some (x, Inl e)"
  by (simp add: require_new_transaction_def store_exists_quiet load_quiet parse_not_utf8 andthen_def)

lemma create_fresh_witness:
  "(\<exists>x r. create [''j''] zero_pokemon (fresh_os (\<lambda>_. None)) = Some (x, Inr r) \<and> durable x [''j''] (journal_bytes r)) \<and>
   (\<exists>x e. create [''j''] zero_pokemon (one_file_os [''j''] [255] (\<lambda>_. None)) = Some (x, Inl e) \<and>
      contents x (Path [''j'']) = Some [255])"
proof
  obtain x at u where run: "create [''j''] zero_pokemon (fresh_os (\<lambda>_. None)) = Some (x, Inr (new_record at u zero_pokemon))"
    using create_quiet [OF wf_fresh_os, of "\<lambda>_. None" "[''j'']" zero_pokemon] by auto
  then show "\<exists>x r. create [''j''] zero_pokemon (fresh_os (\<lambda>_. None)) = Some (x, Inr r) \<and> durable x [''j''] (journal_bytes r)"
    using create_fresh [OF wf_fresh_os run] by auto
  obtain x e where "create [''j''] zero_pokemon (one_file_os [''j''] [255] (\<lambda>_. None)) = Some (x, Inl e)"
    using create_not_utf8 by blast
  then show "\<exists>x e. create [''j''] zero_pokemon (one_file_os [''j''] [255] (\<lambda>_. None)) = Some (x, Inl e) \<and>
      contents x (Path [''j'']) = Some [255]"
    using create_fresh [OF one_file_os_simps(1)] by fastforce
qed

text \<open>
  C21. No start goes on over an old journal. If anything is at the journal's path,
  \<open>require_new_transaction\<close> does not return normally, whatever the file holds and whatever calls
  fail, and the path keeps its contents or gets a journal in \<open>RECOVERY_REQUIRED\<close>. If nothing is
  there, it returns normally, or a call has failed.
\<close>

theorem restart_never_silent:
  assumes "wf_os w" and "require_new_transaction path w = Some (x, res)"
  shows "(names w (Path path) \<noteq> None \<longrightarrow> (\<exists>e. res = Inl e)) \<and>
    (names w (Path path) = None \<longrightarrow> res = Inr () \<or> (\<exists>n. fault w n \<noteq> None)) \<and>
    (contents x (Path path) = contents w (Path path) \<or>
     (\<exists>r. jstate r = state_value RECOVERY_REQUIRED \<and> contents x (Path path) = Some (journal_bytes r)))"
proof -
  have "(names w (Path path) \<noteq> None \<longrightarrow> (\<exists>e. res = Inl e)) \<and> kept_or_recovery path w x"
    using wp_require_new_transaction [OF assms(1), of path] assms(2) by (cases res) (auto simp: wp_def)
  moreover have "res = Inr ()" if "names w (Path path) = None" "quiet w"
    using assms(2) that by (simp add: require_new_transaction_def andthen_def store_exists_quiet ret_def)
  ultimately show ?thesis by (auto simp: kept_or_recovery_def fun_eq_iff)
qed

text \<open>
  C22. A start finds the interrupted transaction. With an intact journal at the path and no failing
  call, \<open>require_new_transaction\<close> raises \<open>RecoveryRequired\<close>; a journal in a terminal state is left
  as it is, any other is replaced durably by its next version: in \<open>RECOVERY_REQUIRED\<close>, with one
  more entry in the history and the state it was found in as its last error.
\<close>

theorem restart_marks_recovery:
  assumes "wf_os w" and "clock_ok w" and "\<forall>n. fault w n = None"
    and "contents w (Path path) = Some (journal_bytes r)" and "wf_record r" and "utf8_record r"
  shows "\<exists>x m. require_new_transaction path w = Some (x, Inl (Exn RecoveryRequired m)) \<and>
    (if jstate r \<in> {state_value COMPLETE, state_value RECOVERY_REQUIRED}
     then contents x (Path path) = Some (journal_bytes r)
     else \<exists>r' e. durable x path (journal_bytes r') \<and> jstate r' = state_value RECOVERY_REQUIRED \<and>
       history r' = history r @ [e] \<and> hashes r' = hashes r \<and> map_of (locations r') = map_of (locations r) \<and>
       last_error r' = Some (''restart detected while journal was '' @ jstate r))"
proof -
  have quiet: "quiet w" using assms(3) by auto
  note parsed = parse_journal_bytes [OF wf_record_readable [OF assms(5)] assms(6), of "path_str path"]
  note reread = sorted_dicts_wf [OF assms(5)] utf8_sorted_dicts [OF assms(6)]
  have same: "jstate (sorted_dicts r) = jstate r" "history (sorted_dicts r) = history r"
    by (simp_all add: sorted_dicts_def)
  obtain s where s: "jstate r = state_value s" using assms(5) by (auto simp: wf_record_def)
  show ?thesis
  proof (cases "s \<in> terminal_states")
    case True
    then show ?thesis
      using require_terminal [OF quiet assms(4) parsed, of s] s same by (auto simp: terminal_states_def)
  next
    case False
    have "wf_record (sorted_dicts r)" "utf8_record (sorted_dicts r)" "jstate (sorted_dicts r) = state_value s"
      using reread same s by simp_all
    from require_interrupted [OF quiet assms(1,2,4) parsed this False]
    obtain x m at where "require_new_transaction path w = Some (x, Inl (Exn RecoveryRequired m))"
        "durable x path (journal_bytes (advance RECOVERY_REQUIRED (restart_change (sorted_dicts r)) at (sorted_dicts r)))"
      by blast
    moreover have "jstate r \<notin> {state_value COMPLETE, state_value RECOVERY_REQUIRED}"
      using False s by (auto simp: terminal_states_def)
    ultimately show ?thesis
      using reread same
      by (intro exI [of _ x] exI [of _ m] conjI)
        (auto simp: advance_def restart_change_def noted_def dict_update_def intro!: exI)
  qed
qed

lemma restart_never_silent_witness:
  "\<exists>x e. require_new_transaction [''j''] (one_file_os [''j''] [255] (\<lambda>_. None)) = Some (x, Inl e) \<and>
     (contents x (Path [''j'']) = Some [255] \<or>
      (\<exists>r. jstate r = state_value RECOVERY_REQUIRED \<and> contents x (Path [''j'']) = Some (journal_bytes r)))"
proof -
  obtain x e where "require_new_transaction [''j''] (one_file_os [''j''] [255] (\<lambda>_. None)) = Some (x, Inl e)"
    using require_not_utf8 by blast
  then show ?thesis using restart_never_silent [OF one_file_os_simps(1)] by fastforce
qed

lemma restart_marks_recovery_witness:
  "\<exists>x m r'. require_new_transaction [''j''] (one_file_os [''j''] (journal_bytes demo_record) (\<lambda>_. None)) =
      Some (x, Inl (Exn RecoveryRequired m)) \<and>
     durable x [''j''] (journal_bytes r') \<and> jstate r' = state_value RECOVERY_REQUIRED"
  using restart_marks_recovery [of "one_file_os [''j''] (journal_bytes demo_record) (\<lambda>_. None)" "[''j'']" demo_record]
  by auto

end
