(* ===== verification/Escrow_Spec.thy ===== *)
theory Escrow_Spec
  imports Escrow Journal_Spec
begin

text \<open>
  The whole transaction: how \<open>TradeCoordinator.execute\<close> ends, proved once for any two endpoint
  contracts, and what follows for endpoints that may do anything.
\<close>

text \<open>The three ways of a run: refused before it began, broken off, and completed.\<close>

definition refused :: "string list \<Rightarrow> pokemon100 \<Rightarrow> ('s, 'g) run \<Rightarrow> ('s, 'g) run \<Rightarrow> bool" where
  "refused path p c c' \<longleftrightarrow> trace c' = trace c \<and> switch c' = switch c \<and> gba c' = gba c \<and>
     (refuse_mail p \<noteq> Inr () \<and> system c' = system c \<or>
      names (system c) (Path path) \<noteq> None \<or> fault (system c) \<noteq> (\<lambda>_. None))"

definition broken_off :: "string list \<Rightarrow> pokemon100 \<Rightarrow> exn \<Rightarrow> ('s, 'g) run \<Rightarrow> ('s, 'g) run \<Rightarrow> bool" where
  "broken_off path p e c c' \<longleftrightarrow> refuse_mail p = Inr () \<and> names (system c) (Path path) = None \<and>
     (\<exists>b. only_closes b c' \<and> wf_record (current b) \<and> evidence path (system b) (current b) \<and>
       guarded path (trace b) \<and> in_order p (map fst (trace b)) \<and> present path (system b) \<and>
       (fault (system c) = (\<lambda>_. None) \<longrightarrow> durable (system b) path (journal_bytes (current b)) \<and>
         (isinstance e Exception \<longrightarrow> recovered path (fault (system c)) p e b)))"

lemma recovered_broken_off:
  assumes "recovered path f p e c1" and "only_closes c1 c'" and "fault (system c) = f"
    and "isinstance e' Exception \<Longrightarrow> e' = e"
    and "refuse_mail p = Inr ()" and "names (system c) (Path path) = None"
  shows "broken_off path p e' c c'"
  unfolding broken_off_def
  using assms by (intro conjI exI [of _ c1]) (auto simp: recovered_def)

lemma stopped_broken_off:
  assumes "stopped path f p c1" and "only_closes c1 c'" and "fault (system c) = f"
    and "\<not> isinstance e Exception"
    and "refuse_mail p = Inr ()" and "names (system c) (Path path) = None"
  shows "broken_off path p e c c'"
  unfolding broken_off_def
  using assms by (intro conjI exI [of _ c1]) (auto simp: stopped_def)

lemma agrees_broken_off:
  assumes "agrees path f l c1" and "in_order p (made l)" and "only_closes c1 c'" and "fault (system c) = f"
    and "\<not> isinstance e Exception"
    and "refuse_mail p = Inr ()" and "names (system c) (Path path) = None"
  shows "broken_off path p e c c'"
  unfolding broken_off_def
  using assms by (intro conjI exI [of _ c1]) (auto simp: agrees_def intro: durable_present)

context escrow
begin

definition completed :: "pokemon100 \<Rightarrow> pokemon100 \<Rightarrow> transaction_outcome \<Rightarrow> ('s, 'g) run \<Rightarrow> ('s, 'g) run \<Rightarrow> bool" where
  "completed x y out c c' \<longleftrightarrow> refuse_mail p = Inr () \<and> names (system c) (Path path) = None \<and>
     (\<exists>s. swapped x y out s \<and> system c' = system s \<and> current c' = current s \<and>
       trace c' = trace s @ [(GbaClose, system s), (SwitchClose, system s)] \<and>
       (wild \<or> sclosed (switch_mon out) (switch c') \<and> gclosed (gba_mon out) (gba c')))"

text \<open>How a run is closed after a finished exchange, and after one that broke off.\<close>

lemma wpr_close_swapped:
  assumes s: "swapped x y out c1" and new: "refuse_mail p = Inr ()" "names (system c0) (Path path) = None"
    and f: "fault (system c0) = f"
  shows "wpr sure (close_both sw gb) (\<lambda>_ c'. completed x y out c0 c') (\<lambda>e c'. wild \<and> broken_off path p e c0 c') c1"
proof -
  obtain b res where w: "opened (ledger4 p b res) (received_mon res) b c1" "switch_mon out = received_mon res" "gba_mon out = b"
    using s unfolding swapped_def by auto
  obtain l where o: "opened l (switch_mon out) (gba_mon out) c1" and l: "in_order p (made l)" and t: "has_traded l"
    by (rule that [of "ledger4 p b res"]) (use w in \<open>simp_all add: opened_def has_traded_def script_def\<close>)
  have a: "agrees path f l c1" using o by (simp add: opened_def)
  show ?thesis
  proof (rule wpr_mono [OF wpr_wp_conj [OF wpr_close_opened [OF o t] wp_conj [OF wp_close_both wp_close_raises]]], goal_cases)
    case (1 _ c')
    then show ?case using s new unfolding completed_def by blast
  next
    case (2 e c')
    then show ?case using agrees_broken_off [OF a l _ f _ new] by blast
  qed
qed

lemma wpr_close_broken:
  assumes "wild \<or> f \<noteq> (\<lambda>_. None)"
    and "\<And>e' c'. only_closes c1 c' \<Longrightarrow> (isinstance e' Exception \<Longrightarrow> e' = e) \<Longrightarrow> broken_off path p e' c0 c'"
  shows "wpr sure (close_both sw gb) (\<lambda>_ c'. broken_off path p e c0 c') (\<lambda>e c'. broken_off path p e c0 c') c1"
proof (rule wprI)
  show "wp (close_both sw gb) (\<lambda>_ c'. broken_off path p e c0 c') (\<lambda>e c'. broken_off path p e c0 c') c1"
    by (rule wp_mono [OF wp_conj [OF wp_close_both wp_close_raises]]) (use assms(2) in auto)
qed (use assms(1) in \<open>simp add: sure_def\<close>)

lemma wpr_recover:
  assumes "stopped path f p c1"
  shows "wpr sure (andthen (mark_recovery path e) (\<lambda>_. raise e)) (\<lambda>_ _. False)
    (\<lambda>e' c2. e' = e \<and> recovered path f p e c2) c1"
  unfolding wpr_andthen wpr_raise
  by (rule wpr_mono [OF wprI [OF wp_mark_recovery [OF assms] returns_mark_recovery]]) auto

lemma wpr_guarded_exchange:
  assumes "started x y c" and new: "refuse_mail p = Inr ()" "names (system c0) (Path path) = None"
    and f: "fault (system c0) = f" and "wild \<or> refuse_mail x = Inr ()" and "wild \<or> refuse_mail y = Inr ()"
  shows "wpr sure (try_finally
       (try_except Exception (exchange path sw gb hook p)
         (\<lambda>exc. andthen (mark_recovery path exc) (\<lambda>_. raise exc)))
       (close_both sw gb))
     (\<lambda>out c'. completed x y out c0 c')
     (\<lambda>e c'. (wild \<or> f \<noteq> (\<lambda>_. None)) \<and> broken_off path p e c0 c') c"
  unfolding wpr_try_finally wpr_try_except
proof (rule wpr_mono [OF wpr_exchange [OF assms(1) new(1) assms(5,6)]], goal_cases)
  case (1 out c1)
  then show ?case by (rule wpr_mono [OF wpr_close_swapped [OF _ new f]]) auto
next
  case (2 e c1)
  then have c1: "stopped path f p c1" and bad: "wild \<or> f \<noteq> (\<lambda>_. None)" by (simp_all add: failed_def)
  show ?case
  proof (cases "isinstance e Exception")
    case True
    have "wpr sure (close_both sw gb) (\<lambda>_ c'. broken_off path p e c0 c') (\<lambda>e c'. broken_off path p e c0 c') c2"
      if "recovered path f p e c2" for c2
      by (rule wpr_close_broken [OF bad]) (rule recovered_broken_off [OF that _ f _ new])
    then show ?thesis
      using bad unfolding if_P [OF True] by (intro wpr_mono [OF wpr_recover [OF c1]]) auto
  next
    case False
    have "wpr sure (close_both sw gb) (\<lambda>_ c'. broken_off path p e c0 c') (\<lambda>e c'. broken_off path p e c0 c') c1"
      by (rule wpr_close_broken [OF bad]) (rule stopped_broken_off [OF c1 _ f _ new], use False in auto)
    then show ?thesis using bad unfolding if_not_P [OF False] by simp
  qed
qed

lemma wpr_execute:
  assumes "wf_os (system c)" and "fault (system c) = f" and "trace c = []"
    and "wild \<or> sclosed x (switch c)" and "wild \<or> gfresh y (gba c)"
    and "wild \<or> refuse_mail x = Inr ()" and "wild \<or> refuse_mail y = Inr ()"
  shows "wpr (sure \<and> names (system c) (Path path) = None) (execute path sw gb hook p)
    (\<lambda>out c'. completed x y out c c')
    (\<lambda>e c'. refused path p c c' \<or> (wild \<or> f \<noteq> (\<lambda>_. None)) \<and> broken_off path p e c c') c"
proof (cases "refuse_mail p")
  case (Inl e)
  then show ?thesis by (simp add: execute_def wpr_simps refused_def)
next
  case (Inr u)
  then have ok: "refuse_mail p = Inr ()" by simp
  let ?t = "sure \<and> names (system c) (Path path) = None"
  let ?E = "\<lambda>e c'. refused path p c c' \<or> (wild \<or> f \<noteq> (\<lambda>_. None)) \<and> broken_off path p e c c'"
  have quiet: "?t \<Longrightarrow> quiet (system c)" using assms(2) by (simp add: sure_def)
  have require: "wpr ?t (require_new_transaction path)
      (\<lambda>_ w. (names (system c) (Path path) = None \<and> (\<exists>n. w = (system c)\<lparr>calls := n\<rparr>)) \<and> True)
      (\<lambda>_ w. kept_or_recovery path (system c) w \<and>
        (names (system c) (Path path) \<noteq> None \<or> fault (system c) \<noteq> (\<lambda>_. None))) (system c)"
    by (rule wprI [OF wp_conj [OF wp_require_new_transaction [OF assms(1)] wp_require_raises]])
      (use quiet in \<open>simp add: require_new_transaction_def returns_def andthen_def store_exists_quiet ret_def\<close>)
  have create: "wpr ?t (create path p) (\<lambda>r x. \<exists>at u. r = new_record at u p \<and> wf_os x \<and> fault x = f \<and>
        durable x path (journal_bytes (new_record at u p)) \<and>
        durable x (artifact_path path (uuid_str u) ''P'' p) (raw p))
      (\<lambda>_ _. f \<noteq> (\<lambda>_. None)) ((system c)\<lparr>calls := n\<rparr>)"
    if new: "names (system c) (Path path) = None" for n
  proof (rule wprI)
    show "returns (create path p) ((system c)\<lparr>calls := n\<rparr>)" if ?t
      using create_quiet [of "(system c)\<lparr>calls := n\<rparr>" path p] quiet [OF that] assms(1) new
      by (auto simp: returns_def)
  qed (rule wp_create, use assms(1,2) new in auto)
  show ?thesis
    unfolding execute_def wpr_andthen wpr_lift ok sum.case sys_call_def wpr_zoom wpr_modify
  proof (rule wpr_mono [OF require], goal_cases)
    case (1 _ w)
    then obtain n where new: "names (system c) (Path path) = None" and w: "w = (system c)\<lparr>calls := n\<rparr>" by blast
    have st: "system (c\<lparr>system := v\<rparr>) = v" for v by simp
    show ?case
      unfolding w st
    proof (rule wpr_mono [OF create [OF new]], goal_cases)
      case (1 r z)
      then obtain at u where z: "r = new_record at u p" "wf_os z" "fault z = f"
          "durable z path (journal_bytes (new_record at u p))"
          "durable z (artifact_path path (uuid_str u) ''P'' p) (raw p)" by blast
      have "started x y (c\<lparr>system := z, current := r, gba_connected := False, switch_connected := False\<rparr>)"
        unfolding z(1) by (rule created_started) (use z(2-) assms(3-5) in simp_all)
      from wpr_mono [OF wpr_guarded_exchange [OF this ok new assms(2,6,7)],
          of "\<lambda>out c'. completed x y out c c'" ?E]
      show ?case by (simp add: new)
    next
      case (2 e z)
      then show ?case using assms(2) by (auto simp: refused_def)
    qed
  next
    case (2 e w)
    then show ?case using assms(2) by (auto simp: refused_def)
  qed
qed

lemma completed_facts:
  assumes "completed x y out c c'"
  shows "refuse_mail p = Inr () \<and> names (system c) (Path path) = None \<and>
    refuse_mail (gba_mon out) = Inr () \<and> refuse_mail (switch_mon out) = Inr () \<and> broker_mon out = p \<and>
    outcome_id out = tx_id (current c') \<and> wf_record (current c') \<and>
    map entry_state (history (current c')) = map state_value forward \<and>
    map_of (hashes (current c')) =
      [''A'' \<mapsto> Some (sha256 (switch_mon out)), ''B'' \<mapsto> Some (sha256 (gba_mon out)), ''P'' \<mapsto> Some (sha256 p)] \<and>
    map_of (locations (current c')) = [''A'' \<mapsto> ''switch'', ''B'' \<mapsto> ''gba'', ''P'' \<mapsto> ''broker''] \<and>
    durable (system c') path (journal_bytes (current c')) \<and>
    (\<forall>(n, m) \<in> {(''A'', switch_mon out), (''B'', gba_mon out), (''P'', p), (''P_RETURNED'', p)}.
      durable (system c') (artifact_path path (tx_id (current c')) n m) (raw m)) \<and>
    map fst (trace c') = script p (gba_mon out) (switch_mon out) @ [GbaClose, SwitchClose] \<and>
    guarded path (trace c') \<and>
    (wild \<or> gba_mon out = x \<and> switch_mon out = y \<and> sclosed y (switch c') \<and> gclosed x (gba c'))"
proof -
  obtain s where s: "swapped x y out s" "system c' = system s" "current c' = current s"
      "trace c' = trace s @ [(GbaClose, system s), (SwitchClose, system s)]"
      "wild \<or> sclosed (switch_mon out) (switch c') \<and> gclosed (gba_mon out) (gba c')"
      "refuse_mail p = Inr ()" "names (system c) (Path path) = None"
    using assms unfolding completed_def by blast
  then obtain res where o: "opened (ledger4 p (gba_mon out) res) (switch_mon out) (gba_mon out) s"
      "switch_mon out = received_mon res" "refuse_mail (gba_mon out) = Inr ()" "refuse_mail (switch_mon out) = Inr ()"
      "wild \<or> gba_mon out = x \<and> switch_mon out = y" "broker_mon out = p" "outcome_id out = tx_id (current s)"
    unfolding swapped_def by auto
  have a: "agrees path f (ledger4 p (gba_mon out) res) s" using o(1) by (simp add: opened_def)
  have g: "guarded path (trace c')"
  proof -
    have "guarded path ((trace s @ [(GbaClose, system s)]) @ [(SwitchClose, system s)])"
      using a unfolding guarded_simps by (simp add: agrees_def)
    then show ?thesis using s(4) by simp
  qed
  have fwd: "take (Suc 9) forward = forward" by (simp add: forward_def)
  show ?thesis
    using a o(2-) s(2-) g fwd
    by (intro conjI) (auto simp: agrees_def ledger4_places simp del: take_Suc)
qed

text \<open>Between two endpoints that meet their contracts, with no failing call, a run completes.\<close>

lemma honest_run:
  assumes "wf_os (system c)" and "fault (system c) = f" and "f = (\<lambda>_. None)" and "trace c = []" and "\<not> wild"
    and "names (system c) (Path path) = None" and "sclosed x (switch c)" and "gfresh y (gba c)"
    and "\<forall>m \<in> {p, x, y}. refuse_mail m = Inr ()"
  shows "\<exists>c' out. execute path sw gb hook p c = Some (c', Inr out) \<and> completed x y out c c'"
proof -
  have sure: "(sure \<and> names (system c) (Path path) = None) = True"
    unfolding sure_def using assms(3,5,6) by blast
  have ends: "\<not> (refused path p c c' \<or> (wild \<or> f \<noteq> (\<lambda>_. None)) \<and> broken_off path p e c c')" for e c'
    unfolding refused_def using assms(2,3,5,6,9) by blast
  have run: "wpr True (execute path sw gb hook p) (\<lambda>out c'. completed x y out c c') (\<lambda>_ _. False) c"
    by (rule wpr_mono [OF wpr_execute [OF assms(1,2,4), of x y, unfolded sure]])
      (use assms(7-9) ends in blast)+
  then obtain c' res where "execute path sw gb hook p c = Some (c', res)"
    by (auto simp: wpr_def split: option.splits)
  then show ?thesis using run by (cases res) (auto simp: wpr_def)
qed

lemma broken_off_order:
  assumes "broken_off path p e c c'"
  shows "guarded path (trace c') \<and> (\<exists>cs ds. map fst (trace c') = cs @ ds \<and> in_order p cs \<and>
    set ds \<subseteq> {GbaClose, SwitchClose}) \<and> present path (system c')"
proof -
  obtain b where b0: "only_closes b c'" "guarded path (trace b)" "in_order p (map fst (trace b))"
      "present path (system b)"
    using assms unfolding broken_off_def by blast
  then obtain es where b: "trace c' = trace b @ es" "fst ` set es \<subseteq> {GbaClose, SwitchClose}" "guarded path (trace b)"
      "in_order p (map fst (trace b))" "system c' = system b" "present path (system b)"
    unfolding only_closes_def by blast
  have "guarded_call path ev w" if "(ev, w) \<in> set es" for ev w
    using b(2) that by (cases ev) force+
  then have "guarded path (trace c')" using b(1,3) by (auto simp: guarded_def)
  moreover have "set (map fst es) \<subseteq> {GbaClose, SwitchClose}" using b(2) by simp
  ultimately show ?thesis
    using b by (intro conjI exI [of _ "map fst (trace b)"] exI [of _ "map fst es"]) simp_all
qed

end

interpretation any_switch: switch_contract sw "\<lambda>_ _. True" "\<lambda>_ _. True" True for sw
  by unfold_locales simp_all

interpretation any_gba: gba_contract gb "\<lambda>_ _. True" "\<lambda>_ _. True" "\<lambda>_ _. True" "\<lambda>_ _. True" True for gb
  by unfold_locales simp_all

interpretation any: escrow sw "\<lambda>_ _. True" "\<lambda>_ _. True" gb "\<lambda>_ _. True" "\<lambda>_ _. True" "\<lambda>_ _. True" "\<lambda>_ _. True"
    True path hook f p
  for sw gb path hook f p
  by unfold_locales simp_all

lemma execute_any:
  assumes "wf_os (system c)" and "trace c = []" and "execute path sw gb hook p c = Some (c', res)"
  shows "case res of
      Inr out \<Rightarrow> any.completed path (fault (system c)) p undefined undefined out c c'
    | Inl e \<Rightarrow> refused path p c c' \<or> broken_off path p e c c'"
  using any.wpr_execute [where c = c and f = "fault (system c)" and x = undefined and y = undefined
      and path = path and p = p and sw = sw and gb = gb and hook = hook] assms
  by (cases res) (auto simp: wpr_def)

end
