(* ===== verification/Mocks.thy ===== *)
theory Mocks
  imports Endpoints
begin

text \<open>
  The in-memory endpoints of \<open>broker/gba/mock.py\<close> and \<open>broker/switch/mock.py\<close>, which the tests and
  \<open>broker mock\<close> run the coordinator with. The state of each is a record of its attributes; the
  operations are the methods. Both meet the contracts of the coordinator as long as none of their
  fault options is set, and with a fault option they fail in the way the option says.
\<close>

section \<open>MockGbaEndpoint\<close>

record mock_gba =
  gba_owned :: pokemon100
  mock_slot :: int
  mock_confirms :: bool
  mock_closes_link :: bool
  mock_disconnects :: bool
  gba_open :: bool
  gba_trades :: int

definition mock_gba_init :: "pokemon100 \<Rightarrow> int \<Rightarrow> bool \<Rightarrow> bool \<Rightarrow> bool \<Rightarrow> mock_gba" where
  "mock_gba_init mon slot confirms closes disconnects = \<lparr>gba_owned = mon, mock_slot = slot,
     mock_confirms = confirms, mock_closes_link = closes, mock_disconnects = disconnects,
     gba_open = False, gba_trades = 0\<rparr>"

definition mock_gba_connect :: "(mock_gba, unit) prog" where
  "mock_gba_connect = modify (\<lambda>s. s\<lparr>gba_open := True\<rparr>)"

definition mock_gba_trade :: "pokemon100 \<Rightarrow> (mock_gba, gba_trade_result) prog" where
  "mock_gba_trade offered = andthen (gets id) (\<lambda>self.
     if \<not> gba_open self then raise (Exn EndpointError ''mock GBA is not connected'')
     else if mock_disconnects self then raise (Exn EndpointError ''mock GBA unexpectedly disconnected'')
     else
       andthen (run_if (mock_confirms self) (modify (\<lambda>s. s\<lparr>gba_owned := offered\<rparr>))) (\<lambda>_.
       andthen (modify (\<lambda>s. s\<lparr>gba_trades := gba_trades s + 1\<rparr>)) (\<lambda>_.
       ret \<lparr>offered_mon = offered, received_mon = gba_owned self, commit_confirmed = mock_confirms self,
         selected_slot = mock_slot self, link_closed = mock_closes_link self\<rparr>)))"

definition mock_gba_abort_if_safe :: "(mock_gba, bool) prog" where
  "mock_gba_abort_if_safe = gets (\<lambda>s. gba_trades s = 0)"

definition mock_gba_close :: "(mock_gba, unit) prog" where
  "mock_gba_close = modify (\<lambda>s. s\<lparr>gba_open := False\<rparr>)"

definition mock_gba_endpoint :: "mock_gba gba_endpoint" where
  "mock_gba_endpoint = \<lparr>gba_connect = mock_gba_connect, gba_trade = mock_gba_trade,
     gba_abort_if_safe = mock_gba_abort_if_safe, gba_close = mock_gba_close\<rparr>"

section \<open>MockSwitchEndpoint\<close>

record mock_switch =
  switch_owned :: pokemon100
  fail_on_call :: "int option"
  commit_on_calls :: "int set option"
  switch_open :: bool
  switch_trades :: int
  session_connects :: int

definition mock_switch_init :: "pokemon100 \<Rightarrow> int option \<Rightarrow> int set option \<Rightarrow> mock_switch" where
  "mock_switch_init mon fails commits = \<lparr>switch_owned = mon, fail_on_call = fails,
     commit_on_calls = commits, switch_open = False, switch_trades = 0, session_connects = 0\<rparr>"

definition mock_switch_connect :: "(mock_switch, unit) prog" where
  "mock_switch_connect = andthen (gets id) (\<lambda>self.
     if switch_open self then raise (Exn EndpointError ''mock Switch session connected twice'')
     else modify (\<lambda>s. s\<lparr>switch_open := True, session_connects := session_connects s + 1\<rparr>))"

definition mock_switch_wait :: "(mock_switch, unit) prog" where
  "mock_switch_wait = andthen (gets id) (\<lambda>self.
     if \<not> switch_open self then raise (Exn EndpointError ''mock Switch is not connected'') else ret ())"

definition mock_switch_trade :: "pokemon100 \<Rightarrow> (mock_switch, trade_result) prog" where
  "mock_switch_trade offered = andthen (gets id) (\<lambda>self.
     if \<not> switch_open self then raise (Exn EndpointError ''mock Switch is not connected'')
     else let nth_call = switch_trades self + 1 in
       if fail_on_call self = Some nth_call then
         raise (Exn EndpointError (''mock Switch disconnected during trade '' @ dec nth_call))
       else let committed = (case commit_on_calls self of None \<Rightarrow> True | Some cs \<Rightarrow> nth_call \<in> cs) in
         andthen (run_if committed (modify (\<lambda>s. s\<lparr>switch_owned := offered\<rparr>))) (\<lambda>_.
         andthen (modify (\<lambda>s. s\<lparr>switch_trades := nth_call\<rparr>)) (\<lambda>_.
         ret \<lparr>offered_mon = offered, received_mon = switch_owned self, commit_confirmed = committed\<rparr>)))"

definition mock_switch_close :: "(mock_switch, unit) prog" where
  "mock_switch_close = modify (\<lambda>s. s\<lparr>switch_open := False\<rparr>)"

definition mock_switch_endpoint :: "mock_switch switch_endpoint" where
  "mock_switch_endpoint = \<lparr>switch_connect = mock_switch_connect, switch_wait = mock_switch_wait,
     switch_trade = mock_switch_trade, switch_close = mock_switch_close\<rparr>"

lemmas mock_switch_defs = mock_switch_endpoint_def mock_switch_connect_def mock_switch_wait_def
  mock_switch_trade_def mock_switch_close_def
lemmas mock_gba_defs = mock_gba_endpoint_def mock_gba_connect_def mock_gba_trade_def
  mock_gba_abort_if_safe_def mock_gba_close_def

section \<open>Without faults they meet the contracts\<close>

definition honest_switch :: "bool \<Rightarrow> pokemon100 \<Rightarrow> mock_switch \<Rightarrow> bool" where
  "honest_switch opened x s \<longleftrightarrow> switch_open s = opened \<and> switch_owned s = x \<and>
     fail_on_call s = None \<and> commit_on_calls s = None"

definition honest_gba :: "bool \<Rightarrow> pokemon100 \<Rightarrow> mock_gba \<Rightarrow> bool" where
  "honest_gba opened x s \<longleftrightarrow> gba_open s = opened \<and> gba_owned s = x \<and> \<not> mock_disconnects s \<and>
     mock_confirms s \<and> mock_closes_link s \<and> 0 \<le> mock_slot s \<and> mock_slot s \<le> 5"

interpretation mock_switch: switch_contract mock_switch_endpoint "honest_switch False" "honest_switch True" False
  by unfold_locales (auto simp: delivers_def mock_switch_defs honest_switch_def prog_defs Let_def)

interpretation mock_gba: gba_contract mock_gba_endpoint "honest_gba False" "honest_gba True" "honest_gba True" "honest_gba False" False
  by unfold_locales (auto simp: delivers_def mock_gba_defs honest_gba_def prog_defs)

lemma honest_init [simp]:
  "honest_switch False x (mock_switch_init x None None)"
  "honest_gba False x (mock_gba_init x slot True True False) \<longleftrightarrow> 0 \<le> slot \<and> slot \<le> 5"
  by (simp_all add: honest_switch_def honest_gba_def mock_switch_init_def mock_gba_init_def)

section \<open>Every operation comes back\<close>

lemma mock_switch_returns [simp]:
  "returns (switch_connect mock_switch_endpoint) s" "returns (switch_wait mock_switch_endpoint) s"
  "returns (switch_trade mock_switch_endpoint m) s" "returns (switch_close mock_switch_endpoint) s"
  by (simp_all add: returns_def mock_switch_defs prog_defs Let_def)

lemma mock_gba_returns [simp]:
  "returns (gba_connect mock_gba_endpoint) s" "returns (gba_trade mock_gba_endpoint m) s"
  "returns (gba_abort_if_safe mock_gba_endpoint) s" "returns (gba_close mock_gba_endpoint) s"
  by (simp_all add: returns_def mock_gba_defs prog_defs)

end
