(* ===== verification/Switch_Session.thy ===== *)
theory Switch_Session
  imports Endpoints
begin

text \<open>
  \<open>broker/switch/session.py\<close>: \<open>SwitchTradeSession\<close>, the Switch endpoint over a driver that is
  installed separately. The driver is a parameter, a record of its five operations over a state of
  its own; a session is the driver's state with the flag \<open>connected\<close>. The locale says what a driver
  has to do for its session to meet the contract of the coordinator.
\<close>

record 'd switch_driver =
  driver_connect :: "('d, unit) prog"
  driver_wait :: "('d, unit) prog"
  driver_set_offer :: "bytes \<Rightarrow> ('d, unit) prog"
  driver_trade :: "('d, bytes \<times> bytes \<times> bool) prog"
  driver_close :: "('d, unit) prog"

record 'd session =
  driver :: 'd
  connected :: bool

definition session_init :: "'d \<Rightarrow> 'd session" where
  "session_init d = \<lparr>driver = d, connected = False\<rparr>"

definition on_driver :: "('d, 'a) prog \<Rightarrow> ('d session, 'a) prog" where
  "on_driver m = zoom driver (\<lambda>d s. s\<lparr>driver := d\<rparr>) m"

definition session_connect :: "'d switch_driver \<Rightarrow> ('d session, unit) prog" where
  "session_connect drv = andthen (gets connected) (\<lambda>on.
     if on then raise (Exn RuntimeError ''Switch session is already connected'')
     else
       andthen (on_driver (driver_connect drv)) (\<lambda>_.
       modify (\<lambda>s. s\<lparr>connected := True\<rparr>)))"

definition session_wait :: "'d switch_driver \<Rightarrow> ('d session, unit) prog" where
  "session_wait drv = andthen (gets connected) (\<lambda>on.
     if \<not> on then raise (Exn RuntimeError ''Switch session is not connected'')
     else on_driver (driver_wait drv))"

definition session_trade :: "'d switch_driver \<Rightarrow> pokemon100 \<Rightarrow> ('d session, trade_result) prog" where
  "session_trade drv mon = andthen (gets connected) (\<lambda>on.
     if \<not> on then raise (Exn RuntimeError ''Switch session is not connected'')
     else
       andthen (lift (refuse_mail mon)) (\<lambda>_.
       andthen (on_driver (driver_set_offer drv (raw mon))) (\<lambda>_.
       andthen (on_driver (driver_trade drv)) (\<lambda>(offered, received, committed).
       andthen (lift (mk_pokemon offered)) (\<lambda>o_mon.
       andthen (lift (mk_pokemon received)) (\<lambda>r_mon.
       ret \<lparr>offered_mon = o_mon, received_mon = r_mon, commit_confirmed = committed\<rparr>))))))"

definition session_close :: "'d switch_driver \<Rightarrow> ('d session, unit) prog" where
  "session_close drv = andthen (gets connected) (\<lambda>on.
     run_if on (andthen (on_driver (driver_close drv)) (\<lambda>_. modify (\<lambda>s. s\<lparr>connected := False\<rparr>))))"

definition session_endpoint :: "'d switch_driver \<Rightarrow> 'd session switch_endpoint" where
  "session_endpoint drv = \<lparr>switch_connect = session_connect drv, switch_wait = session_wait drv,
     switch_trade = session_trade drv, switch_close = session_close drv\<rparr>"

lemmas session_defs = session_endpoint_def session_connect_def session_wait_def session_trade_def
  session_close_def on_driver_def

section \<open>A session over a driver that keeps its contract\<close>

locale driver_contract =
  fixes drv :: "'d switch_driver"
    and closed ready :: "pokemon100 \<Rightarrow> 'd \<Rightarrow> bool"
    and offering :: "pokemon100 \<Rightarrow> pokemon100 \<Rightarrow> 'd \<Rightarrow> bool"
    and wild :: bool
  assumes connect: "closed x d \<Longrightarrow> delivers wild (driver_connect drv) (\<lambda>_. ready x) d"
    and wait: "ready x d \<Longrightarrow> delivers wild (driver_wait drv) (\<lambda>_. ready x) d"
    and set_offer: "ready x d \<Longrightarrow> delivers wild (driver_set_offer drv (raw m)) (\<lambda>_. offering m x) d"
    and trade: "offering m x d \<Longrightarrow>
      delivers wild (driver_trade drv) (\<lambda>res d'. res = (raw m, raw x, True) \<and> ready m d') d"
    and close: "ready x d \<Longrightarrow> delivers wild (driver_close drv) (\<lambda>_. closed x) d"

definition session_in :: "bool \<Rightarrow> (pokemon100 \<Rightarrow> 'd \<Rightarrow> bool) \<Rightarrow> pokemon100 \<Rightarrow> 'd session \<Rightarrow> bool" where
  "session_in on R x s \<longleftrightarrow> connected s = on \<and> R x (driver s)"

text \<open>A delivered call of the driver, then the rest.\<close>

lemma delivers_driver_step:
  assumes "delivers wild m R (driver s)" and "\<And>a d. R a d \<Longrightarrow> delivers wild (f a) Q (s\<lparr>driver := d\<rparr>)"
  shows "delivers wild (andthen (on_driver m) f) Q s"
  using assms by (fastforce simp: delivers_def andthen_def on_driver_def zoom_def)

lemma delivers_basic:
  "Q a w \<Longrightarrow> delivers wild (ret a) Q w" "Q () (g w) \<Longrightarrow> delivers wild (modify g) Q w"
  by (simp_all add: delivers_def ret_def modify_def)

lemma delivers_on_driver:
  "delivers wild m R (driver s) \<Longrightarrow> (\<And>a d. R a d \<Longrightarrow> Q a (s\<lparr>driver := d\<rparr>)) \<Longrightarrow> delivers wild (on_driver m) Q s"
  by (fastforce simp: delivers_def on_driver_def zoom_def)

lemma delivers_gets: "delivers wild (f (g w)) Q w \<Longrightarrow> delivers wild (andthen (gets g) f) Q w"
  by (simp add: delivers_def andthen_def gets_def)

lemma delivers_lift: "r = Inr a \<Longrightarrow> delivers wild (f a) Q w \<Longrightarrow> delivers wild (andthen (lift r) f) Q w"
  by (simp add: delivers_def andthen_def lift_def)

sublocale driver_contract \<subseteq> session: switch_contract "session_endpoint drv" "session_in False closed"
    "session_in True ready" wild
proof (unfold_locales, goal_cases)
  case (1 x s)
  then have d: "delivers wild (driver_connect drv) (\<lambda>_. ready x) (driver s)" and s: "\<not> connected s"
    by (auto simp: session_in_def connect)
  show ?case
    unfolding session_endpoint_def switch_endpoint.simps session_connect_def
    by (rule delivers_gets, simp only: s if_False, rule delivers_driver_step [OF d], rule delivers_basic)
      (simp add: session_in_def)
next
  case (2 x s)
  then have d: "delivers wild (driver_wait drv) (\<lambda>_. ready x) (driver s)" and s: "connected s"
    by (auto simp: session_in_def wait)
  show ?case
    unfolding session_endpoint_def switch_endpoint.simps session_wait_def
    by (rule delivers_gets, simp only: s not_True_eq_False if_False, rule delivers_on_driver [OF d])
      (simp add: session_in_def s)
next
  case (3 x s m)
  then have d: "delivers wild (driver_set_offer drv (raw m)) (\<lambda>_. offering m x) (driver s)" and s: "connected s"
    by (auto simp: session_in_def set_offer)
  show ?case
    unfolding session_endpoint_def switch_endpoint.simps session_trade_def
    apply (rule delivers_gets, simp only: s not_True_eq_False if_False)
    apply (rule delivers_lift [OF 3(2)], rule delivers_driver_step [OF d])
    apply (rule delivers_driver_step, simp, rule trade, assumption)
    apply clarsimp
    apply (rule delivers_lift, rule mk_pokemon_raw)+
    apply (simp add: delivers_def ret_def session_in_def s)
    done
next
  case (4 x s)
  then have d: "delivers wild (driver_close drv) (\<lambda>_. closed x) (driver s)" and s: "connected s"
    by (auto simp: session_in_def close)
  show ?case
    unfolding session_endpoint_def switch_endpoint.simps session_close_def run_if_def
    by (rule delivers_gets, simp only: s if_True, rule delivers_driver_step [OF d], rule delivers_basic)
      (simp add: session_in_def)
qed

context driver_contract
begin

lemma session_contract: "switch_contract (session_endpoint drv) (session_in False closed) (session_in True ready) wild"
  by (rule session.switch_contract_axioms)

end

text \<open>
  The contract can be met: a partner that takes the offered record and gives its own. Any driver at
  all meets the contract that asks nothing.
\<close>

record partner =
  partner_mon :: pokemon100
  partner_open :: bool
  partner_offer :: bytes

definition partner_driver :: "partner switch_driver" where
  "partner_driver = \<lparr>
     driver_connect = modify (\<lambda>d. d\<lparr>partner_open := True\<rparr>),
     driver_wait = ret (),
     driver_set_offer = (\<lambda>bs. modify (\<lambda>d. d\<lparr>partner_offer := bs\<rparr>)),
     driver_trade = andthen (gets id) (\<lambda>d. andthen (lift (mk_pokemon (partner_offer d))) (\<lambda>m.
       andthen (modify (\<lambda>d. d\<lparr>partner_mon := m\<rparr>)) (\<lambda>_.
       ret (partner_offer d, raw (partner_mon d), True)))),
     driver_close = modify (\<lambda>d. d\<lparr>partner_open := False\<rparr>)\<rparr>"

definition partner_in :: "bool \<Rightarrow> pokemon100 \<Rightarrow> partner \<Rightarrow> bool" where
  "partner_in on x d \<longleftrightarrow> partner_open d = on \<and> partner_mon d = x"

interpretation partner: driver_contract partner_driver "partner_in False" "partner_in True"
    "\<lambda>m x d. partner_in True x d \<and> partner_offer d = raw m" False
  by unfold_locales
    (auto simp: delivers_def partner_driver_def partner_in_def prog_defs mk_pokemon_raw)

interpretation any_driver: driver_contract drv "\<lambda>_ _. True" "\<lambda>_ _. True" "\<lambda>_ _ _. True" True for drv
  by unfold_locales simp_all

section \<open>Properties\<close>

text \<open>
  C38. What the session checks itself, for every driver. A second connect, and a wait or a trade
  without a connection, raise \<open>RuntimeError\<close>; a record with Mail is refused; all of that without a
  call of the driver. A close without a connection does nothing. A trade that returns reports records
  of 100 bytes that are the bytes the driver gave, after the driver was told the offered bytes, and a
  driver that gives another length makes it raise \<open>InvalidPokemon\<close>.
\<close>

theorem session_guards:
  assumes "s = \<lparr>driver = d, connected = on\<rparr>" and "drv = \<lparr>driver_connect = dc, driver_wait = dw,
      driver_set_offer = so, driver_trade = tr, driver_close = cl\<rparr>"
    and "so (raw m) d = Some (d1, Inr ())" and "tr d1 = Some (d2, Inr (bs, cs, ok))"
  shows "(on \<longrightarrow> session_connect drv s = Some (s, Inl (Exn RuntimeError ''Switch session is already connected''))) \<and>
    (\<not> on \<longrightarrow> session_wait drv s = Some (s, Inl (Exn RuntimeError ''Switch session is not connected'')) \<and>
      session_trade drv m s = Some (s, Inl (Exn RuntimeError ''Switch session is not connected'')) \<and>
      session_close drv s = Some (s, Inr ())) \<and>
    (on \<and> holds_mail m \<longrightarrow> (\<exists>t. session_trade drv m s = Some (s, Inl (Exn MailNotSupported t)))) \<and>
    (on \<and> \<not> holds_mail m \<and> length bs = 100 \<and> length cs = 100 \<longrightarrow> (\<exists>x y. raw x = bs \<and> raw y = cs \<and>
      session_trade drv m s = Some (\<lparr>driver = d2, connected = True\<rparr>,
        Inr \<lparr>offered_mon = x, received_mon = y, commit_confirmed = ok\<rparr>))) \<and>
    (on \<and> \<not> holds_mail m \<and> \<not> (length bs = 100 \<and> length cs = 100) \<longrightarrow> (\<exists>e. class_of e = InvalidPokemon \<and>
      session_trade drv m s = Some (\<lparr>driver = d2, connected = True\<rparr>, Inl e)))"
proof -
  have pk: "\<exists>x. mk_pokemon b = Inr x \<and> raw x = b" if "length b = 100" for b
    using that by (auto simp: mk_pokemon_Inr)
  have bad: "\<exists>e. mk_pokemon b = Inl e \<and> class_of e = InvalidPokemon" if "length b \<noteq> 100" for b
    using that by (simp add: mk_pokemon_def party_record_size_def)
  note run = session_defs prog_defs assms
  have traded: "session_trade drv m s = Some (\<lparr>driver = d2, connected = True\<rparr>,
      case mk_pokemon bs of Inl e \<Rightarrow> Inl e | Inr x \<Rightarrow> (case mk_pokemon cs of Inl e \<Rightarrow> Inl e
        | Inr y \<Rightarrow> Inr \<lparr>offered_mon = x, received_mon = y, commit_confirmed = ok\<rparr>))" if "on" "\<not> holds_mail m"
    using that by (simp add: run refuse_mail_def split: sum.split)
  show ?thesis
  proof (intro conjI impI, goal_cases)
    case 5
    then show ?case by (simp add: run refuse_mail_def)
  next
    case 6
    then show ?case using traded pk [of bs] pk [of cs] by auto
  next
    case 7
    then show ?case
      using traded pk [of bs] bad [of bs] bad [of cs] by (cases "length bs = 100") (auto split: sum.split)
  qed (simp_all add: run)
qed

lemma session_guards_witness:
  "\<exists>e d2. class_of e = InvalidPokemon \<and> session_trade (partner_driver\<lparr>driver_trade := ret ([1], [2], True)\<rparr>) (plain_mon 1)
      \<lparr>driver = \<lparr>partner_mon = plain_mon 2, partner_open = True, partner_offer = []\<rparr>, connected = True\<rparr> =
    Some (\<lparr>driver = d2, connected = True\<rparr>, Inl e)"
  using session_guards [where m = "plain_mon 1" and on = True and so = "driver_set_offer partner_driver"
      and d = "\<lparr>partner_mon = plain_mon 2, partner_open = True, partner_offer = []\<rparr>"
      and tr = "ret ([1], [2], True)" and dc = "driver_connect partner_driver" and dw = "driver_wait partner_driver"
      and cl = "driver_close partner_driver" and bs = "[1]" and cs = "[2]", OF refl refl]
  by (simp add: partner_driver_def prog_defs) blast

end
