(* ===== verification/Exchange_Spec.thy ===== *)
theory Exchange_Spec
  imports Escrow_Spec Mocks Switch_Session
begin

text \<open>
  What \<open>TradeCoordinator.execute\<close> promises. Most of it holds whatever the endpoints do; that a run
  comes back and that it swaps the records needs endpoints that come back or meet their contracts,
  and the mock endpoints are such.
\<close>

section \<open>Coming back\<close>

definition answers :: "'s switch_endpoint \<Rightarrow> 'g gba_endpoint \<Rightarrow> bool" where
  "answers sw gb \<longleftrightarrow> (\<forall>s m. returns (switch_connect sw) s \<and> returns (switch_wait sw) s \<and>
       returns (switch_trade sw m) s \<and> returns (switch_close sw) s) \<and>
     (\<forall>g m. returns (gba_connect gb) g \<and> returns (gba_trade gb m) g \<and> returns (gba_close gb) g)"

lemma returns_calls [simp]:
  "returns (switch_call ev m) c = returns m (switch c)" "returns (gba_call ev n) c = returns n (gba c)"
  "returns (sys_call k) c = returns k (system c)"
  by (auto simp: returns_def switch_call_def gba_call_def sys_call_def prog_defs split: option.split)

lemma lift_result: "lift r w = Some (w', x) \<longleftrightarrow> w' = w \<and> x = r"
  by (auto simp: lift_def)

lemma returns_fault_hook [simp]: "returns (fault_hook hook b) c"
  by (auto simp: fault_hook_def intro!: returns_andthen split: option.split)

lemmas returns_rules = returns_andthen returns_try_except returns_try_finally returns_run_if

lemma returns_exchange: "answers sw gb \<Longrightarrow> returns (exchange path sw gb hook p) c"
  by (auto simp: exchange_def connect_both_def stage1_def gba_stage_def stage2_def answers_def
      intro!: returns_rules)

lemma returns_close_both: "answers sw gb \<Longrightarrow> returns (close_both sw gb) c"
  by (auto simp: close_both_def answers_def intro!: returns_rules)

lemma wp_start_new:
  assumes "names w (Path path) = None"
  shows "wp (store_exists path) (\<lambda>b x. \<not> b \<and> names x (Path path) = None) (\<lambda>_ _. True) w"
    "wp (require_new_transaction path) (\<lambda>_ x. names x (Path path) = None) (\<lambda>_ _. True) w"
proof -
  show "wp (store_exists path) (\<lambda>b x. \<not> b \<and> names x (Path path) = None) (\<lambda>_ _. True) w"
    by (rule wp_store_exists) (use assms in simp_all)
  show "wp (require_new_transaction path) (\<lambda>_ x. names x (Path path) = None) (\<lambda>_ _. True) w"
    unfolding require_new_transaction_def wp_andthen
    by (rule wp_store_exists) (use assms in \<open>simp_all add: wp_ret\<close>)
qed

lemma returns_start:
  assumes "names w (Path path) = None"
  shows "returns (require_new_transaction path) w" "returns (create path p) w"
proof -
  have "returns (store_exists path) w"
    by (auto simp: store_exists_def path_exists_def intro!: returns_rules)
  then show "returns (require_new_transaction path) w" "returns (create path p) w"
    using wp_return [OF wp_start_new(1) [OF assms]]
    by (auto simp: require_new_transaction_def create_def intro!: returns_rules)
qed

lemma returns_execute:
  assumes "answers sw gb" and "names (system c) (Path path) = None"
  shows "returns (execute path sw gb hook p) c"
proof -
  have new: "returns (create path p) (system c1)"
    if "sys_call (require_new_transaction path) c = Some (c1, Inr u)" for c1 u
    using wp_return [OF wp_start_new(2) [OF assms(2)]] that
    by (intro returns_start) (auto simp: sys_call_def zoom_def split: option.splits)
  show ?thesis
    unfolding execute_def
    using returns_start [OF assms(2)]
    by (auto simp: lift_result new returns_exchange [OF assms(1)] returns_close_both [OF assms(1)]
        returns_mark_recovery intro!: returns_rules)
qed

section \<open>Runs with the mock endpoints\<close>

text \<open>\<open>_no_fault\<close>, the default hook.\<close>

definition no_fault :: hook where
  "no_fault boundary record = None"

interpretation mocked: escrow mock_switch_endpoint "honest_switch False" "honest_switch True"
    mock_gba_endpoint "honest_gba False" "honest_gba True" "honest_gba True" "honest_gba False" False path no_fault f p for path f p
  by unfold_locales (simp add: no_fault_def)

definition start :: "'s \<Rightarrow> 'g \<Rightarrow> os \<Rightarrow> ('s, 'g) run" where
  "start s g w = \<lparr>system = w, switch = s, gba = g, current = demo_record, gba_connected = False,
     switch_connected = False, trace = []\<rparr>"

lemma start_simps [simp]:
  "system (start s g w) = w" "switch (start s g w) = s" "gba (start s g w) = g" "trace (start s g w) = []"
  by (simp_all add: start_def)

lemma mock_answers [simp]: "answers mock_switch_endpoint mock_gba_endpoint"
  by (simp add: answers_def)

text \<open>A run between the mocks: the placeholder, the Switch player's record and the GBA player's.\<close>

definition demo_start :: "(mock_switch, mock_gba) run" where
  "demo_start = start (mock_switch_init (plain_mon 2) None None) (mock_gba_init (plain_mon 3) 2 True True False)
     (fresh_os (\<lambda>_. None))"

lemma demo_start_wf: "wf_os (system demo_start)" "trace demo_start = []"
  by (simp_all add: demo_start_def)

lemma demo_run:
  "\<exists>c' out. execute [''j''] mock_switch_endpoint mock_gba_endpoint no_fault (plain_mon 1) demo_start =
      Some (c', Inr out) \<and>
    map fst (trace c') = script (plain_mon 1) (plain_mon 2) (plain_mon 3) @ [GbaClose, SwitchClose] \<and>
    present [''j''] (system c') \<and> wf_os (system c')"
proof -
  obtain c' out where run: "execute [''j''] mock_switch_endpoint mock_gba_endpoint no_fault (plain_mon 1) demo_start =
      Some (c', Inr out)"
    and c': "mocked.completed [''j''] (\<lambda>_. None) (plain_mon 1) (plain_mon 2) (plain_mon 3) out demo_start c'"
    using mocked.honest_run [of demo_start "\<lambda>_. None" "[''j'']" "plain_mon 2" "plain_mon 3" "plain_mon 1"]
    by (auto simp: demo_start_def)
  have "wf_os (system c')"
    using c' unfolding mocked.completed_def mocked.swapped_def mocked.opened_def agrees_def by auto
  then show ?thesis
    using run mocked.completed_facts [OF c'] by (auto intro: durable_present)
qed

text \<open>A run whose first call fails.\<close>

lemma connect_fails:
  assumes "wf_os (system c)" and "fault (system c) = (\<lambda>_. None)" and "trace c = []"
    and "names (system c) (Path path) = None" and "refuse_mail p = Inr ()"
    and "switch_connect sw (switch c) = Some (s, Inl e)" and "isinstance e Exception"
    and "answers sw gb" and closing: "\<And>x. wp (close_both sw gb) (\<lambda>_ _. True) (\<lambda>_ _. False) x"
  shows "\<exists>c'. execute path sw gb hook p c = Some (c', Inl e)"
proof -
  let ?E = "\<lambda>e' c'. e' = e"
  have exch: "wp (exchange path sw gb hook p) Q E c1 =
      E e (c1\<lparr>trace := trace c1 @ [(SwitchConnect, system c1)], switch := s\<rparr>)"
    if "switch c1 = switch c" for Q E c1
    using assms(6) that by (simp add: exchange_def connect_both_def wp_def switch_call_def prog_defs)
  have run: "wp (try_finally (try_except Exception (exchange path sw gb hook p)
        (\<lambda>exc. andthen (mark_recovery path exc) (\<lambda>_. raise exc))) (close_both sw gb)) (\<lambda>_ _. False) ?E c1"
    if c1: "any.started path (\<lambda>_. None) p undefined undefined c1" "switch c1 = switch c" for c1
  proof -
    have "agrees path (\<lambda>_. None) (ledger0 p) c1" using c1(1) by (simp add: any.started_def)
    from agrees_stopped [OF agrees_call [OF this, where ev = SwitchConnect and s = s and g = "gba c1"], of p]
    have "stopped path (\<lambda>_. None) p (c1\<lparr>trace := trace c1 @ [(SwitchConnect, system c1)], switch := s\<rparr>)"
      by (simp add: in_order_def script_def)
    from wp_mark_recovery [OF this, of e] show ?thesis
      unfolding wp_try_finally wp_try_except exch [OF c1(2)] if_P [OF assms(7)] wp_andthen wp_raise
      by (rule wp_mono) (auto intro: wp_mono [OF closing])
  qed
  have "wp (execute path sw gb hook p) (\<lambda>_ _. False) ?E c"
    unfolding execute_def wp_andthen wp_lift assms(5) sum.case sys_call_def wp_zoom wp_modify
  proof (rule wp_mono [OF wp_conj [OF wp_require_new_transaction [OF assms(1)] wp_require_raises]], goal_cases)
    case (1 _ w)
    then obtain n where w: "w = (system c)\<lparr>calls := n\<rparr>" by blast
    show ?case
      unfolding w
    proof (rule wp_create, goal_cases)
      case (2 at u x)
      then show ?case by (intro run any.created_started) (use assms(2,3) in auto)
    qed (use assms 1 in auto)
  qed (use assms(2,4) in auto)
  moreover have "returns (execute path sw gb hook p) c" by (rule returns_execute [OF assms(8,4)])
  ultimately obtain c' res where "execute path sw gb hook p c = Some (c', res)" "res = Inl e"
    unfolding wp_def returns_def by (cases "execute path sw gb hook p c") (force split: sum.splits)+
  then show ?thesis by blast
qed

definition open_start :: "(mock_switch, mock_gba) run" where
  "open_start = start ((mock_switch_init (plain_mon 2) None None)\<lparr>switch_open := True\<rparr>)
     (mock_gba_init (plain_mon 3) 2 True True False) (fresh_os (\<lambda>_. None))"

lemma wp_close_mocks: "wp (close_both mock_switch_endpoint mock_gba_endpoint) (\<lambda>_ _. True) (\<lambda>_ _. False) x"
  by (simp add: close_both_def wp_simps switch_call_def gba_call_def mock_switch_defs mock_gba_defs)

lemma open_run:
  "\<exists>c' e. execute [''j''] mock_switch_endpoint mock_gba_endpoint no_fault (plain_mon 1) open_start = Some (c', Inl e) \<and>
    isinstance e Exception"
proof -
  let ?e = "Exn EndpointError ''mock Switch session connected twice''"
  have ex: "isinstance ?e Exception" by (simp add: isinstance_simps)
  have conn: "switch_connect mock_switch_endpoint (switch open_start) = Some (switch open_start, Inl ?e)"
    by (simp add: open_start_def mock_switch_defs prog_defs)
  have c: "wf_os (system open_start)" "fault (system open_start) = (\<lambda>_. None)" "trace open_start = []"
      "names (system open_start) (Path [''j'']) = None"
    by (simp_all add: open_start_def)
  show ?thesis
    using connect_fails [OF c refuse_plain_mon conn ex mock_answers wp_close_mocks] ex by blast
qed

section \<open>Runs over a Switch session\<close>

lemma session_exchange:
  assumes "driver_contract drv dclosed dready doffer False" and "gba_contract gb gfresh gready gtraded gclosed False"
    and "wf_os (system c)" and "\<forall>n. fault (system c) n = None" and "trace c = []"
    and "names (system c) (Path path) = None" and "switch c = session_init d" and "dclosed x d"
    and "gfresh y (gba c)" and "\<forall>m \<in> {p, x, y}. refuse_mail m = Inr ()"
  shows "\<exists>c' out. execute path (session_endpoint drv) gb no_fault p c = Some (c', Inr out) \<and>
    gba_mon out = x \<and> switch_mon out = y \<and> broker_mon out = p \<and>
    \<not> connected (switch c') \<and> dclosed y (driver (switch c')) \<and> gclosed x (gba c')"
proof -
  have sw: "switch_contract (session_endpoint drv) (session_in False dclosed) (session_in True dready) False"
    using driver_contract.session_contract [OF assms(1)] .
  have e: "escrow (session_endpoint drv) (session_in False dclosed) (session_in True dready) gb gfresh gready
      gtraded gclosed False no_fault"
    by (intro escrow.intro escrow_axioms.intro sw assms(2)) (simp add: no_fault_def)
  have quiet: "fault (system c) = (\<lambda>_. None)" using assms(4) by auto
  have init: "session_in False dclosed x (switch c)" using assms(7,8) by (simp add: session_in_def session_init_def)
  obtain c' out where run: "execute path (session_endpoint drv) gb no_fault p c = Some (c', Inr out)"
    and done': "escrow.completed (session_in False dclosed) (session_in True dready) gready gtraded gclosed False path
      (\<lambda>_. None) p x y out c c'"
    using escrow.honest_run [OF e assms(3) quiet refl assms(5) _ assms(6) init assms(9,10)] by auto
  show ?thesis
    using run escrow.completed_facts [OF e done'] by (auto simp: session_in_def)
qed

section \<open>How a run ends\<close>

definition settled :: "string list \<Rightarrow> pokemon100 \<Rightarrow> transaction_outcome \<Rightarrow> os \<Rightarrow> bool" where
  "settled path p out w \<longleftrightarrow> broker_mon out = p \<and> (\<exists>r. durable w path (journal_bytes r) \<and> wf_record r \<and>
     tx_id r = outcome_id out \<and> jstate r = state_value COMPLETE \<and>
     map_of (hashes r) = [''A'' \<mapsto> Some (sha256 (switch_mon out)), ''B'' \<mapsto> Some (sha256 (gba_mon out)),
       ''P'' \<mapsto> Some (sha256 p)] \<and> evidence path w r)"

definition set_back :: "string list \<Rightarrow> exn \<Rightarrow> os \<Rightarrow> bool" where
  "set_back path e w \<longleftrightarrow> (\<exists>r. durable w path (journal_bytes r) \<and> wf_record r \<and>
     jstate r = state_value RECOVERY_REQUIRED \<and> last_error r = Some (exn_text e) \<and> evidence path w r)"

lemma complete_history:
  assumes "wf_record r" and "map entry_state (history r) = map state_value forward"
  shows "jstate r = state_value COMPLETE"
proof -
  obtain ss where "map state_value forward = map state_value ss" "jstate r = state_value (last ss)"
    using assms by (auto simp: wf_record_def)
  moreover have "inj state_value" by (simp add: inj_def)
  ultimately have "jstate r = state_value (last forward)" by (simp add: inj_map_eq_map)
  then show ?thesis by (simp add: forward_def)
qed

lemma settled_completed:
  assumes "any.completed path f p x y out c c'"
  shows "settled path p out (system c')"
proof -
  note facts = any.completed_facts [OF assms]
  have "jstate (current c') = state_value COMPLETE" using facts by (intro complete_history) simp_all
  then show ?thesis
    using facts unfolding settled_def
    by (intro conjI exI [of _ "current c'"]) (auto simp: evidence_def split: if_splits)
qed

lemma set_back_broken_off:
  assumes "broken_off path p e c c'" and "\<forall>n. fault (system c) n = None" and "isinstance e Exception"
  shows "set_back path e (system c')"
proof -
  have "fault (system c) = (\<lambda>_. None)" using assms(2) by auto
  then show ?thesis using assms(1,3) by (auto simp: set_back_def broken_off_def only_closes_def recovered_def)
qed

section \<open>Properties\<close>

text \<open>
  C32. Every run settles. Take endpoints each of whose operations comes back, with a value or an
  exception; a path at which there is no journal; and an operating system of which no call fails. Then
  \<open>execute\<close> comes back, whatever the hook raises, and how it ends can be read off the journal. If the
  placeholder holds Mail, the run raises that refusal and has touched nothing. If it returns an outcome,
  the durable journal is complete, has the hashes of the three records and the bytes of each are durably
  on disk, and the calls were those of the protocol. If it raises an \<open>Exception\<close>, the durable journal
  says \<open>RECOVERY_REQUIRED\<close> with the text of the exception; if it is torn down by another
  \<open>BaseException\<close>, there is a journal, which a power loss does not take away, so that the next start finds
  it. In all cases every trade was secured when it was asked for, and the calls came in the order of the
  protocol.
\<close>

theorem every_run_settles:
  assumes "answers sw gb" and "names (system c) (Path path) = None" and "\<forall>n. fault (system c) n = None"
    and "wf_os (system c)" and "trace c = []"
  shows "\<exists>c' res. execute path sw gb hook p c = Some (c', res) \<and> guarded path (trace c') \<and>
    (\<exists>cs ds. map fst (trace c') = cs @ ds \<and> in_order p cs \<and> set ds \<subseteq> {GbaClose, SwitchClose}) \<and>
    (case res of
      Inr out \<Rightarrow> settled path p out (system c') \<and>
        map fst (trace c') = script p (gba_mon out) (switch_mon out) @ [GbaClose, SwitchClose]
    | Inl e \<Rightarrow> refuse_mail p = Inl e \<and> c' = c \<or>
        refuse_mail p = Inr () \<and> present path (system c') \<and>
        (isinstance e Exception \<longrightarrow> set_back path e (system c')))"
proof -
  obtain c' res where run: "execute path sw gb hook p c = Some (c', res)"
    using returns_execute [OF assms(1,2), of hook p] by (auto simp: returns_def)
  note any = execute_any [OF assms(4,5) run]
  show ?thesis
  proof (cases res)
    case (Inl e)
    show ?thesis
    proof (cases "refuse_mail p")
      case (Inl e')
      then have "c' = c" "res = Inl e'" using run by (auto simp: execute_def andthen_def lift_def)
      then show ?thesis using Inl run assms(5) by (auto simp: guarded_def in_order_def)
    next
      case (Inr u)
      then have "broken_off path p e c c'" using any assms(2,3) \<open>res = Inl e\<close> by (auto simp: refused_def)
      then show ?thesis
        using any.broken_off_order set_back_broken_off assms(3) Inr \<open>res = Inl e\<close> run by fastforce
    qed
  next
    case (Inr out)
    then have done': "any.completed path (fault (system c)) p undefined undefined out c c'" using any by simp
    note facts = any.completed_facts [OF done']
    have "in_order p (script p (gba_mon out) (switch_mon out))" unfolding in_order_def by blast
    then have "\<exists>cs ds. map fst (trace c') = cs @ ds \<and> in_order p cs \<and> set ds \<subseteq> {GbaClose, SwitchClose}"
      using facts by (intro exI [of _ "script p (gba_mon out) (switch_mon out)"] exI [of _ "[GbaClose, SwitchClose]"]) simp
    then show ?thesis using facts settled_completed [OF done'] Inr run by simp
  qed
qed

lemma every_run_settles_witness:
  "\<exists>c' e. execute [''j''] mock_switch_endpoint mock_gba_endpoint
      (\<lambda>b r. if b = ''after_gba_endpoint_before_persist'' then Some (Exn RuntimeError b) else None) (plain_mon 1) demo_start =
      Some (c', e) \<and> present [''j''] (system c')"
proof -
  have "names (system demo_start) (Path [''j'']) = None" "\<forall>n. fault (system demo_start) n = None"
    by (simp_all add: demo_start_def)
  from every_run_settles [OF mock_answers this demo_start_wf,
      of "\<lambda>b r. if b = ''after_gba_endpoint_before_persist'' then Some (Exn RuntimeError b) else None" "plain_mon 1"]
  show ?thesis
  proof (elim exE conjE, goal_cases)
    case (1 c' res)
    then show ?case
      by (intro exI [of _ c'] exI [of _ res])
        (cases res; auto simp: settled_def intro: durable_present)
  qed
qed

text \<open>
  C15. The exchange. With no failing call and no journal, and neither of the records with Mail, a run
  against the mock endpoints comes back normally: the Switch player's record is then on the GBA, the
  GBA player's on the Switch, the broker has its placeholder back, and both sessions are closed.
\<close>

theorem records_swapped:
  assumes "wf_os (system c)" and "\<forall>n. fault (system c) n = None" and "trace c = []"
    and "names (system c) (Path path) = None" and "honest_switch False x (switch c)"
    and "honest_gba False y (gba c)" and "\<forall>m \<in> {p, x, y}. refuse_mail m = Inr ()"
  shows "\<exists>c' out. execute path mock_switch_endpoint mock_gba_endpoint no_fault p c = Some (c', Inr out) \<and>
    gba_mon out = x \<and> switch_mon out = y \<and> broker_mon out = p \<and>
    honest_switch False y (switch c') \<and> honest_gba False x (gba c')"
proof -
  have quiet: "fault (system c) = (\<lambda>_. None)" using assms(2) by auto
  show ?thesis
    using mocked.honest_run [OF assms(1) refl quiet assms(3) _ assms(4-7)] mocked.completed_facts by fastforce
qed

lemma records_swapped_witness:
  "\<exists>c' out. execute [''j''] mock_switch_endpoint mock_gba_endpoint no_fault (plain_mon 1) demo_start =
      Some (c', Inr out) \<and> switch_owned (switch c') = plain_mon 3 \<and> gba_owned (gba c') = plain_mon 2"
proof -
  have "honest_switch False (plain_mon 2) (switch demo_start)" "honest_gba False (plain_mon 3) (gba demo_start)"
    by (simp_all add: demo_start_def)
  from records_swapped [OF demo_start_wf(1) _ demo_start_wf(2) _ this, of "[''j'']" "plain_mon 1"]
  show ?thesis by (auto simp: demo_start_def honest_switch_def honest_gba_def)
qed

text \<open>
  C1. What a completed transaction means. If \<open>execute\<close> returns, whatever the endpoints, the hook
  and the failing calls were, then: there was no journal before; none of the three records holds
  Mail; the placeholder came back byte for byte; the journal on disk is complete, durable and has
  passed through all states in order; it holds the hashes of all three records and says that A is on
  the Switch, B on the GBA and P with the broker; the four artifacts are durably on disk; and the
  endpoints were called exactly in the order of the protocol, each once, and closed.
\<close>

theorem transaction_success:
  assumes "wf_os (system c)" and "trace c = []" and "execute path sw gb hook p c = Some (c', Inr out)"
  shows "names (system c) (Path path) = None \<and> broker_mon out = p \<and>
    (\<forall>m \<in> {p, gba_mon out, switch_mon out}. refuse_mail m = Inr ()) \<and>
    (\<exists>r. durable (system c') path (journal_bytes r) \<and> wf_record r \<and> tx_id r = outcome_id out \<and>
      map entry_state (history r) = map state_value forward \<and>
      map_of (hashes r) = [''A'' \<mapsto> Some (sha256 (switch_mon out)), ''B'' \<mapsto> Some (sha256 (gba_mon out)),
        ''P'' \<mapsto> Some (sha256 p)] \<and>
      map_of (locations r) = [''A'' \<mapsto> ''switch'', ''B'' \<mapsto> ''gba'', ''P'' \<mapsto> ''broker''] \<and>
      (\<forall>(n, m) \<in> {(''A'', switch_mon out), (''B'', gba_mon out), (''P'', p), (''P_RETURNED'', p)}.
        durable (system c') (artifact_path path (tx_id r) n m) (raw m))) \<and>
    map fst (trace c') = script p (gba_mon out) (switch_mon out) @ [GbaClose, SwitchClose]"
  using any.completed_facts [of path "fault (system c)" p undefined undefined out c c']
    execute_any [OF assms]
  by (simp only: sum.case) blast

lemma transaction_success_witness:
  "\<exists>c' out r. execute [''j''] mock_switch_endpoint mock_gba_endpoint no_fault (plain_mon 1) demo_start =
      Some (c', Inr out) \<and> broker_mon out = plain_mon 1 \<and> durable (system c') [''j''] (journal_bytes r) \<and>
    map entry_state (history r) = map state_value forward"
proof -
  obtain c' out where run: "execute [''j''] mock_switch_endpoint mock_gba_endpoint no_fault (plain_mon 1) demo_start =
      Some (c', Inr out)"
    using demo_run by blast
  show ?thesis
    using transaction_success [OF demo_start_wf run] run by blast
qed

text \<open>
  C4. What a failed transaction leaves. With no failing call and no journal before, a run that got
  past the Mail check and ends in an \<open>Exception\<close> leaves a durable, well-formed journal in
  \<open>RECOVERY_REQUIRED\<close> whose last error is the text of that exception; and of every record whose
  hash the journal has, the bytes are durably on disk.
\<close>

theorem transaction_failure:
  assumes "wf_os (system c)" and "trace c = []" and "\<forall>n. fault (system c) n = None"
    and "names (system c) (Path path) = None" and "refuse_mail p = Inr ()"
    and "execute path sw gb hook p c = Some (c', Inl e)" and "isinstance e Exception"
  shows "\<exists>r. durable (system c') path (journal_bytes r) \<and> wf_record r \<and>
    jstate r = state_value RECOVERY_REQUIRED \<and> last_error r = Some (exn_text e) \<and>
    evidence path (system c') r"
proof -
  have quiet: "fault (system c) = (\<lambda>_. None)" using assms(3) by auto
  have "\<not> refused path p c c'" using assms(4,5) quiet by (simp add: refused_def)
  then have "broken_off path p e c c'" using execute_any [OF assms(1,2,6)] by simp
  then show ?thesis using quiet assms(7) by (auto simp: broken_off_def only_closes_def recovered_def)
qed

lemma transaction_failure_witness:
  "\<exists>c' e r. execute [''j''] mock_switch_endpoint mock_gba_endpoint no_fault (plain_mon 1) open_start =
      Some (c', Inl e) \<and> durable (system c') [''j''] (journal_bytes r) \<and>
    jstate r = state_value RECOVERY_REQUIRED \<and> last_error r = Some (exn_text e)"
proof -
  obtain c' e where run: "execute [''j''] mock_switch_endpoint mock_gba_endpoint no_fault (plain_mon 1) open_start =
      Some (c', Inl e)" and e: "isinstance e Exception"
    using open_run by blast
  show ?thesis
    using transaction_failure [OF _ _ _ _ _ run e] run by (auto simp: open_start_def)
qed

text \<open>
  C3. Nothing is traded that is not secured. However a run ends, every trade it asked an endpoint for
  was of a record without Mail whose bytes were at that moment durably on disk, its hash in a durable
  journal that already said that this trade was starting; and the calls came in the order of the
  protocol, so at most one trade of each stage was asked for.
\<close>

theorem trades_secured:
  assumes "wf_os (system c)" and "trace c = []" and "execute path sw gb hook p c = Some (c', res)"
  shows "guarded path (trace c') \<and>
    (\<exists>cs ds. map fst (trace c') = cs @ ds \<and> in_order p cs \<and> set ds \<subseteq> {GbaClose, SwitchClose})"
proof (cases res)
  case (Inl e)
  have "trace c' = [] \<or> broken_off path p e c c'"
    using execute_any [OF assms] Inl assms(2) by (auto simp: refused_def)
  then show ?thesis
    using any.broken_off_order [of path p e c c'] by (auto simp: in_order_def)
next
  case (Inr out)
  then have "guarded path (trace c') \<and>
      map fst (trace c') = script p (gba_mon out) (switch_mon out) @ [GbaClose, SwitchClose]"
    using any.completed_facts [of path "fault (system c)" p undefined undefined out c c'] execute_any [OF assms]
    by simp
  moreover have "in_order p (script p (gba_mon out) (switch_mon out))"
    unfolding in_order_def by blast
  ultimately show ?thesis
    by (intro conjI exI [of _ "script p (gba_mon out) (switch_mon out)"] exI [of _ "[GbaClose, SwitchClose]"]) simp_all
qed

lemma trades_secured_witness:
  "\<exists>c' res. execute [''j''] mock_switch_endpoint mock_gba_endpoint no_fault (plain_mon 1) demo_start = Some (c', res) \<and>
    SwitchTrade (plain_mon 3) \<in> fst ` set (trace c') \<and> guarded [''j''] (trace c')"
proof -
  obtain c' out where run: "execute [''j''] mock_switch_endpoint mock_gba_endpoint no_fault (plain_mon 1) demo_start =
      Some (c', Inr out)"
    and tr: "map fst (trace c') = script (plain_mon 1) (plain_mon 2) (plain_mon 3) @ [GbaClose, SwitchClose]"
    using demo_run by blast
  have "SwitchTrade (plain_mon 3) \<in> set (map fst (trace c'))" unfolding tr by (simp add: script_def)
  then show ?thesis
    using trades_secured [OF demo_start_wf run] run by auto
qed

text \<open>
  C5. No transaction is resumed or started twice. Once a run has called an endpoint, a later run on
  the files it left, with any endpoints and whatever calls fail, returns an exception and calls no
  endpoint; and a power loss between the two leaves a journal at the path as well.
\<close>

theorem never_resumed:
  assumes "wf_os (system c)" and "trace c = []" and "execute path sw gb hook p c = Some (c', res)"
    and "trace c' \<noteq> []" and "wf_os (system d)" and "trace d = []"
    and "contents (system d) (Path path) = contents (system c') (Path path)"
    and "execute path sw2 gb2 hook2 p2 d = Some (d', res2)"
  shows "trace d' = [] \<and> switch d' = switch d \<and> gba d' = gba d \<and> (\<exists>e. res2 = Inl e) \<and>
    \<not> survives (system c') (Path path) None"
proof -
  have "present path (system c')"
  proof (cases res)
    case (Inl e)
    then have "broken_off path p e c c'" using execute_any [OF assms(1-3)] assms(2,4) by (auto simp: refused_def)
    then show ?thesis using any.broken_off_order by blast
  next
    case (Inr out)
    then show ?thesis
      using any.completed_facts [of path "fault (system c)" p undefined undefined out c c'] execute_any [OF assms(1-3)]
      by (auto intro: durable_present)
  qed
  then have old: "names (system d) (Path path) \<noteq> None" "\<not> survives (system c') (Path path) None"
    using assms(7) by (auto simp: present_def contents_def)
  show ?thesis
  proof (cases res2)
    case (Inl e)
    then show ?thesis
      using execute_any [OF assms(5,6,8)] old assms(6) by (auto simp: refused_def broken_off_def)
  next
    case (Inr out)
    then show ?thesis
      using any.completed_facts [of path "fault (system d)" p2 undefined undefined out d d']
        execute_any [OF assms(5,6,8)] old by simp
  qed
qed

lemma never_resumed_witness:
  "\<exists>c' out d d' e. execute [''j''] mock_switch_endpoint mock_gba_endpoint no_fault (plain_mon 1) demo_start =
      Some (c', Inr out) \<and> contents (system d) (Path [''j'']) = contents (system c') (Path [''j'']) \<and>
    execute [''j''] mock_switch_endpoint mock_gba_endpoint no_fault (plain_mon 1) d = Some (d', Inl e) \<and> trace d' = []"
proof -
  obtain c' out where run: "execute [''j''] mock_switch_endpoint mock_gba_endpoint no_fault (plain_mon 1) demo_start =
      Some (c', Inr out)"
    and c': "map fst (trace c') = script (plain_mon 1) (plain_mon 2) (plain_mon 3) @ [GbaClose, SwitchClose]"
      "wf_os (system c')"
    using demo_run by blast
  have moved: "trace c' \<noteq> []" using c'(1) by (auto simp: script_def)
  let ?d = "start (switch demo_start) (gba demo_start) ((system c')\<lparr>fault := \<lambda>_. Some ''I/O error''\<rparr>)"
  have same: "contents (system ?d) (Path [''j'']) = contents (system c') (Path [''j''])"
    by (simp add: contents_def)
  have "returns (execute [''j''] mock_switch_endpoint mock_gba_endpoint no_fault (plain_mon 1)) ?d"
    by (simp add: returns_def execute_def sys_call_def require_new_transaction_def store_exists_def
        path_exists_def sys_def prog_defs)
  then obtain d' res2 where
    d': "execute [''j''] mock_switch_endpoint mock_gba_endpoint no_fault (plain_mon 1) ?d = Some (d', res2)"
    by (auto simp: returns_def)
  have "wf_os (system ?d)" using c'(2) by (simp add: wf_os_def)
  from never_resumed [OF demo_start_wf run moved this _ same d']
  obtain e where "res2 = Inl e" "trace d' = []" by (auto simp: start_def)
  then show ?thesis using run same d' by blast
qed

text \<open>
  C14. What hardware has to do. For every Switch driver and every GBA endpoint that keep their
  contracts, a run of the coordinator over \<open>SwitchTradeSession\<close> with that driver, with no failing
  call, completes with the records of the two players swapped, the placeholder back, the driver and
  the GBA endpoint closed, and the session connected no longer.
\<close>

theorem session_swaps:
  assumes "driver_contract drv dclosed dready doffer False" and "gba_contract gb gfresh gready gtraded gclosed False"
    and "wf_os (system c)" and "\<forall>n. fault (system c) n = None" and "trace c = []"
    and "names (system c) (Path path) = None" and "switch c = session_init d" and "dclosed x d"
    and "gfresh y (gba c)" and "\<forall>m \<in> {p, x, y}. refuse_mail m = Inr ()"
  shows "\<exists>c' out. execute path (session_endpoint drv) gb no_fault p c = Some (c', Inr out) \<and>
    gba_mon out = x \<and> switch_mon out = y \<and> broker_mon out = p \<and>
    \<not> connected (switch c') \<and> dclosed y (driver (switch c')) \<and> gclosed x (gba c')"
  by (rule session_exchange [OF assms])

lemma session_swaps_witness:
  "\<exists>c' out. execute [''j''] (session_endpoint partner_driver) mock_gba_endpoint no_fault (plain_mon 1)
      (start (session_init \<lparr>partner_mon = plain_mon 2, partner_open = False, partner_offer = []\<rparr>)
        (mock_gba_init (plain_mon 3) 0 True True False) (fresh_os (\<lambda>_. None))) = Some (c', Inr out) \<and>
    gba_mon out = plain_mon 2 \<and> partner_mon (driver (switch c')) = plain_mon 3"
proof -
  have "partner_in False (plain_mon 2) \<lparr>partner_mon = plain_mon 2, partner_open = False, partner_offer = []\<rparr>"
    by (simp add: partner_in_def)
  from session_swaps [OF partner.driver_contract_axioms mock_gba.gba_contract_axioms, of
      "start (session_init \<lparr>partner_mon = plain_mon 2, partner_open = False, partner_offer = []\<rparr>)
        (mock_gba_init (plain_mon 3) 0 True True False) (fresh_os (\<lambda>_. None))" "[''j'']", OF _ _ _ _ _ this,
      of "plain_mon 3" "plain_mon 1"]
  show ?thesis by (auto simp: partner_in_def)
qed

end
