(* ===== verification/Packets.thy ===== *)
theory Packets
  imports Streams
begin

text \<open>
  The packet layer of \<open>SerialTransport\<close> (\<open>broker/gba/serial.py\<close>): \<open>GB\<close>, a channel byte, a length
  and at most 64 bytes. \<open>packet_step\<close> is one turn of the loop of \<open>_feed_outer\<close>; a packet is taken off
  with its channel, and the payloads of the data channel are what the transport yields. Unlike
  the frame decoder, a raise keeps what the same call has put into the data buffer before.
\<close>

definition sync :: bytes where "sync = [0x47, 0x42]"
definition channel_command :: nat where "channel_command = 0"
definition channel_data :: nat where "channel_data = 1"
definition channel_status :: nat where "channel_status = 2"
definition max_outer_payload :: nat where "max_outer_payload = 64"

lemmas packet_consts = sync_def channel_command_def channel_data_def channel_status_def max_outer_payload_def

text \<open>The frame of \<open>_write_outer\<close>.\<close>

definition outer_frame :: "nat \<Rightarrow> bytes \<Rightarrow> bytes" where
  "outer_frame channel payload = sync @ [of_nat channel] @ le_bytes 2 (length payload) @ payload"

text \<open>One turn of the loop after the buffer has been cut to begin with the sync bytes.\<close>

definition take_packet :: "bytes \<Rightarrow> (nat \<times> bytes) stream_step" where
  "take_packet buf = (
    if length buf < 5 then Wait buf
    else
      let channel = unat (buf ! 2); size = le_nat (slice 3 5 buf) in
      if size > max_outer_payload then
        Fail (Exn EndpointError (''invalid GB-Link CDC outer length '' @ dec (int size))) (drop 2 buf)
      else if length buf < 5 + size then Wait buf
      else
        let payload = slice 5 (5 + size) buf; rest = drop (5 + size) buf in
        if channel \<in> {channel_data, channel_command, channel_status} then Emit (channel, payload) rest
        else Fail (Exn EndpointError (''unknown GB-Link CDC channel '' @ dec (int channel))) rest)"

text \<open>What stays of a buffer without sync bytes: a last byte that may begin them.\<close>

definition packet_rest :: "bytes \<Rightarrow> bytes" where
  "packet_rest buffer = (
    if drop (length buffer - 1) buffer = take 1 sync then drop (length buffer - 1) buffer else [])"

definition packet_step :: "bytes \<Rightarrow> (nat \<times> bytes) stream_step" where
  "packet_step buffer = (case find_sub sync buffer of
      None \<Rightarrow> Wait (packet_rest buffer)
    | Some sync_at \<Rightarrow> take_packet (drop sync_at buffer))"

lemma take_packet_emit_shorter: "take_packet b = Emit f b' \<Longrightarrow> length b' < length b"
  by (auto simp: take_packet_def Let_def split: if_splits)

lemma packet_emit_shorter: "packet_step b = Emit f b' \<Longrightarrow> length b' < length b"
  by (auto simp: packet_step_def split: option.splits dest!: take_packet_emit_shorter find_sub_Some)

function packet_loop :: "bytes \<Rightarrow> bytes \<times> (nat \<times> bytes) list \<times> exn option" where
  "packet_loop b = (case packet_step b of
      Wait b' \<Rightarrow> (b', [], None)
    | Fail e b' \<Rightarrow> (b', [], Some e)
    | Emit f b' \<Rightarrow> (case packet_loop b' of (b'', fs, r) \<Rightarrow> (b'', f # fs, r)))"
  by pat_completeness auto
termination
  by (relation "measure length") (auto dest: packet_emit_shorter)

declare packet_loop.simps [simp del]

text \<open>What packets add to the data buffer.\<close>

definition channel_bytes :: "(nat \<times> bytes) list \<Rightarrow> bytes" where
  "channel_bytes ps = concat (map snd (filter (\<lambda>(channel, _). channel = channel_data) ps))"

text \<open>\<open>_feed_outer(data)\<close> on the outer buffer and the data buffer.\<close>

definition feed_outer :: "bytes \<times> bytes \<Rightarrow> bytes \<Rightarrow> (bytes \<times> bytes) \<times> (exn + unit)" where
  "feed_outer bufs data = (case bufs of (outer, inner) \<Rightarrow>
    (case packet_loop (outer @ data) of
      (outer', ps, None) \<Rightarrow> ((outer', inner @ channel_bytes ps), Inr ())
    | (outer', ps, Some e) \<Rightarrow> ((outer', inner @ channel_bytes ps), Inl e)))"

section \<open>Packets do not depend on the chunks\<close>

lemma take_packet_wait: "take_packet b = Wait b' \<Longrightarrow> b' = b"
  by (auto simp: take_packet_def Let_def split: if_splits)

lemma take_packet_extend:
  assumes "\<And>x. take_packet b \<noteq> Wait x"
  shows "take_packet (b @ c) = (case take_packet b of
      Wait x \<Rightarrow> Wait x | Emit f x \<Rightarrow> Emit f (x @ c) | Fail e x \<Rightarrow> Fail e (x @ c))"
proof -
  have h: "5 \<le> length b"
    using assms by (cases "length b < 5") (auto simp: take_packet_def)
  then have fields: "(b @ c) ! 2 = b ! 2" "slice 3 5 (b @ c) = slice 3 5 b"
    by (simp_all add: nth_append slice_append_left)
  show ?thesis
  proof (cases "le_nat (slice 3 5 b) > max_outer_payload")
    case True
    then show ?thesis using h by (simp add: take_packet_def Let_def fields)
  next
    case False
    have t: "5 + le_nat (slice 3 5 b) \<le> length b"
    proof (rule ccontr)
      assume "\<not> 5 + le_nat (slice 3 5 b) \<le> length b"
      then have "take_packet b = Wait b" using False h by (simp add: take_packet_def Let_def)
      then show False using assms by blast
    qed
    then show ?thesis using False h by (simp add: take_packet_def Let_def fields slice_append_left)
  qed
qed

lemma packet_step_starts: "starts_with sync b \<Longrightarrow> packet_step b = take_packet b"
  by (simp add: packet_step_def find_sub_0)

lemma packet_step_found:
  assumes "packet_step b = s" and "\<And>x. s \<noteq> Wait x"
  obtains k where "find_sub sync b = Some k" "k \<le> length b" "take_packet (drop k b) = s"
  using assms by (auto simp: packet_step_def split: option.splits dest: find_sub_Some)

lemma packet_step_extend:
  "packet_step b = Emit f b' \<Longrightarrow> packet_step (b @ c) = Emit f (b' @ c)"
  "packet_step b = Fail e b' \<Longrightarrow> packet_step (b @ c) = Fail e (b' @ c)"
  by (erule packet_step_found, simp,
      simp add: packet_step_def find_sub_append_Some take_packet_extend)+

text \<open>Of a buffer without sync bytes only a last \<open>G\<close> can matter.\<close>

lemma packet_rest_drop: "\<exists>m. m \<le> length b \<and> packet_rest b = drop m b \<and>
    (\<forall>i c. i < m \<longrightarrow> length b < i + length sync \<longrightarrow> \<not> starts_with sync (drop i (b @ c)))"
  by (intro exI [of _ "if drop (length b - 1) b = take 1 sync then length b - 1 else length b"],
      cases b rule: rev_cases) (auto simp: packet_rest_def starts_with_def sync_def less_Suc_eq)

lemma packet_rest_simps [simp]:
  "packet_rest [] = []" "packet_rest (xs @ [y]) = (if y = 0x47 then [y] else [])"
  "packet_rest [y] = (if y = 0x47 then [y] else [])"
  by (simp_all add: packet_rest_def sync_def)

lemma packet_rest_append: "packet_rest (b @ c) = packet_rest (packet_rest b @ c)"
proof (cases c rule: rev_cases)
  case Nil
  then show ?thesis by (cases b rule: rev_cases) simp_all
next
  case (snoc ys y)
  then show ?thesis
    using packet_rest_simps(2) [of "b @ ys" y] packet_rest_simps(2) [of "packet_rest b @ ys" y] by simp
qed

lemma packet_step_wait:
  assumes "packet_step b = Wait b'"
  shows "packet_step (b @ c) = packet_step (b' @ c)"
proof (cases "find_sub sync b")
  case None
  then have b': "b' = packet_rest b" using assms by (simp add: packet_step_def)
  obtain m where m: "m \<le> length b" "packet_rest b = drop m b"
      "\<And>i. i < m \<Longrightarrow> length b < i + length sync \<Longrightarrow> \<not> starts_with sync (drop i (b @ c))"
    using packet_rest_drop [of b] by blast
  have find: "find_sub sync (b @ c) = map_option (\<lambda>k. k + m) (find_sub sync (b' @ c))"
    unfolding b' m(2) by (rule find_sub_append_None [OF None m(1,3)])
  have "drop (k + m) (b @ c) = drop k (b' @ c)" for k
    using m(1) by (simp add: b' m(2) drop_append ac_simps)
  then show ?thesis
    unfolding packet_step_def find packet_rest_append [of b c] b' [symmetric]
    by (simp split: option.split)
next
  case (Some k)
  then have "take_packet (drop k b) = Wait b'" using assms by (simp add: packet_step_def)
  then have b': "b' = drop k b" by (rule take_packet_wait)
  have k: "k \<le> length b" and m: "starts_with sync (drop k b)"
    using find_sub_Some [OF Some] by simp_all
  have "packet_step (b @ c) = take_packet (drop k b @ c)"
    using find_sub_append_Some [OF Some, of c] k by (simp add: packet_step_def)
  also have "\<dots> = packet_step (drop k b @ c)"
    using starts_with_append [OF m] by (simp add: packet_step_starts)
  finally show ?thesis using b' by simp
qed

interpretation packets: stream_decoder packet_step packet_loop
  by unfold_locales
    (auto simp: packet_step_extend packet_emit_shorter intro: packet_loop.simps packet_step_wait)

section \<open>Writing and reading packets\<close>

text \<open>The pieces of \<open>write\<close>: \<open>[data[i:i+64] for i in range(0, len(data), 64)]\<close>.\<close>

definition pieces :: "bytes \<Rightarrow> bytes list" where
  "pieces data = groups max_outer_payload ((length data + (max_outer_payload - 1)) div max_outer_payload) data"

lemma concat_groups_enough: "length xs \<le> n * k \<Longrightarrow> concat (groups k n xs) = xs"
  by (induction n arbitrary: xs) auto

lemma groups_length: "x \<in> set (groups k n xs) \<Longrightarrow> length x \<le> k"
  by (induction n arbitrary: xs) auto

lemma concat_pieces [simp]: "concat (pieces data) = data"
  unfolding pieces_def by (rule concat_groups_enough) (simp add: max_outer_payload_def)

lemma length_piece: "x \<in> set (pieces data) \<Longrightarrow> length x \<le> max_outer_payload"
  unfolding pieces_def by (rule groups_length)

definition wire :: "nat \<Rightarrow> bytes list \<Rightarrow> bytes" where
  "wire channel ps = concat (map (outer_frame channel) ps)"

lemma take_packet_frame:
  assumes "channel \<in> {channel_data, channel_command, channel_status}" and "length pl \<le> max_outer_payload"
  shows "take_packet (outer_frame channel pl @ c) = Emit (channel, pl) c"
proof -
  let ?b = "outer_frame channel pl @ c"
  have b: "slice 3 5 ?b = le_bytes 2 (length pl)" "slice 5 (5 + length pl) ?b = pl" "drop (5 + length pl) ?b = c"
      "?b ! 2 = of_nat channel" "length ?b = 5 + length pl + length c"
    by (simp_all add: outer_frame_def sync_def slice_def drop_Cons')
  have n: "le_nat (le_bytes 2 (length pl)) = length pl"
    using assms(2) by (intro le_nat_le_bytes_small) (simp add: max_outer_payload_def)
  have ch: "unat (of_nat channel :: byte) = channel"
    using assms(1) by (auto simp: packet_consts)
  show ?thesis
    unfolding take_packet_def Let_def b n ch using assms by simp
qed

lemma packet_loop_wire:
  assumes "channel \<in> {channel_data, channel_command, channel_status}"
    and "\<And>p. p \<in> set ps \<Longrightarrow> length p \<le> max_outer_payload"
  shows "packet_loop (wire channel ps) = ([], map (Pair channel) ps, None)"
  using assms(2)
proof (induction ps)
  case Nil
  have "packet_step [] = Wait []" by (simp add: packet_step_def sync_def)
  then show ?case by (simp add: wire_def packets.drain_wait)
next
  case (Cons p ps)
  have "starts_with sync (outer_frame channel p @ wire channel ps)"
    by (simp add: starts_with_def outer_frame_def sync_def)
  then have "packet_step (outer_frame channel p @ wire channel ps) = Emit (channel, p) (wire channel ps)"
    using take_packet_frame [OF assms(1)] Cons.prems by (simp add: packet_step_starts)
  from packets.drain_emit [OF this] show ?case using Cons by (simp add: wire_def)
qed

lemma channel_bytes_data: "channel_bytes (map (Pair channel_data) ps) = concat ps"
  by (induction ps) (simp_all add: channel_bytes_def)

lemma channel_bytes_append: "channel_bytes (ps @ qs) = channel_bytes ps @ channel_bytes qs"
  by (simp add: channel_bytes_def)

text \<open>A sequence of reads of the serial port, each fed to \<open>_feed_outer\<close>.\<close>

fun feed_reads :: "bytes \<times> bytes \<Rightarrow> bytes list \<Rightarrow> (bytes \<times> bytes) \<times> (exn + unit)" where
  "feed_reads bufs [] = (bufs, Inr ())"
| "feed_reads bufs (c # cs) = (case feed_outer bufs c of
      (bufs', Inl e) \<Rightarrow> (bufs', Inl e)
    | (bufs', Inr _) \<Rightarrow> feed_reads bufs' cs)"

lemma feed_reads_chunks:
  "drain_chunks packet_loop outer cs = (outer', ps, None) \<Longrightarrow>
   feed_reads (outer, inner) cs = ((outer', inner @ channel_bytes ps), Inr ())"
proof (induction cs arbitrary: outer inner ps)
  case Nil
  then show ?case by (simp add: channel_bytes_def)
next
  case (Cons c cs)
  obtain x qs r where x: "packet_loop (outer @ c) = (x, qs, r)" by (cases "packet_loop (outer @ c)")
  then have r: "r = None" using Cons.prems by (cases r) simp_all
  then obtain rs where "drain_chunks packet_loop x cs = (outer', rs, None)" "ps = qs @ rs"
    using Cons.prems x by (auto split: prod.splits)
  then show ?case using Cons.IH x r by (simp add: feed_outer_def channel_bytes_append)
qed

lemma wire_received:
  assumes "concat cs = wire channel_data (pieces data)"
  shows "feed_reads ([], inner) cs = (([], inner @ data), Inr ())"
proof -
  have "packet_loop ([] @ concat cs) = ([], map (Pair channel_data) (pieces data), None)"
    unfolding assms append_Nil by (rule packet_loop_wire) (simp_all add: length_piece)
  moreover have "packet_loop [] = ([], [], None)"
    using packet_loop_wire [of channel_data "[]"] by (simp add: wire_def)
  ultimately have "drain_chunks packet_loop [] cs = ([], map (Pair channel_data) (pieces data), None)"
    by (rule packets.drain_chunks_concat)
  from feed_reads_chunks [OF this] show ?thesis by (simp add: channel_bytes_data)
qed

text \<open>
  C18. The packet layer loses and adds nothing. Whatever bytes are written, in pieces of at most 64 as
  \<open>write\<close> sends them, and however the serial port cuts the stream of packets into reads, feeding the
  reads to \<open>_feed_outer\<close> raises nothing and puts exactly the written bytes into the data buffer.
\<close>

theorem outer_round_trip:
  assumes "concat cs = wire channel_data (pieces data)"
  shows "feed_reads ([], inner) cs = (([], inner @ data), Inr ())"
  by (rule wire_received [OF assms])

lemma outer_round_trip_witness:
  "feed_reads ([], []) [[0x47], [0x42, 1], [2, 0, 7], [0x47]] = (([], [7, 0x47]), Inr ())"
  by (rule outer_round_trip [where data = "[7, 0x47]" and inner = "[]", simplified])
    (simp add: wire_def pieces_def outer_frame_def packet_consts numeral_2_eq_2)

text \<open>
  C29. The outer buffer stays small. After a feed that raises nothing, whatever came before, fewer than
  69 bytes are held back: not even one packet of the greatest length.
\<close>

theorem outer_buffer_bounded:
  assumes "feed_outer (outer, inner) data = ((outer', inner'), Inr ())"
  shows "length outer' < 5 + max_outer_payload"
proof -
  have step: "length b' < 5 + max_outer_payload" if "packet_step b = Wait b'" for b b'
    using that
    by (auto simp: packet_step_def take_packet_def Let_def packet_rest_def max_outer_payload_def
        split: option.splits if_splits)
  have "length b' < 5 + max_outer_payload" if "packet_loop b = (b', ps, None)" for b b' ps
    using that
  proof (induction b arbitrary: b' ps rule: packets.drain_induct)
    case (drain b)
    show ?case
    proof (cases "packet_step b")
      case (Wait x)
      then show ?thesis using drain.prems step by (simp add: packets.drain_wait)
    next
      case (Emit f x)
      then show ?thesis
        using drain.prems drain.IH [OF Emit] by (auto simp: packets.drain_emit split: prod.splits)
    next
      case (Fail e x)
      then show ?thesis using drain.prems by (simp add: packets.drain_fail)
    qed
  qed
  then show ?thesis
    using assms by (auto simp: feed_outer_def split: prod.splits option.splits)
qed

lemma outer_buffer_bounded_witness:
  "length (fst (fst (feed_outer ([0x47, 0x42, 1, 2], [5]) [0, 7]))) < 69"
  using outer_buffer_bounded [of "[0x47, 0x42, 1, 2]" "[5]" "[0, 7]" "[0x47, 0x42, 1, 2, 0, 7]" "[5]"]
  by (simp add: feed_outer_def packets.drain_wait packet_step_def take_packet_def packet_consts starts_with_def slice_def)

end
