(* ===== verification/Loops.thy ===== *)
theory Loops
  imports Effects
begin

text \<open>
  Loops of programs. \<open>loop\<close> is \<open>while c: m\<close> with a body that may leave the loop by returning a
  value; where the loop goes on for ever it is \<open>None\<close>. \<open>each\<close> is \<open>for x in xs: m(x)\<close>. A loop comes
  back when a measure of the state falls with every turn.
\<close>

partial_function (option) loop :: "('w, bool) prog \<Rightarrow> ('w, 'a option) prog \<Rightarrow> 'w \<Rightarrow> ('w \<times> (exn + 'a option)) option" where
  "loop c m w = (case c w of
      None \<Rightarrow> None
    | Some (w1, Inl e) \<Rightarrow> Some (w1, Inl e)
    | Some (w1, Inr go) \<Rightarrow>
        if \<not> go then Some (w1, Inr None)
        else (case m w1 of
            None \<Rightarrow> None
          | Some (w2, Inl e) \<Rightarrow> Some (w2, Inl e)
          | Some (w2, Inr (Some a)) \<Rightarrow> Some (w2, Inr (Some a))
          | Some (w2, Inr None) \<Rightarrow> loop c m w2))"

text \<open>A loop whose body does not return from it.\<close>

definition while_do :: "('w, bool) prog \<Rightarrow> ('w, unit) prog \<Rightarrow> ('w, unit) prog" where
  "while_do c m = andthen (loop c (andthen m (\<lambda>_. ret (None :: unit option)))) (\<lambda>_. ret ())"

fun each :: "('a \<Rightarrow> ('w, unit) prog) \<Rightarrow> 'a list \<Rightarrow> ('w, unit) prog" where
  "each f [] = ret ()"
| "each f (x # xs) = andthen (f x) (\<lambda>_. each f xs)"

lemma loop_unfold:
  "loop c m = andthen c (\<lambda>go. if \<not> go then ret None
     else andthen m (\<lambda>r. case r of Some a \<Rightarrow> ret (Some a) | None \<Rightarrow> loop c m))"
  by (rule ext, subst loop.simps)
    (auto simp: andthen_def ret_def split: option.split sum.split)

lemma loop_returns_wf:
  assumes "wf R"
    and turn: "\<And>w. I w \<Longrightarrow> wpr True c (\<lambda>go w1. go \<longrightarrow> wpr True m
      (\<lambda>r w2. r = None \<longrightarrow> I w2 \<and> (w2, w) \<in> R) (\<lambda>_ _. True) w1) (\<lambda>_ _. True) w"
    and "I w"
  shows "returns (loop c m) w"
  using assms(1,3)
proof (induction w rule: wf_induct_rule)
  case (less w)
  note t = turn [OF less.prems]
  obtain w1 r1 where c: "c w = Some (w1, r1)"
    using t by (auto simp: wpr_def split: option.splits)
  show ?case
  proof (cases r1)
    case (Inr go)
    show ?thesis
    proof (cases go)
      case True
      then have m: "wpr True m (\<lambda>r w2. r = None \<longrightarrow> I w2 \<and> (w2, w) \<in> R) (\<lambda>_ _. True) w1"
        using t c Inr by (simp add: wpr_def)
      then obtain w2 r2 where m2: "m w1 = Some (w2, r2)"
        by (auto simp: wpr_def split: option.splits)
      have "returns (loop c m) w2" if "r2 = Inr None"
        using m m2 that by (intro less.IH) (simp_all add: wpr_def)
      then show ?thesis
        using c Inr True m2
        by (subst loop_unfold) (auto simp: returns_def andthen_def ret_def split: sum.split option.split)
    qed (use c Inr in \<open>subst loop_unfold, simp add: returns_def andthen_def ret_def\<close>)
  qed (use c in \<open>subst loop_unfold, simp add: returns_def andthen_def\<close>)
qed

lemma loop_returns:
  assumes "\<And>w. I w \<Longrightarrow> wpr True c (\<lambda>go w1. go \<longrightarrow> wpr True m
      (\<lambda>r w2. r = None \<longrightarrow> I w2 \<and> f w2 < (f w :: nat)) (\<lambda>_ _. True) w1) (\<lambda>_ _. True) w"
    and "I w"
  shows "returns (loop c m) w"
  by (rule loop_returns_wf [OF wf_measure [of f], of I]) (use assms in simp_all)

text \<open>
  Partial correctness: what every turn keeps holds when the loop ends, with the condition false or
  with what the body returned.
\<close>

lemma loop_result:
  assumes "loop c m w = Some r"
    and "\<And>w. I w \<Longrightarrow> wp c (\<lambda>go w1. if go
      then wp m (\<lambda>r w2. case r of Some a \<Rightarrow> Q (Some a) w2 | None \<Rightarrow> I w2) E w1
      else Q None w1) E w"
    and "I w"
  shows "case r of (w', Inl e) \<Rightarrow> E e w' | (w', Inr a) \<Rightarrow> Q a w'"
  using assms
proof (induction c m w r rule: loop.raw_induct [rotated 1, consumes 1, case_names turn])
  case (turn lp c m w r)
  note again = turn(1) [OF _ turn(3)]
  show ?case
    using turn(2) turn(3) [OF turn(4)] again
    by (fastforce simp: wp_def split: option.splits prod.splits sum.splits if_splits)
qed

lemma wp_loop:
  assumes "\<And>w. I w \<Longrightarrow> wp c (\<lambda>go w1. if go
      then wp m (\<lambda>r w2. case r of Some a \<Rightarrow> Q (Some a) w2 | None \<Rightarrow> I w2) E w1
      else Q None w1) E w"
    and "I w"
  shows "wp (loop c m) Q E w"
proof (cases "loop c m w")
  case (Some r)
  then show ?thesis
    using loop_result [OF Some assms] by (auto simp: wp_def split: sum.splits)
qed (simp add: wp_def)

lemma wpr_while_do:
  assumes "\<And>w. I w \<Longrightarrow> wpr True c (\<lambda>go w1. if go
      then wpr True m (\<lambda>_ w2. I w2 \<and> f w2 < (f w :: nat)) E w1 else Q () w1) E w"
    and "I w"
  shows "wpr True (while_do c m) Q E w"
proof (rule wprI)
  let ?m = "andthen m (\<lambda>_. ret (None :: unit option))"
  show "wp (while_do c m) Q E w"
    unfolding while_do_def wp_andthen wp_ret
  proof (rule wp_loop [of I _ _ "\<lambda>_. Q ()"])
    show "wp c (\<lambda>go w1. if go then wp ?m (\<lambda>r w2. case r of None \<Rightarrow> I w2 | Some a \<Rightarrow> Q () w2) E w1
        else Q () w1) E w" if "I w" for w
      using assms(1) [OF that] unfolding wpr_wp
      by (elim conjE, elim wp_mono) (auto simp: wp_simps wpr_wp split: if_splits elim: wp_mono)
  qed (rule assms(2))
  have "returns (loop c ?m) w"
  proof (rule loop_returns [of I _ _ f])
    show "wpr True c (\<lambda>go w1. go \<longrightarrow> wpr True ?m (\<lambda>r w2. r = None \<longrightarrow> I w2 \<and> f w2 < f w) (\<lambda>_ _. True) w1)
        (\<lambda>_ _. True) w" if "I w" for w
      by (rule wpr_mono [OF assms(1) [OF that]]) (auto simp: wpr_simps elim: wpr_mono)
  qed (rule assms(2))
  then show "returns (while_do c m) w" by (auto simp: while_do_def intro: returns_andthen)
qed

lemma wpr_run:
  assumes "wpr True m Q (\<lambda>_ _. False) w"
  obtains w' a where "m w = Some (w', Inr a)" and "Q a w'"
proof (cases "m w")
  case (Some r)
  then show ?thesis using that assms by (cases r; cases "snd r") (auto simp: wpr_def)
qed (use assms in \<open>simp add: wpr_def\<close>)

lemma wp_each:
  assumes "\<And>ys x w. I ys w \<Longrightarrow> wp (f x) (\<lambda>_. I (ys @ [x])) E w" and "I zs w"
    and "\<And>w. I (zs @ xs) w \<Longrightarrow> Q () w"
  shows "wp (each f xs) Q E w"
  using assms(2,3)
proof (induction xs arbitrary: zs w)
  case (Cons x xs)
  show ?case
    unfolding each.simps wp_andthen
  proof (rule wp_mono [OF assms(1) [OF Cons.prems(1)]])
    show "wp (each f xs) Q E w'" if "I (zs @ [x]) w'" for w'
      by (rule Cons.IH [OF that]) (use Cons.prems(2) in simp)
  qed
qed (simp add: wp_ret)

lemma returns_each: "(\<And>x w. x \<in> set xs \<Longrightarrow> returns (f x) w) \<Longrightarrow> returns (each f xs) w"
  by (induction xs arbitrary: w) (auto intro: returns_andthen)

end
