(* ===== verification/Serial.thy ===== *)
theory Serial
  imports Packets Loops
begin

text \<open>
  \<open>SerialTransport\<close> of \<open>broker/gba/serial.py\<close> and the protocol class \<open>ByteTransport\<close>. The
  \<open>serial\<close> package and the clock are parameters: a record of operations over a state of their
  own. Times are whole nanoseconds. \<open>_serial\<close> is the port's timeout attribute while the port is
  open and \<open>None\<close> while it is not.
\<close>

section \<open>Transports\<close>

record 't byte_transport =
  transport_open :: "('t, unit) prog"
  transport_read :: "nat \<Rightarrow> int \<Rightarrow> ('t, bytes) prog"
  transport_write :: "bytes \<Rightarrow> ('t, unit) prog"
  transport_close :: "('t, unit) prog"

text \<open>
  The \<open>serial\<close> package: importing it, \<open>serial.Serial(device, baudrate, ...)\<close>, \<open>read\<close> with the timeout
  set on the port, \<open>write\<close> with the number of bytes it took; and \<open>time.monotonic\<close>.
\<close>

record 'p serial_port =
  port_import :: "('p, unit) prog"
  port_open :: "string \<Rightarrow> int \<Rightarrow> ('p, unit) prog"
  port_read :: "int \<Rightarrow> nat \<Rightarrow> ('p, bytes) prog"
  port_write :: "bytes \<Rightarrow> ('p, int) prog"
  port_flush :: "('p, unit) prog"
  port_close :: "('p, unit) prog"
  port_now :: "('p, int) prog"

record 'p serial_transport =
  port :: 'p
  device :: string
  baudrate :: int
  serial_timeout :: "int option"
  outer_buffer :: bytes
  data_buffer :: bytes

definition milliseconds :: "int \<Rightarrow> int" where
  "milliseconds n = n * 1000000"

definition serial_init :: "'p \<Rightarrow> string \<Rightarrow> int \<Rightarrow> 'p serial_transport" where
  "serial_init p dev baud = \<lparr>port = p, device = dev, baudrate = baud, serial_timeout = None,
     outer_buffer = [], data_buffer = []\<rparr>"

definition on_port :: "('p, 'a) prog \<Rightarrow> ('p serial_transport, 'a) prog" where
  "on_port m = zoom port (\<lambda>p s. s\<lparr>port := p\<rparr>) m"

text \<open>\<open>if self._serial is None: raise ...\<close>\<close>

definition need_port :: "('p serial_transport, unit) prog" where
  "need_port = andthen (gets serial_timeout) (\<lambda>t.
     if t = None then raise (Exn EndpointError ''serial transport is not open'') else ret ())"

definition write_outer :: "'p serial_port \<Rightarrow> nat \<Rightarrow> bytes \<Rightarrow> ('p serial_transport, unit) prog" where
  "write_outer sp channel payload =
     andthen need_port (\<lambda>_.
     if length payload > max_outer_payload then
       raise (Exn EndpointError ''GB-Link CDC outer payload exceeds 64 bytes'')
     else
       let packet = outer_frame channel payload in
       andthen (on_port (port_write sp packet)) (\<lambda>written.
       andthen (on_port (port_flush sp)) (\<lambda>_.
       if written \<noteq> int (length packet) then
         raise (Exn EndpointError (''short USB write: '' @ dec written @ ''/'' @
           dec (int (length packet)) @ '' bytes''))
       else ret ())))"

definition serial_open :: "'p serial_port \<Rightarrow> ('p serial_transport, unit) prog" where
  "serial_open sp =
     andthen (try_except ImportError (on_port (port_import sp)) (\<lambda>exc.
       raise (Exn EndpointError (''install the '' @ [CHR 0x27] @ ''serial'' @ [CHR 0x27] @
         '' extra to use a real GB-Link'')))) (\<lambda>_.
     andthen (gets id) (\<lambda>self.
     andthen (try_except Exception
         (andthen (on_port (port_open sp (device self) (baudrate self))) (\<lambda>_.
           modify (\<lambda>s. s\<lparr>serial_timeout := Some (milliseconds 100)\<rparr>)))
         (\<lambda>exc. raise (Exn EndpointError (''cannot open GBA adapter '' @ device self @ '': '' @ message exc)))) (\<lambda>_.
     write_outer sp channel_command [0, 0, 1])))"

definition serial_write :: "'p serial_port \<Rightarrow> bytes \<Rightarrow> ('p serial_transport, unit) prog" where
  "serial_write sp data = andthen need_port (\<lambda>_. each (write_outer sp channel_data) (pieces data))"

definition feed_port :: "bytes \<Rightarrow> ('p serial_transport, unit) prog" where
  "feed_port chunk = (\<lambda>s. case feed_outer (outer_buffer s, data_buffer s) chunk of
     ((outer, inner), r) \<Rightarrow> Some (s\<lparr>outer_buffer := outer, data_buffer := inner\<rparr>, r))"

text \<open>\<open>not self._data_buffer and time.monotonic() < deadline\<close>\<close>

definition read_more :: "'p serial_port \<Rightarrow> int \<Rightarrow> ('p serial_transport, bool) prog" where
  "read_more sp deadline = andthen (gets data_buffer) (\<lambda>buf.
     if buf \<noteq> [] then ret False
     else andthen (on_port (port_now sp)) (\<lambda>t. ret (t < deadline)))"

definition read_turn :: "'p serial_port \<Rightarrow> nat \<Rightarrow> int \<Rightarrow> ('p serial_transport, unit) prog" where
  "read_turn sp amount deadline =
     andthen (gets serial_timeout) (\<lambda>old_timeout.
     andthen (on_port (port_now sp)) (\<lambda>t.
     let wait = min (milliseconds 100) (max 0 (deadline - t)) in
     andthen (modify (\<lambda>s. s\<lparr>serial_timeout := Some wait\<rparr>)) (\<lambda>_.
     andthen (try_finally (on_port (port_read sp wait (max amount 64)))
       (modify (\<lambda>s. s\<lparr>serial_timeout := old_timeout\<rparr>))) (\<lambda>chunk.
     if chunk \<noteq> [] then feed_port chunk else ret ()))))"

definition serial_read :: "'p serial_port \<Rightarrow> nat \<Rightarrow> int \<Rightarrow> ('p serial_transport, bytes) prog" where
  "serial_read sp amount timeout =
     andthen need_port (\<lambda>_.
     andthen (on_port (port_now sp)) (\<lambda>t.
     andthen (while_do (read_more sp (t + timeout)) (read_turn sp amount (t + timeout))) (\<lambda>_.
     andthen (gets (\<lambda>s. take amount (data_buffer s))) (\<lambda>result.
     andthen (modify (\<lambda>s. s\<lparr>data_buffer := drop amount (data_buffer s)\<rparr>)) (\<lambda>_.
     ret result)))))"

definition serial_close :: "'p serial_port \<Rightarrow> ('p serial_transport, unit) prog" where
  "serial_close sp = andthen (gets serial_timeout) (\<lambda>t.
     run_if (t \<noteq> None) (andthen (on_port (port_close sp)) (\<lambda>_.
       modify (\<lambda>s. s\<lparr>serial_timeout := None\<rparr>))))"

definition serial_transport_ops :: "'p serial_port \<Rightarrow> 'p serial_transport byte_transport" where
  "serial_transport_ops sp = \<lparr>transport_open = serial_open sp, transport_read = serial_read sp,
     transport_write = serial_write sp, transport_close = serial_close sp\<rparr>"

section \<open>Rules\<close>

lemma wpr_on_port: "wpr t (on_port m) Q E s \<longleftrightarrow>
    wpr t m (\<lambda>a p. Q a (s\<lparr>port := p\<rparr>)) (\<lambda>e p. E e (s\<lparr>port := p\<rparr>)) (port s)"
  by (simp add: on_port_def wpr_simps)

lemma wpr_need_port: "wpr t need_port Q E s \<longleftrightarrow>
    (if serial_timeout s = None then E (Exn EndpointError ''serial transport is not open'') s else Q () s)"
  by (simp add: need_port_def wpr_simps)

lemma wpr_feed_port: "(\<And>e b d. E e (s\<lparr>outer_buffer := b, data_buffer := d\<rparr>)) \<Longrightarrow>
    (\<And>b d. Q () (s\<lparr>outer_buffer := b, data_buffer := d\<rparr>)) \<Longrightarrow> wpr t (feed_port chunk) Q E s"
  by (auto simp: wpr_def feed_port_def split: prod.split sum.split)

section \<open>A port for examples\<close>

text \<open>
  A port that gives the chunks of a list, of each as much as a read asks for and the rest later, that
  keeps what is written, and counts its reads as time.
\<close>

record script =
  reads :: "bytes list"
  ticks :: int
  sent :: bytes

fun read_chunk :: "nat \<Rightarrow> bytes list \<Rightarrow> bytes \<times> bytes list" where
  "read_chunk n [] = ([], [])"
| "read_chunk n (r # rs) = (if length r \<le> n then (r, rs) else (take n r, drop n r # rs))"

definition script_read :: "nat \<Rightarrow> (script, bytes) prog" where
  "script_read n = andthen (gets (\<lambda>p. read_chunk n (reads p))) (\<lambda>(r, rs).
     andthen (modify (\<lambda>p. p\<lparr>reads := rs, ticks := ticks p + 1\<rparr>)) (\<lambda>_. ret r))"

definition script_port :: "script serial_port" where
  "script_port = \<lparr>port_import = ret (), port_open = (\<lambda>_ _. ret ()), port_read = (\<lambda>_. script_read),
     port_write = (\<lambda>bs. andthen (modify (\<lambda>p. p\<lparr>sent := sent p @ bs\<rparr>)) (\<lambda>_. ret (int (length bs)))),
     port_flush = ret (), port_close = ret (), port_now = gets ticks\<rparr>"

definition script_transport :: "bytes list \<Rightarrow> script serial_transport" where
  "script_transport rs = (serial_init \<lparr>reads = rs, ticks = 0, sent = []\<rparr> ''/dev/ttyACM0'' 115200)
     \<lparr>serial_timeout := Some (milliseconds 100)\<rparr>"

lemma serial_timeout_script [simp]: "serial_timeout (script_transport rs) = Some (milliseconds 100)"
  by (simp add: script_transport_def)

section \<open>Properties\<close>

text \<open>A clock that never runs backwards and that a read of the port advances.\<close>

definition ticking :: "'p serial_port \<Rightarrow> ('p \<Rightarrow> int) \<Rightarrow> bool" where
  "ticking sp clock \<longleftrightarrow>
     (\<forall>p. \<exists>p'. port_now sp p = Some (p', Inr (clock p')) \<and> clock p \<le> clock p') \<and>
     (\<forall>w n p. \<exists>p' r. port_read sp w n p = Some (p', r) \<and> clock p < clock p')"

lemma ticking_now: "ticking sp clock \<Longrightarrow> wpr True (port_now sp) (\<lambda>t p'. t = clock p' \<and> clock p \<le> clock p') E p"
  unfolding ticking_def wpr_def by (elim conjE allE [of _ p]) auto

lemma ticking_read: "ticking sp clock \<Longrightarrow> wpr True (port_read sp w n) (\<lambda>_ p'. clock p < clock p') (\<lambda>_ p'. clock p < clock p') p"
  unfolding ticking_def wpr_def by (elim conjE allE [of _ w] allE [of _ n] allE [of _ p]) (auto split: sum.split)

lemma wpr_read_turn:
  assumes "ticking sp clock"
  shows "wpr True (read_turn sp amount deadline) (\<lambda>_ s2. clock (port s1) < clock (port s2)) (\<lambda>_ _. True) s1"
  unfolding read_turn_def Let_def wpr_andthen wpr_basic wpr_on_port wpr_try_finally
  by (rule wpr_mono [OF ticking_now [OF assms]], simp_all, rule wpr_mono [OF ticking_read [OF assms]])
    (auto simp: wpr_simps intro!: wpr_feed_port)

text \<open>The loop of \<open>read\<close>, from a state \<open>s1\<close>: it ends, and reads only while nothing is there.\<close>

definition read_from :: "('p \<Rightarrow> int) \<Rightarrow> 'p serial_transport \<Rightarrow> 'p serial_transport \<Rightarrow> bool" where
  "read_from clock s1 s \<longleftrightarrow> clock (port s1) < clock (port s) \<or>
     clock (port s1) = clock (port s) \<and> data_buffer s = data_buffer s1"

lemma wpr_reading:
  assumes "ticking sp clock"
  shows "wpr True (while_do (read_more sp deadline) (read_turn sp amount deadline))
    (\<lambda>_ s. read_from clock s1 s \<and> (data_buffer s = [] \<longrightarrow> deadline \<le> clock (port s))) (\<lambda>_ _. True) s1"
proof (rule wpr_while_do [where I = "read_from clock s1" and f = "\<lambda>s. nat (deadline - clock (port s))"])
  fix s assume s: "read_from clock s1 s"
  have body: "wpr True (read_turn sp amount deadline) (\<lambda>_ s2. read_from clock s1 s2 \<and>
      clock (port s) < clock (port s2)) (\<lambda>_ _. True) (s\<lparr>port := p\<rparr>)"
    if "clock (port s) \<le> clock p" "clock p < deadline" for p
    by (rule wpr_mono [OF wpr_read_turn [OF assms]]) (use that s in \<open>auto simp: read_from_def\<close>)
  have rest: "read_from clock s1 (s\<lparr>port := p\<rparr>)" if "clock (port s) \<le> clock p" for p
    using that s by (auto simp: read_from_def)
  show "wpr True (read_more sp deadline) (\<lambda>go s'. if go then wpr True (read_turn sp amount deadline)
      (\<lambda>_ s2. read_from clock s1 s2 \<and> nat (deadline - clock (port s2)) < nat (deadline - clock (port s)))
      (\<lambda>_ _. True) s' else read_from clock s1 s' \<and> (data_buffer s' = [] \<longrightarrow> deadline \<le> clock (port s')))
      (\<lambda>_ _. True) s"
  proof (cases "data_buffer s = []")
    case True
    show ?thesis
      unfolding read_more_def wpr_andthen wpr_gets wpr_if wpr_on_port
      by (simp only: True simp_thms if_False, rule wpr_mono [OF ticking_now [OF assms]])
        (auto simp: wpr_ret rest body)
  qed (use s in \<open>simp add: read_more_def wpr_simps\<close>)
qed (simp add: read_from_def)

lemma wpr_serial_read:
  assumes "ticking sp clock" and "0 < amount"
  shows "wpr True (serial_read sp amount timeout) (\<lambda>bs s'. length bs \<le> amount \<and>
      clock (port s) \<le> clock (port s') \<and> (bs = [] \<longrightarrow> clock (port s) + timeout \<le> clock (port s')) \<and>
      (0 < timeout \<longrightarrow> clock (port s) < clock (port s') \<or> length (data_buffer s') < length (data_buffer s)))
    (\<lambda>_ _. True) s"
proof (cases "serial_timeout s = None")
  case False
  show ?thesis
    unfolding serial_read_def wpr_andthen wpr_basic wpr_on_port wpr_need_port if_not_P [OF False]
  proof (rule wpr_mono [OF ticking_now [OF assms(1)]], goal_cases)
    case (1 t p)
    show ?case
      by (rule wpr_mono [OF wpr_reading [OF assms(1)]])
        (use 1 assms(2) in \<open>auto simp: read_from_def\<close>)
  qed simp
qed (simp add: serial_read_def wpr_simps wpr_need_port)

text \<open>
  C30. A read comes back. On an open port whose clock advances, a read of the transport comes back,
  with an exception or with at most the bytes asked for; and it comes back with nothing only when
  its time is over.
\<close>

theorem serial_read_returns:
  assumes "ticking sp clock" and "serial_timeout s \<noteq> None" and "0 < amount"
  shows "\<exists>s' res. serial_read sp amount timeout s = Some (s', res) \<and>
    (\<forall>bs. res = Inr bs \<longrightarrow> length bs \<le> amount \<and> (bs = [] \<longrightarrow> clock (port s) + timeout \<le> clock (port s')))"
  using wpr_serial_read [OF assms(1,3), of timeout s]
  by (cases "serial_read sp amount timeout s") (auto simp: wpr_def split: sum.splits)

lemma script_ticking [simp]: "ticking script_port ticks"
  by (auto simp: ticking_def script_port_def script_read_def prog_defs split: prod.split)

lemma serial_read_returns_witness:
  "\<exists>s' res. serial_read script_port 512 250 (script_transport [[], [0x47], [0x42, 1, 1, 0, 9]]) = Some (s', res) \<and>
    (res \<noteq> Inr [] \<or> 250 \<le> ticks (port s'))"
  using serial_read_returns [OF script_ticking, of "script_transport [[], [0x47], [0x42, 1, 1, 0, 9]]" 512 250]
  by (auto simp: script_transport_def serial_init_def)

text \<open>A port that takes every byte it is given.\<close>

definition takes_all :: "'p serial_port \<Rightarrow> ('p \<Rightarrow> bytes) \<Rightarrow> bool" where
  "takes_all sp out \<longleftrightarrow>
     (\<forall>bs p. \<exists>p'. port_write sp bs p = Some (p', Inr (int (length bs))) \<and> out p' = out p @ bs) \<and>
     (\<forall>p. \<exists>p'. port_flush sp p = Some (p', Inr ()) \<and> out p' = out p)"

lemma takes_all_write: "takes_all sp out \<Longrightarrow>
    wpr True (port_write sp bs) (\<lambda>n p'. n = int (length bs) \<and> out p' = out p @ bs) (\<lambda>_ _. False) p"
  unfolding takes_all_def wpr_def by (elim conjE allE [of _ bs] allE [of _ p]) auto

lemma takes_all_flush: "takes_all sp out \<Longrightarrow> wpr True (port_flush sp) (\<lambda>_ p'. out p' = out p) (\<lambda>_ _. False) p"
  unfolding takes_all_def wpr_def by (elim conjE allE [of _ p]) auto

lemma wpr_write_outer:
  assumes "takes_all sp out" and "serial_timeout s \<noteq> None" and "length pl \<le> max_outer_payload"
    and "\<And>p. out p = out (port s) @ outer_frame channel pl \<Longrightarrow> Q () (s\<lparr>port := p\<rparr>)"
  shows "wpr True (write_outer sp channel pl) Q (\<lambda>_ _. False) s"
  unfolding write_outer_def Let_def wpr_andthen wpr_if wpr_need_port wpr_on_port wpr_basic if_not_P [OF assms(2)]
  using assms(3)
  by (simp add: not_less, intro wpr_mono [OF takes_all_write [OF assms(1)]] wpr_mono [OF takes_all_flush [OF assms(1)]])
    (auto intro: assms(4))

lemma wpr_write_all:
  assumes "takes_all sp out" and "serial_timeout s \<noteq> None" and "\<And>pl. pl \<in> set ps \<Longrightarrow> length pl \<le> max_outer_payload"
    and "\<And>p. out p = out (port s) @ wire channel ps \<Longrightarrow> Q () (s\<lparr>port := p\<rparr>)"
  shows "wpr True (each (write_outer sp channel) ps) Q (\<lambda>_ _. False) s"
  using assms(2-4)
proof (induction ps arbitrary: s)
  case Nil
  then show ?case using Nil(3) [of "port s"] by (simp add: wpr_basic wire_def)
next
  case (Cons pl ps)
  show ?case
    unfolding each.simps wpr_andthen
  proof (rule wpr_write_outer [OF assms(1)])
    fix p assume "out p = out (port s) @ outer_frame channel pl"
    then show "wpr True (each (write_outer sp channel) ps) Q (\<lambda>_ _. False) (s\<lparr>port := p\<rparr>)"
      using Cons.prems by (intro Cons.IH) (auto simp: wire_def)
  qed (use Cons.prems in auto)
qed

text \<open>
  C31. What is written arrives. On an open port that takes all bytes, \<open>write\<close> returns, leaves the read
  side alone, and puts on the wire a stream that a reader with the same packet layer turns back into
  exactly the written bytes, wherever the wire cuts it.
\<close>

theorem serial_write_received:
  assumes "takes_all sp out" and "serial_timeout s \<noteq> None"
  shows "\<exists>p w. serial_write sp data s = Some (s\<lparr>port := p\<rparr>, Inr ()) \<and> out p = out (port s) @ w \<and>
    (\<forall>cs inner. concat cs = w \<longrightarrow> feed_reads ([], inner) cs = (([], inner @ data), Inr ()))"
proof -
  have "wpr True (serial_write sp data) (\<lambda>_ s'. \<exists>p. s' = s\<lparr>port := p\<rparr> \<and>
      out p = out (port s) @ wire channel_data (pieces data)) (\<lambda>_ _. False) s"
    unfolding serial_write_def wpr_andthen wpr_need_port if_not_P [OF assms(2)]
    by (rule wpr_write_all [OF assms]) (auto simp: length_piece)
  then obtain s' u where "serial_write sp data s = Some (s', Inr u)"
      "\<exists>p. s' = s\<lparr>port := p\<rparr> \<and> out p = out (port s) @ wire channel_data (pieces data)"
    by (rule wpr_run)
  then show ?thesis using wire_received by fastforce
qed

lemma script_takes_all [simp]: "takes_all script_port sent"
  by (simp add: takes_all_def script_port_def prog_defs)

lemma serial_write_received_witness:
  "\<exists>p w. serial_write script_port (replicate 100 7) (script_transport []) =
      Some ((script_transport [])\<lparr>port := p\<rparr>, Inr ()) \<and> sent p = w \<and>
    feed_reads ([], []) [take 30 w, drop 30 w] = (([], replicate 100 7), Inr ())"
proof -
  obtain p w where pw: "serial_write script_port (replicate 100 7) (script_transport []) =
      Some ((script_transport [])\<lparr>port := p\<rparr>, Inr ())" "sent p = sent (port (script_transport [])) @ w"
      "\<And>cs inner. concat cs = w \<Longrightarrow> feed_reads ([], inner) cs = (([], inner @ replicate 100 7), Inr ())"
    using serial_write_received [OF script_takes_all, of "script_transport []" "replicate 100 7"] by auto
  then show ?thesis
    using pw(3) [of "[take 30 w, drop 30 w]" "[]"] by (auto simp: script_transport_def serial_init_def)
qed

text \<open>
  A port that says of each write how many bytes of it, from the front, it took; \<open>out\<close> is all it has taken.
\<close>

definition counts_bytes :: "'p serial_port \<Rightarrow> ('p \<Rightarrow> bytes) \<Rightarrow> bool" where
  "counts_bytes sp out \<longleftrightarrow>
     (\<forall>bs p p' r. port_write sp bs p = Some (p', r) \<longrightarrow>
       (\<exists>k \<le> length bs. out p' = out p @ take k bs \<and> (\<forall>n. r = Inr n \<longrightarrow> n = int k))) \<and>
     (\<forall>p p' r. port_flush sp p = Some (p', r) \<longrightarrow> out p' = out p)"

lemma counts_write: "counts_bytes sp out \<Longrightarrow>
    wp (port_write sp bs) (\<lambda>n p'. \<exists>k \<le> length bs. out p' = out p @ take k bs \<and> n = int k)
      (\<lambda>_ p'. \<exists>k \<le> length bs. out p' = out p @ take k bs) p"
  unfolding counts_bytes_def wp_def by (fastforce split: option.split sum.split)

lemma counts_flush: "counts_bytes sp out \<Longrightarrow>
    wp (port_flush sp) (\<lambda>_ p'. out p' = out p) (\<lambda>_ p'. out p' = out p) p"
  unfolding counts_bytes_def wp_def by (auto split: option.split sum.split)

text \<open>A part of \<open>w\<close> has gone out since \<open>s\<close>, and all of it.\<close>

definition gone_out :: "('p \<Rightarrow> bytes) \<Rightarrow> bytes \<Rightarrow> 'p serial_transport \<Rightarrow> 'p serial_transport \<Rightarrow> bool" where
  "gone_out out w s s' \<longleftrightarrow> (\<exists>rest. out (port s') @ rest = out (port s) @ w)"

lemma gone_out_prefix: "k \<le> length v \<Longrightarrow> out (port s') = out (port s) @ take k v \<Longrightarrow> gone_out out (v @ w) s s'"
  by (auto simp: gone_out_def intro!: exI [of _ "drop k v @ w"])

lemma wp_on_port: "wp (on_port m) Q E s \<longleftrightarrow>
    wp m (\<lambda>a p. Q a (s\<lparr>port := p\<rparr>)) (\<lambda>e p. E e (s\<lparr>port := p\<rparr>)) (port s)"
  by (simp add: on_port_def wp_simps)

lemma wp_need_port: "wp need_port Q E s \<longleftrightarrow>
    (if serial_timeout s = None then E (Exn EndpointError ''serial transport is not open'') s else Q () s)"
  by (simp add: need_port_def wp_simps)

lemma wp_write_counted:
  assumes "counts_bytes sp out"
  shows "wp (write_outer sp channel pl) (\<lambda>_ s'. out (port s') = out (port s) @ outer_frame channel pl)
    (\<lambda>_ s'. gone_out out (outer_frame channel pl) s s') s"
proof -
  let ?f = "outer_frame channel pl"
  have none: "gone_out out ?f s s" by (simp add: gone_out_def)
  have cut: "gone_out out ?f s (s\<lparr>port := p\<rparr>)" if "k \<le> length ?f" "out p = out (port s) @ take k ?f" for k p
    using gone_out_prefix [of k ?f out "s\<lparr>port := p\<rparr>" s "[]"] that by simp
  have sent: "wp (andthen (on_port (port_write sp ?f)) (\<lambda>written. andthen (on_port (port_flush sp)) (\<lambda>_.
      if written \<noteq> int (length ?f) then raise (e written) else ret ())))
    (\<lambda>_ s'. out (port s') = out (port s) @ ?f) (\<lambda>_ s'. gone_out out ?f s s') s" for e
    unfolding wp_andthen wp_on_port
  proof (rule wp_mono [OF counts_write [OF assms]], goal_cases)
    case (1 n p)
    then obtain k where k: "k \<le> length ?f" "out p = out (port s) @ take k ?f" "n = int k" by blast
    show ?case
      by (rule wp_mono [OF counts_flush [OF assms]]) (use k in \<open>auto simp: wp_simps intro: cut\<close>)
  qed (auto intro: cut)
  show ?thesis
    using none sent unfolding write_outer_def Let_def wp_andthen wp_need_port wp_if wp_raise by simp
qed

lemma wire_Cons: "wire channel (pl # ps) = outer_frame channel pl @ wire channel ps"
  by (simp add: wire_def)

text \<open>What happens to the packets of a write.\<close>

lemma wp_write_pieces:
  assumes "counts_bytes sp out"
  shows "wp (each (write_outer sp channel) ps) (\<lambda>_ s'. out (port s') = out (port s) @ wire channel ps)
    (\<lambda>_ s'. gone_out out (wire channel ps) s s') s"
proof (induction ps arbitrary: s)
  case (Cons pl ps)
  have more: "gone_out out (outer_frame channel pl @ wire channel ps) s s2"
    if "out (port s1) = out (port s) @ outer_frame channel pl" "gone_out out (wire channel ps) s1 s2" for s1 s2
    using that by (simp add: gone_out_def)
  have first: "gone_out out (outer_frame channel pl @ wire channel ps) s s1" if "gone_out out (outer_frame channel pl) s s1" for s1
    using that by (auto simp: gone_out_def) (metis append.assoc)
  show ?case
    unfolding each.simps wp_andthen
    by (rule wp_mono [OF wp_write_counted [OF assms]], rule wp_mono [OF Cons.IH])
      (simp_all add: wire_def [of _ "[]"] first more wire_Cons)
qed (simp add: wp_simps wire_def)

lemma each_append: "each f (xs @ ys) = andthen (each f xs) (\<lambda>_. each f ys)"
  by (induction xs) (auto simp: prog_defs fun_eq_iff split: option.split sum.split)

lemma each_timeout:
  "each (write_outer sp channel) ps s = Some (s', r) \<Longrightarrow> serial_timeout s' = serial_timeout s"
proof -
  have one: "wp (write_outer sp channel pl) (\<lambda>_ s'. serial_timeout s' = serial_timeout s)
      (\<lambda>_ s'. serial_timeout s' = serial_timeout s) s" for pl s
    by (auto simp: write_outer_def wp_simps Let_def wp_need_port wp_on_port intro!: wp_any)
  have "wp (each (write_outer sp channel) ps) (\<lambda>_ s'. serial_timeout s' = serial_timeout s)
      (\<lambda>_ s'. serial_timeout s' = serial_timeout s) s"
    by (rule wp_each [where I = "\<lambda>_ s'. serial_timeout s' = serial_timeout s" and zs = "[]"])
      (auto intro: wp_mono [OF one])
  then show "each (write_outer sp channel) ps s = Some (s', r) \<Longrightarrow> serial_timeout s' = serial_timeout s"
    by (cases r) (simp_all add: wp_def)
qed

text \<open>
  C40. The error paths of the transport. (1) A transport that is not open refuses to read and to write
  without a call of the port, and closes silently. (2) Where the \<open>serial\<close> package cannot be imported or
  the port cannot be opened, \<open>open\<close> raises an \<open>EndpointError\<close>, and the transport is as open as it was.
  (3) The first packet that the port does not take whole, after any number that it took, ends the
  write with an \<open>EndpointError\<close> that says how much of it went out, and nothing is sent after it.
  (4) So no byte is lost in silence: whatever the port does, what a write has put on the wire is a
  prefix of the stream of packets, and if it returns, all of it.
\<close>

theorem serial_errors:
  shows "(serial_timeout c = None \<longrightarrow>
      serial_read sp amount timeout c = Some (c, Inl (Exn EndpointError ''serial transport is not open'')) \<and>
      serial_write sp data c = Some (c, Inl (Exn EndpointError ''serial transport is not open'')) \<and>
      serial_close sp c = Some (c, Inr ())) \<and>
    (port_import sp (port c) = Some (p1, Inl e) \<and> isinstance e ImportError \<longrightarrow>
      serial_open sp c = Some (c\<lparr>port := p1\<rparr>, Inl (Exn EndpointError (''install the '' @ [CHR 0x27] @ ''serial'' @
        [CHR 0x27] @ '' extra to use a real GB-Link'')))) \<and>
    (port_import sp (port c) = Some (p1, Inr ()) \<and> port_open sp (device c) (baudrate c) p1 = Some (p2, Inl e) \<and>
      isinstance e Exception \<longrightarrow>
      serial_open sp c = Some (c\<lparr>port := p2\<rparr>,
        Inl (Exn EndpointError (''cannot open GBA adapter '' @ device c @ '': '' @ message e)))) \<and>
    (serial_timeout c \<noteq> None \<and> pieces data = ps @ pl # qs \<and>
      each (write_outer sp channel_data) ps c = Some (c1, Inr ()) \<and>
      port_write sp (outer_frame channel_data pl) (port c1) = Some (p1, Inr n) \<and>
      n \<noteq> int (length (outer_frame channel_data pl)) \<and> port_flush sp p1 = Some (p2, Inr ()) \<longrightarrow>
      serial_write sp data c = Some (c1\<lparr>port := p2\<rparr>, Inl (Exn EndpointError (''short USB write: '' @ dec n @ ''/'' @
        dec (int (length (outer_frame channel_data pl))) @ '' bytes'')))) \<and>
    (counts_bytes sp out \<and> serial_write sp data c = Some (c', r) \<longrightarrow>
      (\<exists>rest. out (port c') @ rest = out (port c) @ wire channel_data (pieces data) \<and> (r = Inr () \<longrightarrow> rest = [])))"
proof (intro conjI impI, goal_cases)
  case 6
  then have pl: "length pl \<le> max_outer_payload" by (intro length_piece [of _ data]) simp
  have "each (write_outer sp channel_data) (pieces data) c =
      andthen (each (write_outer sp channel_data) ps) (\<lambda>_. each (write_outer sp channel_data) (pl # qs)) c"
    using 6 by (simp add: each_append)
  moreover have "serial_timeout c1 = serial_timeout c" using 6 each_timeout by blast
  ultimately show ?case
    using 6 pl by (auto simp: serial_write_def write_outer_def need_port_def on_port_def prog_defs Let_def)
next
  case 7
  have "wp (serial_write sp data) (\<lambda>_ s'. out (port s') = out (port c) @ wire channel_data (pieces data))
      (\<lambda>_ s'. gone_out out (wire channel_data (pieces data)) c s') c"
    using wp_write_pieces [of sp out channel_data "pieces data" c] 7
    by (simp add: serial_write_def wp_simps wp_need_port gone_out_def)
  then show ?case using 7 by (cases r) (auto simp: wp_def gone_out_def)
qed (simp_all add: serial_read_def serial_write_def serial_close_def serial_open_def need_port_def on_port_def prog_defs)

text \<open>A port without room for more than \<open>room\<close> bytes.\<close>

definition full_port :: "nat \<Rightarrow> script serial_port" where
  "full_port room = script_port\<lparr>port_write := (\<lambda>bs. andthen (gets (\<lambda>p. take (room - length (sent p)) bs)) (\<lambda>taken.
     andthen (modify (\<lambda>p. p\<lparr>sent := sent p @ taken\<rparr>)) (\<lambda>_. ret (int (length taken)))))\<rparr>"

lemma full_port_counts: "counts_bytes (full_port room) sent"
proof -
  have "\<exists>k \<le> length bs. take m bs = take k bs \<and> int (length (take m bs)) = int k" for m and bs :: bytes
    by (rule exI [of _ "min (length bs) m"]) (auto simp: min_def)
  then show ?thesis by (auto simp: counts_bytes_def full_port_def script_port_def prog_defs)
qed

lemma serial_errors_witness:
  "serial_write script_port [5] (serial_init undefined ''tty'' 9600) =
     Some (serial_init undefined ''tty'' 9600, Inl (Exn EndpointError ''serial transport is not open'')) \<and>
   (\<exists>s e. serial_open (script_port\<lparr>port_import := raise (Exn ModuleNotFoundError ''serial'')\<rparr>) (script_transport []) =
     Some (s, Inl e) \<and> class_of e = EndpointError) \<and>
   (\<exists>s. serial_open (script_port\<lparr>port_open := (\<lambda>_ _. raise (Exn OSError ''busy''))\<rparr>) (script_transport []) =
     Some (s, Inl (Exn EndpointError (''cannot open GBA adapter /dev/ttyACM0: busy'')))) \<and>
   (\<exists>s rest. serial_write (full_port 80) (replicate 100 7) (script_transport []) =
     Some (s, Inl (Exn EndpointError (''short USB write: '' @ dec 11 @ ''/'' @ dec 41 @ '' bytes''))) \<and>
     sent (port s) @ rest = wire channel_data (pieces (replicate 100 7)))"
  (is "?closed \<and> ?missing \<and> ?busy \<and> ?short")
proof (intro conjI)
  let ?s = "script_transport []" and ?p = "port (script_transport [])"
  show ?closed
    using serial_errors [THEN conjunct1, of "serial_init undefined ''tty'' 9600" script_port]
    by (simp add: serial_init_def)
  have "isinstance (Exn ModuleNotFoundError m) ImportError" "isinstance (Exn OSError m) Exception" for m
    by (simp_all add: isinstance_simps)
  then show ?missing ?busy
    using serial_errors [THEN conjunct2, THEN conjunct1, of "script_port\<lparr>port_import := raise (Exn ModuleNotFoundError ''serial'')\<rparr>" ?s ?p "Exn ModuleNotFoundError ''serial''"]
      serial_errors [THEN conjunct2, THEN conjunct2, THEN conjunct1, of "script_port\<lparr>port_open := (\<lambda>_ _. raise (Exn OSError ''busy''))\<rparr>" ?s ?p ?p "Exn OSError ''busy''"]
    by (simp_all add: script_port_def prog_defs script_transport_def serial_init_def)
  let ?d = "replicate 100 (7 :: byte)" and ?x = "replicate 64 (7 :: byte)" and ?y = "replicate 36 (7 :: byte)"
  have ps: "pieces ?d = [?x] @ ?y # []" by code_simp
  let ?c1 = "?s\<lparr>port := \<lparr>reads = [], ticks = 0, sent = outer_frame channel_data ?x\<rparr>\<rparr>"
  let ?p1 = "\<lparr>reads = [], ticks = 0, sent = outer_frame channel_data ?x @ take 11 (outer_frame channel_data ?y)\<rparr>"
  have len: "length (outer_frame channel_data ?x) = 69" "length (outer_frame channel_data ?y) = 41"
    by (simp_all add: outer_frame_def sync_def)
  have one: "each (write_outer (full_port 80) channel_data) [?x] ?s = Some (?c1, Inr ())"
    using len by (simp add: write_outer_def need_port_def on_port_def full_port_def script_port_def prog_defs
        script_transport_def serial_init_def max_outer_payload_def Let_def)
  have two: "port_write (full_port 80) (outer_frame channel_data ?y) (port ?c1) = Some (?p1, Inr 11)"
      "port_flush (full_port 80) ?p1 = Some (?p1, Inr ())"
    using len by (simp_all add: full_port_def script_port_def prog_defs)
  have run: "serial_write (full_port 80) ?d ?s = Some (?c1\<lparr>port := ?p1\<rparr>,
      Inl (Exn EndpointError (''short USB write: '' @ dec 11 @ ''/'' @ dec 41 @ '' bytes'')))"
    using serial_errors [THEN conjunct2, THEN conjunct2, THEN conjunct2, THEN conjunct1, of ?s ?d "[?x]" ?y "[]" "full_port 80" ?c1 ?p1 11 ?p1]
      ps one two len by simp
  then show ?short
    using serial_errors [THEN conjunct2, THEN conjunct2, THEN conjunct2, THEN conjunct2, of "full_port 80" sent ?d ?s] full_port_counts
    by (fastforce simp: script_transport_def serial_init_def)
qed

end
