(* ===== verification/Gb_Link.thy ===== *)
theory Gb_Link
  imports Protocol Serial Endpoints Utf8 "HOL-Library.List_Lexorder" "HOL-Library.Char_ord" "HOL-Library.Sublist"
begin

text \<open>
  \<open>GbLinkEndpoint\<close> of \<open>broker/gba/gb_link.py\<close>: the GBA endpoint that talks frames over a byte
  transport. Its state holds the transport, the frame decoder's buffer and the replay window; the
  transport's operations and the clock are arguments. \<open>heard\<close> is for the theorems only: the frames
  whose transaction and sequence number have been accepted, in their order. \<open>scan\<close> is the loop over
  the frames of one read; it ends with the first frame that is wanted, and the frames behind it
  in the same read are dropped, as the source's list is.
\<close>

record 't gb_link =
  transport :: 't
  link_timeout :: int
  offer_slot :: int
  decode_buffer :: bytes
  window :: "uuid \<rightharpoonup> int"
  link_txid :: uuid
  out_sequence :: int
  link_connected :: bool
  heard :: "frame list"

definition gb_link_init :: "'t \<Rightarrow> int \<Rightarrow> int \<Rightarrow> uuid \<Rightarrow> exn + 't gb_link" where
  "gb_link_init t timeout slot txid = (
     if \<not> (0 \<le> slot \<and> slot \<le> 5) then Inl (Exn ValueError ''offer_slot must be 0..5'')
     else Inr \<lparr>transport = t, link_timeout = timeout, offer_slot = slot, decode_buffer = [],
       window = Map.empty, link_txid = txid, out_sequence = 0, link_connected = False, heard = []\<rparr>)"

section \<open>Texts\<close>

fun type_name :: "message_type \<Rightarrow> string" where
  "type_name HELLO = ''HELLO''"
| "type_name GET_CAPABILITIES = ''GET_CAPABILITIES''"
| "type_name CAPABILITIES = ''CAPABILITIES''"
| "type_name TRADE_SESSION_STARTED = ''TRADE_SESSION_STARTED''"
| "type_name PARTNER_PARTY = ''PARTNER_PARTY''"
| "type_name PARTNER_SELECTED_SLOT = ''PARTNER_SELECTED_SLOT''"
| "type_name PARTNER_SELECTED_MON = ''PARTNER_SELECTED_MON''"
| "type_name SET_OFFER_MON = ''SET_OFFER_MON''"
| "type_name OFFER_READY = ''OFFER_READY''"
| "type_name TRADE_NEGOTIATION = ''TRADE_NEGOTIATION''"
| "type_name TRADE_COMMITTED = ''TRADE_COMMITTED''"
| "type_name TRADE_ABORTED = ''TRADE_ABORTED''"
| "type_name TRADE_LINK_CLOSED = ''TRADE_LINK_CLOSED''"
| "type_name ABORT_IF_SAFE = ''ABORT_IF_SAFE''"
| "type_name ERROR = ''ERROR''"

fun join :: "string \<Rightarrow> string list \<Rightarrow> string" where
  "join sep [] = []"
| "join sep [s] = s"
| "join sep (s # ss) = s @ sep @ join sep ss"

text \<open>\<open>repr\<close> of a bytes object.\<close>

definition repr_byte :: "char \<Rightarrow> byte \<Rightarrow> string" where
  "repr_byte quote b = (
     let c = char_of (unat b) in
     if c = quote \<or> b = 0x5C then [CHR 0x5C, c]
     else if b = 9 then [CHR 0x5C, CHR ''t'']
     else if b = 10 then [CHR 0x5C, CHR ''n'']
     else if b = 13 then [CHR 0x5C, CHR ''r'']
     else if b < 32 \<or> 127 \<le> b then [CHR 0x5C, CHR ''x''] @ hex_byte b
     else [c])"

definition repr_bytes :: "bytes \<Rightarrow> string" where
  "repr_bytes bs = (
     let quote = (if 0x27 \<in> set bs \<and> 0x22 \<notin> set bs then CHR 0x22 else CHR 0x27) in
     [CHR ''b'', quote] @ concat (map (repr_byte quote) bs) @ [quote])"

text \<open>\<open>bytes.fromhex\<close> on hexadecimal digits.\<close>

definition hex_value :: "char \<Rightarrow> nat" where
  "hex_value c = length (takeWhile (\<lambda>x. x \<noteq> c) ''0123456789abcdef'')"

fun from_hex :: "string \<Rightarrow> bytes" where
  "from_hex (a # b # cs) = of_nat (16 * hex_value a + hex_value b) # from_hex cs"
| "from_hex _ = []"

section \<open>Sending and waiting\<close>

definition on_transport :: "('t, 'a) prog \<Rightarrow> ('t gb_link, 'a) prog" where
  "on_transport m = zoom transport (\<lambda>t s. s\<lparr>transport := t\<rparr>) m"

definition send :: "'t byte_transport \<Rightarrow> message_type \<Rightarrow> bytes \<Rightarrow> ('t gb_link, unit) prog" where
  "send ops t pl =
     andthen (modify (\<lambda>s. s\<lparr>out_sequence := out_sequence s + 1\<rparr>)) (\<lambda>_.
     andthen (gets id) (\<lambda>self.
     andthen (lift (mk_frame t (link_txid self) (out_sequence self) pl 0)) (\<lambda>f.
     on_transport (transport_write ops (encode f)))))"

text \<open>\<open>self._decoder.feed(data)\<close>\<close>

definition feed_link :: "bytes \<Rightarrow> ('t gb_link, frame list) prog" where
  "feed_link data = (\<lambda>s. case feed (decode_buffer s) data of
     (b, r) \<Rightarrow> Some (s\<lparr>decode_buffer := b\<rparr>, r))"

text \<open>\<open>self._replay.accept(frame)\<close>\<close>

definition accept_link :: "frame \<Rightarrow> ('t gb_link, unit) prog" where
  "accept_link f = andthen (gets window) (\<lambda>w.
     andthen (lift (replay_accept w f)) (\<lambda>w'.
     modify (\<lambda>s. s\<lparr>window := w', heard := heard s @ [f]\<rparr>)))"

fun scan :: "message_type list \<Rightarrow> frame list \<Rightarrow> ('t gb_link, frame option) prog" where
  "scan wanted [] = ret None"
| "scan wanted (f # fs) = andthen (gets link_txid) (\<lambda>txid.
     if transaction_id f \<noteq> txid then
       raise (Exn ProtocolError ''event transaction id does not match active transaction'')
     else
       andthen (accept_link f) (\<lambda>_.
       if message_type f \<in> set wanted then ret (Some f)
       else if message_type f = ERROR then
         raise (Exn EndpointError (''GB-Link error: '' @ repr_bytes (payload f)))
       else scan wanted fs))"

definition wait_turn :: "'t byte_transport \<Rightarrow> ('t, int) prog \<Rightarrow> message_type list \<Rightarrow> int \<Rightarrow> ('t gb_link, frame option) prog" where
  "wait_turn ops now wanted deadline =
     andthen (on_transport now) (\<lambda>t.
     andthen (on_transport (transport_read ops 512 (min (milliseconds 250) (max 0 (deadline - t))))) (\<lambda>data.
     if data = [] then ret None
     else andthen (feed_link data) (\<lambda>fs. scan wanted fs)))"

definition wait_for :: "'t byte_transport \<Rightarrow> ('t, int) prog \<Rightarrow> message_type list \<Rightarrow> ('t gb_link, frame) prog" where
  "wait_for ops now wanted =
     andthen (on_transport now) (\<lambda>t.
     andthen (gets link_timeout) (\<lambda>timeout.
     let deadline = t + timeout in
     andthen (loop (andthen (on_transport now) (\<lambda>t. ret (t < deadline))) (wait_turn ops now wanted deadline)) (\<lambda>r.
     case r of Some f \<Rightarrow> ret f
     | None \<Rightarrow> raise (Exn EndpointError (''timeout waiting for GB-Link event(s): '' @
         join '', '' (sort (map type_name wanted)))))))"

section \<open>The endpoint\<close>

definition link_connect :: "'t byte_transport \<Rightarrow> ('t, int) prog \<Rightarrow> ('t gb_link, unit) prog" where
  "link_connect ops now =
     andthen (on_transport (transport_open ops)) (\<lambda>_.
     andthen (modify (\<lambda>s. s\<lparr>link_connected := True\<rparr>)) (\<lambda>_.
     andthen (send ops HELLO (text_bytes ''frlg-trade-broker/0.1'')) (\<lambda>_.
     andthen (send ops GET_CAPABILITIES []) (\<lambda>_.
     andthen (wait_for ops now [CAPABILITIES]) (\<lambda>capabilities.
     if length (payload capabilities) \<noteq> 4 then
       raise (Exn ProtocolError ''CAPABILITIES payload must be u32'')
     else
       let required = 63; value = le_nat (payload capabilities) in
       if and value required \<noteq> required then
         raise (Exn EndpointError (''GB-Link broker capabilities 0x'' @ hex_pad 8 value @
           '' lack required 0x'' @ hex_pad 8 required))
       else ret ())))))"

definition slot_and_hash :: "int \<Rightarrow> pokemon100 \<Rightarrow> bytes" where
  "slot_and_hash slot m = of_int slot # from_hex (sha256 m)"

definition link_trade :: "'t byte_transport \<Rightarrow> ('t, int) prog \<Rightarrow> pokemon100 \<Rightarrow> ('t gb_link, gba_trade_result) prog" where
  "link_trade ops now mon =
     andthen (gets id) (\<lambda>self.
     if \<not> link_connected self then raise (Exn EndpointError ''GB-Link endpoint is not connected'')
     else
     andthen (lift (refuse_mail mon)) (\<lambda>_.
     andthen (send ops SET_OFFER_MON (of_int (offer_slot self) # raw mon)) (\<lambda>_.
     andthen (wait_for ops now [OFFER_READY]) (\<lambda>ready.
     if payload ready \<noteq> slot_and_hash (offer_slot self) mon then
       raise (Exn ProtocolError ''OFFER_READY slot/hash does not match requested record'')
     else
     andthen (wait_for ops now [TRADE_SESSION_STARTED]) (\<lambda>_.
     andthen (wait_for ops now [PARTNER_PARTY]) (\<lambda>party.
     if length (payload party) \<noteq> 600 then
       raise (Exn ProtocolError ''PARTNER_PARTY must be exactly 600 bytes'')
     else
     andthen (wait_for ops now [PARTNER_SELECTED_SLOT]) (\<lambda>slot_frame.
     if length (payload slot_frame) \<noteq> 1 \<or> payload slot_frame ! 0 > 5 then
       raise (Exn ProtocolError ''PARTNER_SELECTED_SLOT must be one byte in 0..5'')
     else
     let chosen = unat (payload slot_frame ! 0) in
     andthen (wait_for ops now [PARTNER_SELECTED_MON]) (\<lambda>mon_frame.
     andthen (lift (mk_pokemon (payload mon_frame))) (\<lambda>selected.
     if raw selected \<noteq> slice (chosen * 100) ((chosen + 1) * 100) (payload party) then
       raise (Exn ProtocolError ''selected-mon event contradicts captured partner party'')
     else
     andthen (wait_for ops now [TRADE_COMMITTED, TRADE_ABORTED, ERROR]) (\<lambda>committed.
     if message_type committed \<noteq> TRADE_COMMITTED then
       raise (Exn CommitNotConfirmed (''GBA trade ended with '' @ type_name (message_type committed)))
     else if payload committed \<noteq> sha256_digest (raw mon) @ sha256_digest (raw selected) then
       raise (Exn ProtocolError ''TRADE_COMMITTED hashes do not match offered/selected records'')
     else
     andthen (wait_for ops now [TRADE_LINK_CLOSED, ERROR]) (\<lambda>closed.
     ret \<lparr>offered_mon = mon, received_mon = selected, commit_confirmed = True,
       selected_slot = int chosen,
       link_closed = (message_type closed = TRADE_LINK_CLOSED \<and> payload closed = [0])\<rparr>)))))))))))"

definition link_abort_if_safe :: "'t byte_transport \<Rightarrow> ('t, int) prog \<Rightarrow> ('t gb_link, bool) prog" where
  "link_abort_if_safe ops now = andthen (gets link_connected) (\<lambda>on.
     if \<not> on then ret True
     else
       andthen (send ops ABORT_IF_SAFE []) (\<lambda>_.
       andthen (wait_for ops now [TRADE_ABORTED, ERROR]) (\<lambda>result.
       ret (message_type result = TRADE_ABORTED))))"

definition link_close :: "'t byte_transport \<Rightarrow> ('t gb_link, unit) prog" where
  "link_close ops = andthen (on_transport (transport_close ops)) (\<lambda>_.
     modify (\<lambda>s. s\<lparr>link_connected := False\<rparr>))"

definition gb_link_endpoint :: "'t byte_transport \<Rightarrow> ('t, int) prog \<Rightarrow> 't gb_link gba_endpoint" where
  "gb_link_endpoint ops now = \<lparr>gba_connect = link_connect ops now, gba_trade = link_trade ops now,
     gba_abort_if_safe = link_abort_if_safe ops now, gba_close = link_close ops\<rparr>"

section \<open>What has been heard\<close>

lemma replay_all_append:
  "replay_all w (fs @ gs) = (case replay_all w fs of Inl e \<Rightarrow> Inl e | Inr w' \<Rightarrow> replay_all w' gs)"
  by (induction fs arbitrary: w) (auto split: sum.split)

definition hears :: "'t gb_link \<Rightarrow> frame list \<Rightarrow> 't gb_link \<Rightarrow> bool" where
  "hears g hs g' \<longleftrightarrow> link_txid g' = link_txid g \<and> offer_slot g' = offer_slot g \<and>
     link_timeout g' = link_timeout g \<and> link_connected g' = link_connected g \<and> heard g' = heard g @ hs \<and>
     (\<forall>f \<in> set hs. transaction_id f = link_txid g) \<and> replay_all (window g) hs = Inr (window g')"

lemma hears_refl: "hears g [] g"
  by (simp add: hears_def)

lemma hears_trans: "hears g hs g1 \<Longrightarrow> hears g1 hs' g2 \<Longrightarrow> hears g (hs @ hs') g2"
  by (auto simp: hears_def replay_all_append)

lemma hears_quiet [simp]:
  "hears g hs (g1\<lparr>transport := t\<rparr>) = hears g hs g1" "hears g hs (g1\<lparr>decode_buffer := b\<rparr>) = hears g hs g1"
  "hears g hs (g1\<lparr>out_sequence := n\<rparr>) = hears g hs g1"
  by (simp_all add: hears_def)

lemma wp_on_transport [wp_simps]:
  "wp (on_transport m) Q E g \<longleftrightarrow> wp m (\<lambda>a t. Q a (g\<lparr>transport := t\<rparr>)) (\<lambda>e t. E e (g\<lparr>transport := t\<rparr>)) (transport g)"
  by (simp add: on_transport_def wp_simps)

text \<open>The frames \<open>xs\<close> have been heard since \<open>g\<close>, in this order, among others.\<close>

definition told :: "'t gb_link \<Rightarrow> frame list \<Rightarrow> 't gb_link \<Rightarrow> bool" where
  "told g xs g' \<longleftrightarrow> (\<exists>hs. hears g hs g' \<and> subseq xs hs)"

lemma told_quiet [simp]:
  "told g hs (g1\<lparr>transport := t\<rparr>) = told g hs g1" "told g hs (g1\<lparr>decode_buffer := b\<rparr>) = told g hs g1"
  "told g hs (g1\<lparr>out_sequence := n\<rparr>) = told g hs g1"
  by (simp_all add: told_def)

lemma told_refl: "told g [] g"
  using hears_refl by (auto simp: told_def)

lemma told_txid: "told g xs g' \<Longrightarrow> link_txid g' = link_txid g"
  by (auto simp: told_def hears_def)

lemma told_accept:
  assumes "told g xs g1" and "transaction_id f = link_txid g1" and "replay_accept (window g1) f = Inr w"
  shows "told g (xs @ [f]) (g1\<lparr>window := w, heard := heard g1 @ [f]\<rparr>)"
    and "told g xs (g1\<lparr>window := w, heard := heard g1 @ [f]\<rparr>)"
proof -
  obtain hs where hs: "hears g hs g1" "subseq xs hs" using assms(1) by (auto simp: told_def)
  have "hears g1 [f] (g1\<lparr>window := w, heard := heard g1 @ [f]\<rparr>)"
    using assms(2,3) by (simp add: hears_def)
  then have "hears g (hs @ [f]) (g1\<lparr>window := w, heard := heard g1 @ [f]\<rparr>)" by (rule hears_trans [OF hs(1)])
  then show "told g (xs @ [f]) (g1\<lparr>window := w, heard := heard g1 @ [f]\<rparr>)"
    and "told g xs (g1\<lparr>window := w, heard := heard g1 @ [f]\<rparr>)"
    using hs(2) unfolding told_def by (auto intro: list_emb_append_mono)
qed

lemma wp_scan:
  assumes "told g xs g1"
  shows "wp (scan wanted fs) (\<lambda>r g2. case r of
      None \<Rightarrow> told g xs g2
    | Some f \<Rightarrow> told g (xs @ [f]) g2 \<and> message_type f \<in> set wanted) (\<lambda>_ _. True) g1"
  using assms
proof (induction fs arbitrary: g1)
  case (Cons f fs)
  show ?case
  proof (cases "transaction_id f = link_txid g1")
    case True
    note acc = told_accept [OF Cons.prems True]
    show ?thesis
      using True Cons.IH [OF acc(2)] acc
      by (auto simp: accept_link_def wp_simps split: sum.split)
  qed (simp add: wp_simps)
qed (simp add: wp_simps)

lemma wp_any_error: "(\<And>a w'. Q a w') \<Longrightarrow> wp m Q (\<lambda>_ _. True) w"
  by (auto simp: wp_def split: option.split sum.split)

lemma wp_wait_for:
  assumes "told g xs g1" and "\<And>f g2. told g (xs @ [f]) g2 \<Longrightarrow> message_type f \<in> set wanted \<Longrightarrow> Q f g2"
  shows "wp (wait_for ops now wanted) Q (\<lambda>_ _. True) g1"
proof -
  let ?Q = "\<lambda>r g2. case r of None \<Rightarrow> told g xs g2
    | Some f \<Rightarrow> told g (xs @ [f]) g2 \<and> message_type f \<in> set wanted"
  have feeding: "wp (feed_link data) (\<lambda>fs. wp (scan wanted fs) ?Q (\<lambda>_ _. True)) (\<lambda>_ _. True) g1"
    if "told g xs g1" for g1 data
    using wp_scan [of g xs "g1\<lparr>decode_buffer := b\<rparr>" for b] that
    by (auto simp: wp_def feed_link_def split: prod.split sum.split)
  have turn: "wp (wait_turn ops now wanted deadline) ?Q (\<lambda>_ _. True) g1" if "told g xs g1" for g1 deadline
    unfolding wait_turn_def wp_andthen wp_on_transport
    by (rule wp_any_error, rule wp_any_error) (use that feeding in \<open>auto simp: wp_simps\<close>)
  have loop: "wp (loop (andthen (on_transport now) (\<lambda>t. ret (t < deadline))) (wait_turn ops now wanted deadline))
      ?Q (\<lambda>_ _. True) g1" if "told g xs g1" for g1 deadline
  proof (rule wp_loop [of "told g xs"])
    show "wp (andthen (on_transport now) (\<lambda>t. ret (t < deadline))) (\<lambda>go g1. if go
        then wp (wait_turn ops now wanted deadline) (\<lambda>r g2. case r of Some f \<Rightarrow> ?Q (Some f) g2 | None \<Rightarrow> told g xs g2)
          (\<lambda>_ _. True) g1
        else ?Q None g1) (\<lambda>_ _. True) w" if "told g xs w" for w
      unfolding wp_andthen wp_on_transport
      by (rule wp_any_error) (auto simp: wp_simps that intro!: wp_mono [OF turn] split: option.splits)
  qed (rule that)
  show ?thesis
    unfolding wait_for_def Let_def wp_andthen wp_on_transport wp_gets
    by (rule wp_any_error, rule wp_mono [OF loop])
      (use assms in \<open>auto simp: wp_simps split: option.splits\<close>)
qed

lemma wp_send:
  assumes "told g xs g1" and "\<And>g2. told g xs g2 \<Longrightarrow> Q () g2"
  shows "wp (send ops t pl) Q (\<lambda>_ _. True) g1"
  unfolding send_def wp_andthen wp_modify wp_gets wp_lift wp_on_transport
  by (auto intro!: wp_any_error assms(2) simp: assms(1) split: sum.split)

lemma heard_order:
  assumes "hears g hs g'"
  shows "sorted_wrt (<) (map sequence hs)"
    and "window g (link_txid g) = Some n \<Longrightarrow> f \<in> set hs \<Longrightarrow> n < sequence f"
proof -
  have "sequences_of (link_txid g) hs = map sequence hs"
    using assms by (auto simp: hears_def sequences_of_def intro!: arg_cong [of _ _ "map sequence"])
  moreover have "\<exists>w'. replay_all (window g) hs = Inr w'" using assms by (auto simp: hears_def)
  ultimately have "sorted_wrt (<) ((case window g (link_txid g) of None \<Rightarrow> [] | Some n \<Rightarrow> [n]) @ map sequence hs)"
    unfolding replay_all_sorted by (auto dest: spec [of _ "link_txid g"])
  then show "sorted_wrt (<) (map sequence hs)"
    and "window g (link_txid g) = Some n \<Longrightarrow> f \<in> set hs \<Longrightarrow> n < sequence f"
    by (auto split: option.splits)
qed

end
