(* ===== verification/Conversation.thy ===== *)
theory Conversation
  imports Gb_Link
begin

text \<open>
  How \<open>GbLinkEndpoint\<close> hears a conversation. The interface \<open>event_source\<close> is a transport that hands over
  what the adapter sent burst by burst, as \<open>ByteTransport.read(size, timeout)\<close> does: a read yields at most
  \<open>size\<close> bytes, perhaps fewer, of one burst, or nothing while the adapter is silent, and takes at most \<open>tick\<close>. Over
  every such transport a connect and a trade succeed, as long as each event comes within the timeout;
  an event of more bytes than a read asks for, as a party is, arrives in several reads. A read that
  holds the end of one event and the beginning of the next is left out: when the next one is in it
  whole, the wait for the first loses it.
\<close>

section \<open>Waiting for an event\<close>

text \<open>A read that holds whole frames, the first of them wanted.\<close>

lemma wait_for_read:
  assumes "now (transport g) = Some (t0, Inr n0)" and "now t0 = Some (t1, Inr n1)" and "n1 < n0 + link_timeout g"
    and "now t1 = Some (t2, Inr n2)"
    and "transport_read ops 512 (min (milliseconds 250) (max 0 (n0 + link_timeout g - n2))) t2 =
      Some (t3, Inr (concat (map encode (f # fs))))"
    and "decode_buffer g = []" and "\<forall>x \<in> set (f # fs). wf_frame x"
    and "transaction_id f = link_txid g" and "replay_accept (window g) f = Inr w" and "message_type f \<in> set wanted"
  shows "wait_for ops now wanted g =
    Some (g\<lparr>transport := t3, window := w, heard := heard g @ [f]\<rparr>, Inr f)"
proof -
  have some: "encode f \<noteq> []"
    by (simp add: encode_def header_def magic_def Let_def)
  have feed: "feed [] (concat (map encode (f # fs))) = ([], Inr (f # fs))"
    using decode_loop_encodes [of "f # fs"] assms(7) by (simp add: feed_def)
  show ?thesis
    using assms(1-5,8-) some feed
    by (simp add: wait_for_def wait_turn_def on_transport_def feed_link_def accept_link_def prog_defs Let_def
        assms(6) loop.simps)
qed

text \<open>A frame that has not arrived to its end yields nothing, and is completed by the rest.\<close>

lemma partial_frame:
  assumes "wf_frame f" and "encode f = p @ rest" and "rest \<noteq> []"
  shows "\<exists>b. decode_loop p = (b, [], None) \<and> (\<forall>c. decode_loop (b @ c) = decode_loop (p @ c))"
proof -
  have emit: "decode_step (p @ rest) = Emit f []"
    using decode_step_encode [OF assms(1), of "[]"] assms(2) by simp
  obtain b where b: "decode_step p = Wait b"
  proof (cases "decode_step p")
    case (Emit g x)
    then show ?thesis using decode_step_extend(1) [OF Emit, of rest] emit assms(3) by simp
  next
    case (Fail e x)
    then show ?thesis using decode_step_extend(2) [OF Fail, of rest] emit by simp
  qed (use that in blast)
  have d: "decode_loop p = (b, [], None)" by (rule frames.drain_wait [OF b])
  have "decode_loop (b @ c) = decode_loop (p @ c)" for c
    using frames.drain_append_ok [OF d, of c] by (simp split: prod.splits)
  then show ?thesis using d by blast
qed

section \<open>A whole conversation\<close>

definition event :: "uuid \<Rightarrow> message_type \<Rightarrow> int \<Rightarrow> bytes \<Rightarrow> frame" where
  "event u t n pl = \<lparr>message_type = t, transaction_id = u, sequence = n, payload = pl, flags = 0\<rparr>"

lemma event_simps [simp]:
  "message_type (event u t n pl) = t" "transaction_id (event u t n pl) = u" "sequence (event u t n pl) = n"
  "payload (event u t n pl) = pl" "wf_frame (event u t n pl) \<longleftrightarrow> 0 \<le> n \<and> n \<le> 0xFFFFFFFF \<and> length pl \<le> max_payload"
  by (auto simp: event_def wf_frame_def)

lemma nth_record:
  "i < length ps \<Longrightarrow> slice (i * 100) ((i + 1) * 100) (concat (map raw ps)) = raw (ps ! i)"
proof (induction ps arbitrary: i)
  case (Cons p ps)
  then show ?case by (cases i) (auto simp: slice_append_left slice_append_right slice_def)
qed simp

lemma hex_value_digit: "d < 16 \<Longrightarrow> hex_value (hex_digit d) = d"
proof -
  have "\<forall>d \<in> set [0..<16]. hex_value (hex_digit d) = d"
    by (simp add: upt_conv_Cons hex_value_def hex_digit_def)
  then show "d < 16 \<Longrightarrow> hex_value (hex_digit d) = d" by simp
qed

lemma from_hex_bytes [simp]: "from_hex (hex_bytes bs) = bs"
proof (induction bs)
  case (Cons b bs)
  have "unat b div 16 < 16" using unat_byte_less [of b] by (simp add: less_mult_imp_div_less)
  then have "16 * hex_value (hex_digit (unat b div 16)) + hex_value (hex_digit (unat b mod 16)) = unat b"
    by (simp add: hex_value_digit)
  then have "(of_nat (16 * hex_value (hex_digit (unat b div 16)) + hex_value (hex_digit (unat b mod 16))) :: byte) = b"
    by simp
  then show ?case using Cons by (simp add: hex_bytes_def hex_byte_def)
qed (simp add: hex_bytes_def)

lemma slot_and_hash_digest: "slot_and_hash slot m = of_int slot # sha256_digest (raw m)"
  by (simp add: slot_and_hash_def sha256_def sha256_hex_def)

section \<open>A source of events\<close>

text \<open>What an adapter sends in a trade of \<open>m\<close> for the record in slot \<open>i\<close> of a party.\<close>

definition conversation :: "uuid \<Rightarrow> int \<Rightarrow> pokemon100 \<Rightarrow> pokemon100 list \<Rightarrow> nat \<Rightarrow> int \<Rightarrow> frame list" where
  "conversation u slot m party i n = [
     event u OFFER_READY (n + 1) (of_int slot # sha256_digest (raw m)),
     event u TRADE_SESSION_STARTED (n + 2) [],
     event u PARTNER_PARTY (n + 3) (concat (map raw party)),
     event u PARTNER_SELECTED_SLOT (n + 4) [of_nat i],
     event u PARTNER_SELECTED_MON (n + 5) (raw (party ! i)),
     event u TRADE_COMMITTED (n + 6) (sha256_digest (raw m) @ sha256_digest (raw (party ! i))),
     event u TRADE_LINK_CLOSED (n + 7) [0]]"

text \<open>
  The events of a conversation as bursts: before each the adapter is silent for a number of reads, here
  an empty burst each.
\<close>

definition silence :: "nat list \<Rightarrow> nat" where
  "silence qs = (case qs of [] \<Rightarrow> 0 | q # _ \<Rightarrow> q)"

fun spaced :: "nat list \<Rightarrow> frame list \<Rightarrow> bytes list" where
  "spaced qs [] = []"
| "spaced qs (f # fs) = replicate (silence qs) [] @ encode f # spaced (tl qs) fs"

definition timely :: "nat \<Rightarrow> nat list \<Rightarrow> bool" where
  "timely lag qs \<longleftrightarrow> (\<forall>q \<in> set qs. q \<le> lag)"

lemma timely_silence: "timely lag qs \<Longrightarrow> silence qs \<le> lag"
  by (simp add: timely_def silence_def split: list.split)

lemma timely_simps [simp]: "timely lag []" "timely lag (q # qs) \<longleftrightarrow> q \<le> lag \<and> timely lag qs"
  "timely lag qs \<Longrightarrow> timely lag (tl qs)"
  by (auto simp: timely_def dest: list.set_sel(2)) (metis list.sel(2) list.set_sel(2))

text \<open>
  An endpoint of transaction \<open>u\<close> that has heard events up to number \<open>n\<close>, over a transport that
  has the bursts \<open>rs\<close> to give, with more than \<open>slack\<close> to wait; and what the waits of one session leave
  as it is. \<open>patience\<close> is the time of \<open>lag\<close> empty reads and of 640 that yield a byte, as many as
  the longest event has.
\<close>

definition at_source :: "(bytes list \<Rightarrow> 't \<Rightarrow> bool) \<Rightarrow> int \<Rightarrow> uuid \<Rightarrow> int \<Rightarrow> bytes list \<Rightarrow> 't gb_link \<Rightarrow> bool" where
  "at_source holds slack u n rs g \<longleftrightarrow> holds rs (transport g) \<and> slack < link_timeout g \<and> decode_buffer g = [] \<and>
     link_txid g = u \<and> (\<forall>j. window g u = Some j \<longrightarrow> j \<le> n)"

definition patience :: "int \<Rightarrow> nat \<Rightarrow> int" where
  "patience tick lag = 3 * tick * int (lag + 640)"

definition same_session :: "'t gb_link \<Rightarrow> 't gb_link \<Rightarrow> bool" where
  "same_session g g' \<longleftrightarrow> link_connected g' = link_connected g \<and> offer_slot g' = offer_slot g \<and>
     out_sequence g' = out_sequence g"

lemma same_session_trans: "same_session g g1 \<Longrightarrow> same_session g1 g2 \<Longrightarrow> same_session g g2"
  by (simp add: same_session_def)

text \<open>
  Events numbered from \<open>n + 1\<close> on, and the endpoint when \<open>k\<close> of them have been heard since \<open>g0\<close>.
\<close>

fun numbered :: "uuid \<Rightarrow> int \<Rightarrow> frame list \<Rightarrow> bool" where
  "numbered u n [] \<longleftrightarrow> 0 \<le> n \<and> n \<le> 0xFFFFFFFF"
| "numbered u n (f # fs) \<longleftrightarrow> 0 \<le> n \<and> (\<exists>t pl. f = event u t (n + 1) pl \<and> length pl \<le> 600) \<and> numbered u (n + 1) fs"

lemma numbered_bound: "numbered u n fs \<Longrightarrow> 0 \<le> n \<and> n + int (length fs) \<le> 0xFFFFFFFF"
  by (induction u n fs rule: numbered.induct) auto

lemma numbered_nth:
  "numbered u n fs \<Longrightarrow> k < length fs \<Longrightarrow> \<exists>t pl. fs ! k = event u t (n + int k + 1) pl \<and> length pl \<le> 600"
proof (induction u n fs arbitrary: k rule: numbered.induct)
  case (2 u n f fs)
  then show ?case by (cases k) (auto simp: add.commute add.left_commute)
qed simp

definition after_events ::
  "(bytes list \<Rightarrow> 't \<Rightarrow> bool) \<Rightarrow> int \<Rightarrow> uuid \<Rightarrow> int \<Rightarrow> nat list \<Rightarrow> frame list \<Rightarrow> 't gb_link \<Rightarrow> nat \<Rightarrow> 't gb_link \<Rightarrow> bool"
where
  "after_events holds slack u n qs fs g0 k g \<longleftrightarrow>
     at_source holds slack u (n + int k) (spaced ((tl ^^ k) qs) (drop k fs)) g \<and> same_session g0 g"

lemma event_inject: "event u t n pl = event u' t' n' pl' \<longleftrightarrow> u = u' \<and> t = t' \<and> n = n' \<and> pl = pl'"
  by (auto simp: event_def)

lemma numbered_conversation:
  assumes "length party = 6" and "0 \<le> n" and "n + 7 \<le> 0xFFFFFFFF"
  shows "numbered u n (conversation u slot m party i n)"
proof -
  have "length (concat (map raw party)) = 600" using concat_map_width [of raw 100 party] assms(1) by simp
  then show ?thesis using assms(2,3) by (simp add: conversation_def event_inject)
qed

locale event_source =
  fixes ops :: "'t byte_transport" and now :: "('t, int) prog" and holds :: "bytes list \<Rightarrow> 't \<Rightarrow> bool"
    and time :: "'t \<Rightarrow> int" and tick :: int
  assumes tick: "0 \<le> tick"
    and clock: "holds rs t \<Longrightarrow> \<exists>t'. now t = Some (t', Inr (time t')) \<and> holds rs t' \<and>
      time t \<le> time t' \<and> time t' \<le> time t + tick"
    and reading: "holds (r # rs) t \<Longrightarrow> 0 < n \<Longrightarrow> \<exists>k t'. transport_read ops n w t = Some (t', Inr (take k r)) \<and>
      k \<le> n \<and> k \<le> length r \<and> (r \<noteq> [] \<longrightarrow> 0 < k) \<and> holds (if k = length r then rs else drop k r # rs) t' \<and>
      time t' \<le> time t + tick"
begin

text \<open>One turn of the wait, on an empty burst and on a piece of an event.\<close>

abbreviation pending :: "int \<Rightarrow> ('t gb_link, bool) prog" where
  "pending deadline \<equiv> andthen (on_transport now) (\<lambda>t. ret (t < deadline))"

lemma turn:
  assumes "holds (r # rs) (transport g)" and "time (transport g) + tick < deadline"
  shows "\<exists>k t1 t'. pending deadline g = Some (g\<lparr>transport := t1\<rparr>, Inr True) \<and>
    wait_turn ops now wanted deadline (g\<lparr>transport := t1\<rparr>) =
      (if take k r = [] then Some (g\<lparr>transport := t'\<rparr>, Inr None)
       else andthen (feed_link (take k r)) (scan wanted) (g\<lparr>transport := t'\<rparr>)) \<and>
    k \<le> length r \<and> (r \<noteq> [] \<longrightarrow> 0 < k) \<and> holds (if k = length r then rs else drop k r # rs) t' \<and>
    time t' \<le> time (transport g) + 3 * tick"
proof -
  obtain t1 where t1: "now (transport g) = Some (t1, Inr (time t1))" "holds (r # rs) t1"
      "time t1 \<le> time (transport g) + tick"
    using clock [OF assms(1)] by blast
  obtain t2 where t2: "now t1 = Some (t2, Inr (time t2))" "holds (r # rs) t2" "time t2 \<le> time t1 + tick"
    using clock [OF t1(2)] by blast
  obtain k t3 where t3: "transport_read ops 512 (min (milliseconds 250) (max 0 (deadline - time t2))) t2 =
        Some (t3, Inr (take k r))" "k \<le> length r" "r \<noteq> [] \<longrightarrow> 0 < k"
      "holds (if k = length r then rs else drop k r # rs) t3" "time t3 \<le> time t2 + tick"
    using reading [OF t2(2), of 512] by (metis zero_less_numeral)
  have "pending deadline g = Some (g\<lparr>transport := t1\<rparr>, Inr True)"
    using t1 assms(2) by (simp add: on_transport_def prog_defs)
  moreover have "wait_turn ops now wanted deadline (g\<lparr>transport := t1\<rparr>) =
      (if take k r = [] then Some (g\<lparr>transport := t3\<rparr>, Inr None)
       else andthen (feed_link (take k r)) (scan wanted) (g\<lparr>transport := t3\<rparr>))"
    using t2(1) t3(1) by (simp add: wait_turn_def on_transport_def prog_defs del: take_eq_Nil)
  ultimately show ?thesis using t1(3) t2(3) t3 by (intro exI [of _ k] exI [of _ t1] exI [of _ t3]) auto
qed

lemma budget: "m < n \<Longrightarrow> 3 * tick * int m + 3 * tick \<le> 3 * tick * int n"
proof -
  assume "m < n"
  then have "3 * tick * (int m + 1) \<le> 3 * tick * int n"
    using tick by (intro mult_left_mono) simp_all
  then show ?thesis by (simp add: distrib_left)
qed

text \<open>
  The rest of an event, of which the decoder has the beginning \<open>p\<close>, after \<open>q\<close> empty reads.
\<close>

lemma event_arrives:
  assumes "holds (replicate q [] @ rest # rs) (transport g)" and "rest \<noteq> []" and "encode f = p @ rest"
    and "\<And>c. decode_loop (decode_buffer g @ c) = decode_loop (p @ c)"
    and "time (transport g) + 3 * tick * int (q + length rest) < deadline"
    and f: "wf_frame f" "transaction_id f = link_txid g" "replay_accept (window g) f = Inr w" "message_type f \<in> set wanted"
  shows "\<exists>t'. loop (pending deadline) (wait_turn ops now wanted deadline) g =
    Some (g\<lparr>transport := t', decode_buffer := [], window := w, heard := heard g @ [f]\<rparr>, Inr (Some f)) \<and> holds rs t'"
  using assms(1-5) f(2,3)
proof (induction "q + length rest" arbitrary: g q rest p rule: less_induct)
  case less
  let ?loop = "loop (pending deadline) (wait_turn ops now wanted deadline)"
  let ?done = "\<lambda>t. g\<lparr>transport := t, decode_buffer := [], window := w, heard := heard g @ [f]\<rparr>"
  define r where "r = (if q = 0 then rest else [])"
  define rs' where "rs' = (if q = 0 then rs else replicate (q - 1) [] @ rest # rs)"
  have holds: "holds (r # rs') (transport g)"
    using less.prems(1) by (cases q) (simp_all add: r_def rs'_def)
  have "time (transport g) + tick < deadline"
    using less.prems(2,5) budget [of 0 "q + length rest"] tick by simp
  from turn [OF holds this, of wanted] obtain k t1 t' where
    go: "pending deadline g = Some (g\<lparr>transport := t1\<rparr>, Inr True)" and
    body: "wait_turn ops now wanted deadline (g\<lparr>transport := t1\<rparr>) =
      (if take k r = [] then Some (g\<lparr>transport := t'\<rparr>, Inr None)
       else andthen (feed_link (take k r)) (scan wanted) (g\<lparr>transport := t'\<rparr>))" and
    k: "k \<le> length r" "r \<noteq> [] \<longrightarrow> 0 < k" "holds (if k = length r then rs' else drop k r # rs') t'"
      "time t' \<le> time (transport g) + 3 * tick" by blast
  have step: "?loop g = (case wait_turn ops now wanted deadline (g\<lparr>transport := t1\<rparr>) of
      Some (w2, Inr None) \<Rightarrow> ?loop w2 | r \<Rightarrow> r)"
    using go by (subst loop.simps) (auto split: option.split sum.split)
  have later: "time t' + 3 * tick * int m < deadline" if "m < q + length rest" for m
    using k(4) budget [OF that] less.prems(5) by simp
  consider "q > 0" | "q = 0" "k < length rest" | "q = 0" "k = length rest"
    using k(1) by (cases "q = 0"; cases "k < length rest") (auto simp: r_def)
  then show ?case
  proof cases
    case 1
    then have "?loop g = ?loop (g\<lparr>transport := t'\<rparr>)" using step body by (simp add: r_def)
    then show ?thesis
      using less.hyps [of "q - 1" rest "g\<lparr>transport := t'\<rparr>" p] less.prems k(1,3) later [of "q - 1 + length rest"] 1
      by (simp add: r_def rs'_def)
  next
    case 2
    have some: "take k r \<noteq> []" using 2 k(2) less.prems(2) by (auto simp: r_def)
    have cut: "encode f = (p @ take k rest) @ drop k rest" "drop k rest \<noteq> []" using less.prems(3) 2 by simp_all
    obtain b where b: "decode_loop (p @ take k rest) = (b, [], None)"
        "\<And>c. decode_loop (b @ c) = decode_loop ((p @ take k rest) @ c)"
      using partial_frame [OF f(1) cut] by blast
    have "wait_turn ops now wanted deadline (g\<lparr>transport := t1\<rparr>) = Some (g\<lparr>transport := t', decode_buffer := b\<rparr>, Inr None)"
      using body some b(1) less.prems(4) [of "take k rest"] 2(1) by (simp add: r_def feed_link_def feed_def prog_defs)
    then have "?loop g = ?loop (g\<lparr>transport := t', decode_buffer := b\<rparr>)" using step by simp
    then show ?thesis
      using less.hyps [of 0 "drop k rest" "g\<lparr>transport := t', decode_buffer := b\<rparr>" "p @ take k rest"] less.prems
        k(1,2,3) later [of "length (drop k rest)"] 2 cut b(2)
      by (simp add: r_def rs'_def)
  next
    case 3
    have "decode_loop (p @ rest) = ([], [f], None)"
      using decode_loop_encodes [of "[f]"] f(1) less.prems(3) by simp
    then have "wait_turn ops now wanted deadline (g\<lparr>transport := t1\<rparr>) = Some (?done t', Inr (Some f))"
      using body less.prems(2,4,6,7) 3 f(4) by (simp add: r_def feed_link_def feed_def accept_link_def prog_defs)
    then show ?thesis using step k(3) 3 by (auto simp: r_def rs'_def)
  qed
qed

lemma wait_for_event:
  assumes "at_source holds (patience tick lag) u n (spaced qs (event u t j pl # fs)) g" and "timely lag qs"
    and "0 \<le> n" and "n < j" and "j \<le> 0xFFFFFFFF" and "length pl \<le> 600" and "t \<in> set wanted"
  obtains g' where "wait_for ops now wanted g = Some (g', Inr (event u t j pl))"
    and "at_source holds (patience tick lag) u j (spaced (tl qs) fs) g'" and "same_session g g'"
proof -
  let ?f = "event u t j pl" and ?q = "silence qs" and ?rs = "spaced (tl qs) fs"
  have src: "holds (replicate ?q [] @ encode ?f # ?rs) (transport g)" "patience tick lag < link_timeout g"
      "decode_buffer g = []" "link_txid g = u" "\<forall>i. window g u = Some i \<longrightarrow> i \<le> n"
    using assms(1) by (simp_all add: at_source_def)
  obtain b rs' where "replicate ?q [] @ encode ?f # ?rs = b # rs'" by (cases "replicate ?q [] @ encode ?f # ?rs") auto
  then obtain t0 where t0: "now (transport g) = Some (t0, Inr (time t0))" "holds (replicate ?q [] @ encode ?f # ?rs) t0"
    using clock [of "replicate ?q [] @ encode ?f # ?rs" "transport g"] src(1) by auto
  have acc: "replay_accept (window g) ?f = Inr ((window g)(u \<mapsto> j))"
    using src(5) assms(4) by (fastforce simp: replay_accept_def Let_def split: option.split)
  have len: "?q + length (encode ?f) < lag + 640"
    using timely_silence [OF assms(2)] assms(6) by (simp add: header_size_def crc_size_def)
  have "time t0 + 3 * tick * int (?q + length (encode ?f)) < time t0 + link_timeout g"
    using budget [OF len] tick src(2) by (simp add: patience_def)
  then obtain t' where t': "loop (pending (time t0 + link_timeout g)) (wait_turn ops now wanted (time t0 + link_timeout g))
      (g\<lparr>transport := t0\<rparr>) = Some (g\<lparr>transport := t', decode_buffer := [], window := (window g)(u \<mapsto> j),
        heard := heard g @ [?f]\<rparr>, Inr (Some ?f))" "holds ?rs t'"
    using event_arrives [of ?q "encode ?f" ?rs "g\<lparr>transport := t0\<rparr>" ?f "[]" "time t0 + link_timeout g"
        "(window g)(u \<mapsto> j)" wanted] t0(2) src(3,4) acc assms(3-7)
    by (auto simp: encode_def header_def magic_def Let_def max_payload_def)
  have "wait_for ops now wanted g = Some (g\<lparr>transport := t', decode_buffer := [], window := (window g)(u \<mapsto> j),
      heard := heard g @ [?f]\<rparr>, Inr ?f)"
  proof -
    have "on_transport now g = Some (g\<lparr>transport := t0\<rparr>, Inr (time t0))"
      "gets link_timeout (g\<lparr>transport := t0\<rparr>) = Some (g\<lparr>transport := t0\<rparr>, Inr (link_timeout g))"
      using t0(1) by (simp_all add: on_transport_def prog_defs)
    then show ?thesis
      using t'(1) by (simp add: wait_for_def andthen_def [of "on_transport now"] andthen_def [of "gets link_timeout"]
          andthen_def [of "loop c m" for c m] Let_def ret_def)
  qed
  then show ?thesis
    by (rule that) (use src t'(2) in \<open>auto simp: at_source_def same_session_def\<close>)
qed

lemma session_opens:
  assumes "on_transport (transport_open ops) g = Some (g0, Inr ())"
    and "send ops HELLO (text_bytes ''frlg-trade-broker/0.1'') (g0\<lparr>link_connected := True\<rparr>) = Some (g1, Inr ())"
    and "send ops GET_CAPABILITIES [] g1 = Some (g2, Inr ())"
    and "at_source holds (patience tick lag) u n (spaced qs [event u CAPABILITIES j bits]) g2" and "timely lag qs"
    and "0 \<le> n" and "n < j" and "j \<le> 0xFFFFFFFF" and "length bits = 4" and "and (le_nat bits) 63 = 63"
  obtains g' where "link_connect ops now g = Some (g', Inr ())" and "at_source holds (patience tick lag) u j [] g'"
    and "same_session g2 g'"
proof -
  obtain g3 where g3: "wait_for ops now [CAPABILITIES] g2 = Some (g3, Inr (event u CAPABILITIES j bits))"
      "at_source holds (patience tick lag) u j [] g3" "same_session g2 g3"
    using wait_for_event [OF assms(4-8), of "[CAPABILITIES]"] assms(9) by auto
  have "link_connect ops now g = Some (g3, Inr ())"
    using assms(9,10) by (simp add: link_connect_def prog_defs Let_def assms(1-3) g3(1))
  then show ?thesis using that g3(2,3) by blast
qed

lemma next_event:
  assumes "after_events holds (patience tick lag) u n qs fs g0 k g" and "timely lag qs" and "numbered u n fs"
    and "k < length fs" and "message_type (fs ! k) \<in> set wanted"
  shows "\<exists>g'. wait_for ops now wanted g = Some (g', Inr (fs ! k)) \<and>
    after_events holds (patience tick lag) u n qs fs g0 (Suc k) g'"
proof -
  obtain t pl where f: "fs ! k = event u t (n + int k + 1) pl" "length pl \<le> 600"
    using numbered_nth [OF assms(3,4)] by blast
  have q: "timely lag ((tl ^^ k) qs)" using assms(2) by (induction k) simp_all
  have "at_source holds (patience tick lag) u (n + int k) (spaced ((tl ^^ k) qs) (fs ! k # drop (Suc k) fs)) g"
    using assms(1,4) by (simp only: after_events_def Cons_nth_drop_Suc)
  then obtain g' where "wait_for ops now wanted g = Some (g', Inr (fs ! k))"
      "at_source holds (patience tick lag) u (n + int k + 1) (spaced (tl ((tl ^^ k) qs)) (drop (Suc k) fs)) g'"
      "same_session g g'"
    using wait_for_event [OF _ q, of u "n + int k" t "n + int k + 1" pl "drop (Suc k) fs" g wanted]
      numbered_bound [OF assms(3)] assms(4,5) f
    by (auto simp del: spaced.simps)
  then show ?thesis
    using assms(1) by (auto simp: after_events_def same_session_def add.assoc add.commute [of "int k"])
qed

lemma trade_heard:
  assumes g0: "send ops SET_OFFER_MON (of_int (offer_slot g) # raw m) g = Some (g0, Inr ())"
    and t0: "at_source holds (patience tick lag) u n (spaced qs (conversation u (offer_slot g) m party i n)) g0"
    and q: "timely lag qs" and "link_connected g"
    and "refuse_mail m = Inr ()" and "length party = 6" and "i < 6" and "0 \<le> n" and "n + 7 \<le> 0xFFFFFFFF"
  shows "\<exists>g'. link_trade ops now m g = Some (g', Inr \<lparr>offered_mon = m, received_mon = party ! i,
    commit_confirmed = True, selected_slot = int i, link_closed = True\<rparr>) \<and>
    at_source holds (patience tick lag) u (n + 7) [] g' \<and> same_session g0 g'"
proof -
  let ?talk = "conversation u (offer_slot g) m party i n"
  let ?at = "after_events holds (patience tick lag) u n qs ?talk g0"
  have party: "length (concat (map raw party)) = 600"
    using concat_map_width [of raw 100 party] assms(6) by simp
  have chosen: "(of_nat i :: byte) \<le> 5" "unat (of_nat i :: byte) = i"
    using assms(7) by (simp_all add: word_le_nat_alt unat_of_nat)
  have slot: "uint (of_nat i :: byte) = int i" using chosen(2) by (metis uint_nat)
  have mon: "slice (i * 100) ((i + 1) * 100) (concat (map raw party)) = raw (party ! i)"
    using nth_record [of i party] assms(6,7) by simp
  have talk: "length ?talk = 7" by (simp add: conversation_def)
  have step: "\<exists>g2. wait_for ops now wanted g1 = Some (g2, Inr (?talk ! k)) \<and> ?at (Suc k) g2"
    if "?at k g1" "k < 7" "message_type (?talk ! k) \<in> set wanted" for k g1 wanted
    using next_event [OF that(1) q numbered_conversation [OF assms(6,8,9)]] that(2,3) talk by simp
  have "?at 0 g0" using t0 by (simp add: after_events_def same_session_def)
  then obtain g1 where g1: "wait_for ops now [OFFER_READY] g0 = Some (g1, Inr (?talk ! 0))" "?at 1 g1"
    using step [of 0 g0 "[OFFER_READY]"] by (auto simp: conversation_def)
  then obtain g2 where g2: "wait_for ops now [TRADE_SESSION_STARTED] g1 = Some (g2, Inr (?talk ! 1))" "?at 2 g2"
    using step [of 1 g1 "[TRADE_SESSION_STARTED]"] by (auto simp: conversation_def numeral_2_eq_2)
  then obtain g3 where g3: "wait_for ops now [PARTNER_PARTY] g2 = Some (g3, Inr (?talk ! 2))" "?at 3 g3"
    using step [of 2 g2 "[PARTNER_PARTY]"] by (auto simp: conversation_def numeral_3_eq_3)
  then obtain g4 where g4: "wait_for ops now [PARTNER_SELECTED_SLOT] g3 = Some (g4, Inr (?talk ! 3))" "?at 4 g4"
    using step [of 3 g3 "[PARTNER_SELECTED_SLOT]"] by (auto simp: conversation_def)
  then obtain g5 where g5: "wait_for ops now [PARTNER_SELECTED_MON] g4 = Some (g5, Inr (?talk ! 4))" "?at 5 g5"
    using step [of 4 g4 "[PARTNER_SELECTED_MON]"] by (auto simp: conversation_def)
  then obtain g6 where g6: "wait_for ops now [TRADE_COMMITTED, TRADE_ABORTED, ERROR] g5 = Some (g6, Inr (?talk ! 5))" "?at 6 g6"
    using step [of 5 g5 "[TRADE_COMMITTED, TRADE_ABORTED, ERROR]"] by (auto simp: conversation_def)
  then obtain g7 where g7: "wait_for ops now [TRADE_LINK_CLOSED, ERROR] g6 = Some (g7, Inr (?talk ! 6))" "?at 7 g7"
    using step [of 6 g6 "[TRADE_LINK_CLOSED, ERROR]"] by (auto simp: conversation_def)
  have "at_source holds (patience tick lag) u (n + 7) [] g7 \<and> same_session g0 g7"
    using g7(2) talk by (simp add: after_events_def)
  moreover have "link_trade ops now m g = Some (g7, Inr \<lparr>offered_mon = m, received_mon = party ! i,
      commit_confirmed = True, selected_slot = int i, link_closed = True\<rparr>)"
    using assms(4,5) g0 g1(1) g2(1) g3(1) g4(1) g5(1) g6(1) g7(1) party chosen slot mon
    by (simp add: link_trade_def conversation_def prog_defs Let_def slot_and_hash_digest mk_pokemon_raw
        refuse_mail_def add.commute)
  ultimately show ?thesis by blast
qed

end

end
