(* ===== verification/Gb_Link_Spec.thy ===== *)
theory Gb_Link_Spec
  imports Conversation
begin

text \<open>
  What \<open>GbLinkEndpoint\<close> promises: it reports a trade only on complete evidence, it understands an
  adapter whose events come one after the other, and what becomes of events that arrive together.
\<close>

section \<open>A transport for examples\<close>

text \<open>
  The chunks of a list, one a read as far as the read asks for so many bytes; a read takes one tick of
  the clock.
\<close>

definition tape_ops :: "script byte_transport" where
  "tape_ops = \<lparr>transport_open = ret (), transport_read = (\<lambda>n _. script_read n),
     transport_write = (\<lambda>bs. modify (\<lambda>p. p\<lparr>sent := sent p @ bs\<rparr>)), transport_close = ret ()\<rparr>"

definition tape_now :: "(script, int) prog" where
  "tape_now = gets ticks"

definition tape :: "bytes list \<Rightarrow> int \<Rightarrow> bytes \<Rightarrow> script" where
  "tape rs k out = \<lparr>reads = rs, ticks = k, sent = out\<rparr>"

lemma tape_simps [simp]: "ticks (tape rs k out) = k" "reads (tape rs k out) = rs" "sent (tape rs k out) = out"
  by (simp_all add: tape_def)

section \<open>Reading a tape\<close>

text \<open>The tape, at the head of which is such a read; and the empty tape, where the time runs out.\<close>

lemma wait_for_tape:
  assumes "transport g = tape (concat (map encode (f # fs)) # rs) k out" and "0 < link_timeout g"
    and "decode_buffer g = []" and "\<forall>x \<in> set (f # fs). wf_frame x" and "transaction_id f = link_txid g"
    and "replay_accept (window g) f = Inr w" and "message_type f \<in> set wanted"
    and "length (concat (map encode (f # fs))) \<le> 512"
  shows "wait_for tape_ops tape_now wanted g =
    Some (g\<lparr>transport := tape rs (k + 1) out, window := w, heard := heard g @ [f]\<rparr>, Inr f)"
  by (rule wait_for_read [where ?t0.0 = "transport g" and ?t1.0 = "transport g" and ?t2.0 = "transport g"
        and ?n0.0 = k and ?n1.0 = k and ?n2.0 = k, OF _ _ _ _ _ assms(3-7)])
    (use assms(1,2,8) in \<open>simp_all add: tape_ops_def tape_now_def tape_def script_read_def prog_defs\<close>)

definition timeout_error :: "message_type list \<Rightarrow> exn" where
  "timeout_error wanted = Exn EndpointError (''timeout waiting for GB-Link event(s): '' @
     join '', '' (sort (map type_name wanted)))"

lemma wait_for_empty_tape:
  assumes "transport g = tape [] k out"
  shows "\<exists>k'. wait_for tape_ops tape_now wanted g = Some (g\<lparr>transport := tape [] k' out\<rparr>, Inl (timeout_error wanted))"
proof -
  let ?at = "\<lambda>k. g\<lparr>transport := tape [] k out\<rparr>"
  let ?I = "\<lambda>g'. \<exists>k'. g' = ?at k'"
  let ?c = "\<lambda>deadline. andthen (on_transport tape_now) (\<lambda>t. ret (t < deadline)) :: (script gb_link, bool) prog"
  let ?m = "wait_turn tape_ops tape_now wanted"
  have c: "?c d (?at k) = Some (?at k, Inr (k < d))" for d k
    by (simp add: on_transport_def tape_now_def tape_def prog_defs)
  have m: "?m d (?at k) = Some (?at (k + 1), Inr None)" for d k
    by (simp add: wait_turn_def on_transport_def tape_ops_def tape_now_def tape_def script_read_def prog_defs)
  have start: "?I g" using assms by (intro exI [of _ k]) simp
  have ok: "wp (loop (?c d) (?m d)) (\<lambda>r g'. r = None \<and> ?I g') (\<lambda>_ _. False) g" for d
    by (rule wp_loop [of ?I, OF _ start], elim exE) (auto simp: wp_def c m)
  have comes: "returns (loop (?c d) (?m d)) g" for d
    by (rule loop_returns [of ?I _ _ "\<lambda>g. nat (d - ticks (transport g))", OF _ start], elim exE)
      (auto simp: wpr_def c m)
  have loop: "\<exists>k'. loop (?c d) (?m d) g = Some (?at k', Inr None)" for d
  proof -
    obtain g' r where run: "loop (?c d) (?m d) g = Some (g', r)" using comes [of d] by (auto simp: returns_def)
    then have "r = Inr None \<and> ?I g'" using ok [of d] by (cases r) (simp_all add: wp_def)
    then show ?thesis using run by blast
  qed
  have "on_transport tape_now g = Some (g, Inr k)" "gets link_timeout g = Some (g, Inr (link_timeout g))"
    using assms by (simp_all add: on_transport_def tape_now_def tape_def prog_defs)
  then show ?thesis
    using loop [of "k + link_timeout g"]
    by (auto simp: wait_for_def andthen_def [of "on_transport tape_now"] andthen_def [of "gets link_timeout"]
        andthen_def [of "loop c m" for c m] Let_def timeout_error_def raise_def)
qed

text \<open>A tape is a source of events.\<close>

definition on_tape :: "bytes list \<Rightarrow> script \<Rightarrow> bool" where
  "on_tape rs t \<longleftrightarrow> (\<exists>k out. t = tape rs k out)"

interpretation script_source: event_source tape_ops tape_now on_tape ticks 1
proof (unfold_locales, goal_cases)
  case (3 r rs t n w)
  then obtain k out where t: "t = tape (r # rs) k out" by (auto simp: on_tape_def)
  let ?t = "tape (if length r \<le> n then rs else drop n r # rs) (k + 1) out"
  have "transport_read tape_ops n w t = Some (?t, Inr (take (min n (length r)) r))"
    by (simp add: t tape_ops_def script_read_def tape_def prog_defs)
  then show ?case
    using 3(2) by (intro exI [of _ "min n (length r)"] exI [of _ ?t]) (auto simp: t on_tape_def min_def)
qed (auto simp: on_tape_def tape_def tape_now_def prog_defs)

abbreviation at_tape :: "nat \<Rightarrow> uuid \<Rightarrow> int \<Rightarrow> bytes list \<Rightarrow> script gb_link \<Rightarrow> bool" where
  "at_tape lag \<equiv> at_source on_tape (patience 1 lag)"

lemma send_tape:
  assumes "at_tape lag u n rs g" and "0 \<le> out_sequence g" and "out_sequence g < 0xFFFFFFFF" and "length pl \<le> max_payload"
  obtains g' where "send tape_ops t pl g = Some (g', Inr ())" and "at_tape lag u n rs g'"
    and "out_sequence g' = out_sequence g + 1"
  using assms
  by (force simp: send_def mk_frame_def on_transport_def tape_ops_def at_source_def on_tape_def tape_def prog_defs)

lemma trade_on_tape:
  assumes "at_tape lag u n (spaced qs (conversation u (offer_slot g) m party i n)) g" and "timely lag qs" and "link_connected g"
    and "refuse_mail m = Inr ()" and "length party = 6" and "i < 6" and "0 \<le> n" and "n + 7 \<le> 0xFFFFFFFF"
    and "0 \<le> out_sequence g" and "out_sequence g < 0xFFFFFFFF"
  shows "\<exists>g'. link_trade tape_ops tape_now m g = Some (g', Inr \<lparr>offered_mon = m, received_mon = party ! i,
    commit_confirmed = True, selected_slot = int i, link_closed = True\<rparr>)"
proof -
  obtain g0 where g0: "send tape_ops SET_OFFER_MON (of_int (offer_slot g) # raw m) g = Some (g0, Inr ())"
      "at_tape lag u n (spaced qs (conversation u (offer_slot g) m party i n)) g0"
    by (rule send_tape [OF assms(1,9,10), where t = SET_OFFER_MON and pl = "of_int (offer_slot g) # raw m"])
      (simp_all add: max_payload_def)
  show ?thesis
    using script_source.trade_heard [OF g0 assms(2-8)] by blast
qed

text \<open>A connected endpoint of transaction 7...7 that has heard nothing, and a partner's party.\<close>

definition demo_txid :: uuid where
  "demo_txid = Abs_uuid (replicate 16 7)"

definition demo_link :: "bytes list \<Rightarrow> script gb_link" where
  "demo_link rs = \<lparr>transport = tape rs 0 [], link_timeout = 3000, offer_slot = 3, decode_buffer = [],
     window = Map.empty, link_txid = demo_txid, out_sequence = 0, link_connected = True, heard = []\<rparr>"

definition demo_party :: "pokemon100 list" where
  "demo_party = map plain_mon [10, 11, 12, 13, 14, 15]"

definition demo_talk :: "frame list" where
  "demo_talk = conversation demo_txid 3 (plain_mon 1) demo_party 2 0"

lemma demo_link_simps [simp]:
  "at_tape 100 demo_txid 0 rs (demo_link rs)" "link_connected (demo_link rs)" "offer_slot (demo_link rs) = 3"
  "out_sequence (demo_link rs) = 0" "link_txid (demo_link rs) = demo_txid" "decode_buffer (demo_link rs) = []"
  "link_timeout (demo_link rs) = 3000" "window (demo_link rs) = Map.empty" "heard (demo_link rs) = []"
  by (auto simp: demo_link_def at_source_def on_tape_def patience_def)

lemma demo_party_simps [simp]: "length demo_party = 6" "demo_party ! 2 = plain_mon 12"
  by (simp_all add: demo_party_def)

lemma one_byte:
  assumes "length bs = Suc 0" and "\<not> 5 < bs ! 0"
  shows "\<exists>n. bs = [of_nat n] \<and> n \<le> 5 \<and> unat (bs ! 0 :: byte) = n"
proof -
  obtain b where b: "bs = [b]" using assms(1) by (cases bs) auto
  then have "unat b \<le> 5" using assms(2) by (simp add: word_le_nat_alt not_less)
  then show ?thesis using b by (intro exI [of _ "unat b"]) simp
qed

section \<open>The evidence for a trade\<close>

text \<open>
  The frames heard between \<open>g\<close> and \<open>g'\<close> hold the events of a trade of \<open>m\<close> that ends with
  \<open>res\<close>, in their order.
\<close>

definition evidenced :: "'t gb_link \<Rightarrow> pokemon100 \<Rightarrow> gba_trade_result \<Rightarrow> 't gb_link \<Rightarrow> bool" where
  "evidenced g m res g' \<longleftrightarrow> (\<exists>hs ready begun party slot mon com fin n. hears g hs g' \<and>
      subseq [ready, begun, party, slot, mon, com, fin] hs \<and>
      message_type ready = OFFER_READY \<and> payload ready = slot_and_hash (offer_slot g) m \<and>
      message_type begun = TRADE_SESSION_STARTED \<and>
      message_type party = PARTNER_PARTY \<and> length (payload party) = 600 \<and>
      message_type slot = PARTNER_SELECTED_SLOT \<and> payload slot = [of_nat n] \<and> n \<le> 5 \<and>
      message_type mon = PARTNER_SELECTED_MON \<and> payload mon = slice (n * 100) ((n + 1) * 100) (payload party) \<and>
      message_type com = TRADE_COMMITTED \<and> payload com = sha256_digest (raw m) @ sha256_digest (payload mon) \<and>
      message_type fin \<in> {TRADE_LINK_CLOSED, ERROR} \<and>
      raw (received_mon res) = payload mon \<and> offered_mon res = m \<and> commit_confirmed res \<and>
      selected_slot res = int n \<and>
      (link_closed res \<longleftrightarrow> message_type fin = TRADE_LINK_CLOSED \<and> payload fin = [0]))"

lemma trade_evidenced:
  assumes "link_trade ops now m g = Some (g', Inr res)"
  shows "link_connected g \<and> refuse_mail m = Inr () \<and> evidenced g m res g'"
proof -
  have "wp (link_trade ops now m) (\<lambda>res g'. link_connected g \<and> \<not> holds_mail m \<and> evidenced g m res g') (\<lambda>_ _. True) g"
    unfolding link_trade_def Let_def wp_andthen wp_gets wp_if wp_raise id_apply wp_lift wp_ret
    apply (simp, intro impI)
    apply (split sum.split, simp, intro impI)
    apply (rule wp_send [OF told_refl])
    apply (rule wp_wait_for, assumption, simp, intro impI)
    apply (rule wp_wait_for, assumption)
    apply (rule wp_wait_for, assumption, simp, intro impI)
    apply (rule wp_wait_for, assumption, simp, intro impI)
    apply (rule wp_wait_for, assumption)
    apply (split sum.split, simp, intro allI impI)
    apply (rule wp_wait_for, assumption, simp, intro impI)
    apply (rule wp_wait_for, assumption)
    subgoal premises prems for g2 ready g3 begun g4 party g5 slot g6 mon g7 sel com g8 fin g9
    proof -
      have "told g [ready, begun, party, slot, mon, com, fin] g9" using prems(23) by simp
      then obtain hs where hs: "hears g hs g9" "subseq [ready, begun, party, slot, mon, com, fin] hs"
        by (auto simp: told_def)
      obtain n where n: "payload slot = [of_nat n]" "n \<le> 5" "unat (payload slot ! 0) = n"
        using one_byte [of "payload slot"] prems(14) by blast
      have sel: "raw sel = payload mon" using prems(17) by (auto simp: mk_pokemon_Inr)
      have mon: "payload mon = slice (n * 100) ((n + 1) * 100) (payload party)"
        using prems(18) sel n(3) by (simp add: add.commute)
      have com: "payload com = sha256_digest (raw m) @ sha256_digest (payload mon)"
        using prems(18,21) sel by (simp add: add.commute)
      have u: "uint (of_nat n :: byte) = int n" using n(1,3) by (metis nth_Cons_0 uint_nat)
      have fin: "message_type fin \<in> {TRADE_LINK_CLOSED, ERROR}" using prems(24) by simp
      show ?thesis
        unfolding evidenced_def
        apply (rule exI [of _ hs], rule exI [of _ ready], rule exI [of _ begun], rule exI [of _ party],
            rule exI [of _ slot], rule exI [of _ mon], rule exI [of _ com], rule exI [of _ fin], rule exI [of _ n])
        using hs n u mon com fin sel prems(5,6,8,10,11,13,16,22)
        apply simp
        done
    qed
    done
  then show ?thesis using assms by (simp add: wp_def refuse_mail_def)
qed

lemma connect_capable:
  assumes "link_connect ops now g = Some (g', Inr ())"
  shows "link_connected g' \<and> (\<exists>hs cap. hears (g\<lparr>link_connected := True\<rparr>) hs g' \<and> subseq [cap] hs \<and>
    message_type cap = CAPABILITIES \<and> length (payload cap) = 4 \<and> (\<forall>i < 6. bit (le_nat (payload cap)) i))"
proof -
  have bits: "bit v i" if "and v 63 = 63" "i < 6" for v i :: nat
  proof -
    have "(63 :: nat) = mask 6" by (simp add: mask_eq_exp_minus_1)
    then have "bit (63 :: nat) i" using that(2) by (simp only: bit_mask_iff) simp
    then have "bit (and v 63) i" using that(1) by simp
    then show ?thesis by (simp add: bit_and_iff)
  qed
  define R where "R g' \<longleftrightarrow> link_connected g' \<and> (\<exists>hs cap. hears (g\<lparr>link_connected := True\<rparr>) hs g' \<and> subseq [cap] hs \<and>
    message_type cap = CAPABILITIES \<and>
    length (payload cap) = 4 \<and> (\<forall>i < 6. bit (le_nat (payload cap)) i))" for g' :: "'a gb_link"
  have "wp (link_connect ops now) (\<lambda>_. R) (\<lambda>_ _. True) g"
    unfolding link_connect_def Let_def wp_andthen wp_on_transport wp_modify wp_if wp_raise wp_ret
  proof (rule wp_any_error)
    fix t
    let ?g = "g\<lparr>transport := t, link_connected := True\<rparr>"
    show "wp (send ops HELLO (text_bytes ''frlg-trade-broker/0.1'')) (\<lambda>_. wp (send ops GET_CAPABILITIES [])
        (\<lambda>_. wp (wait_for ops now [CAPABILITIES]) (\<lambda>cap w. if length (payload cap) \<noteq> 4 then True
          else if and (le_nat (payload cap)) 63 \<noteq> 63 then True else R w) (\<lambda>_ _. True)) (\<lambda>_ _. True)) (\<lambda>_ _. True) ?g"
      apply (rule wp_send [OF told_refl], rule wp_send, assumption)
      apply (rule wp_wait_for, assumption)
      subgoal premises prems for g1 g2 cap g3
      proof -
        obtain hs where hs: "hears ?g hs g3" "subseq [cap] hs" using prems(3) by (auto simp: told_def)
        have told: "hears (g\<lparr>link_connected := True\<rparr>) hs g3" "link_connected g3"
          using hs(1) by (simp_all add: hears_def)
        show ?thesis
          using told hs(2) prems(4) bits unfolding R_def by auto
      qed
      done
  qed
  then show ?thesis using assms by (simp add: wp_def R_def)
qed

text \<open>
  An abort counts as safe only without a session or after a \<open>TRADE_ABORTED\<close> event of this transaction.
\<close>

lemma abort_evidenced:
  assumes "link_abort_if_safe ops now g = Some (g', Inr True)"
  shows "\<not> link_connected g \<and> g' = g \<or>
    (\<exists>hs f. hears g hs g' \<and> f \<in> set hs \<and> message_type f = TRADE_ABORTED \<and> transaction_id f = link_txid g)"
proof (cases "link_connected g")
  case False
  then show ?thesis using assms by (simp add: link_abort_if_safe_def prog_defs)
next
  case True
  let ?Q = "\<lambda>safe g'. safe \<longrightarrow> (\<exists>hs f. hears g hs g' \<and> f \<in> set hs \<and> message_type f = TRADE_ABORTED \<and>
    transaction_id f = link_txid g)"
  have "wp (link_abort_if_safe ops now) ?Q (\<lambda>_ _. True) g"
    unfolding link_abort_if_safe_def wp_andthen wp_gets wp_if wp_ret
    apply (simp add: True)
    apply (rule wp_send [OF told_refl], rule wp_wait_for, assumption)
    apply (auto simp: told_def hears_def subseq_singleton_left)
    done
  then show ?thesis using assms by (simp add: wp_def)
qed

section \<open>Properties\<close>

text \<open>
  C9. No trade without evidence. If \<open>trade_once\<close> returns, whatever the adapter sent: the endpoint was
  connected and the record is without Mail; and among the frames of this transaction, whose sequence
  numbers rose strictly, there were in this order one that acknowledged slot and hash of the offer,
  one that began the session, a party of six records, a slot, a record that is the one in that slot
  of the party, a commit with the hashes of the two records, and the close of the link. The result
  is read off them, and says that the link closed only if the close was reported with a zero.
\<close>

theorem link_evidence:
  assumes "link_trade ops now m g = Some (g', Inr res)"
  shows "link_connected g \<and> refuse_mail m = Inr () \<and>
    (\<exists>hs ready begun party slot mon com fin n. heard g' = heard g @ hs \<and>
      subseq [ready, begun, party, slot, mon, com, fin] hs \<and>
      (\<forall>f \<in> set hs. transaction_id f = link_txid g) \<and> sorted_wrt (<) (map sequence hs) \<and>
      message_type ready = OFFER_READY \<and> payload ready = slot_and_hash (offer_slot g) m \<and>
      message_type begun = TRADE_SESSION_STARTED \<and>
      message_type party = PARTNER_PARTY \<and> length (payload party) = 600 \<and>
      message_type slot = PARTNER_SELECTED_SLOT \<and> payload slot = [of_nat n] \<and> n \<le> 5 \<and>
      message_type mon = PARTNER_SELECTED_MON \<and> payload mon = slice (n * 100) ((n + 1) * 100) (payload party) \<and>
      message_type com = TRADE_COMMITTED \<and> payload com = sha256_digest (raw m) @ sha256_digest (payload mon) \<and>
      message_type fin \<in> {TRADE_LINK_CLOSED, ERROR} \<and>
      raw (received_mon res) = payload mon \<and> offered_mon res = m \<and> commit_confirmed res \<and>
      selected_slot res = int n \<and>
      (link_closed res \<longleftrightarrow> message_type fin = TRADE_LINK_CLOSED \<and> payload fin = [0]))"
proof -
  have ok: "link_connected g" "refuse_mail m = Inr ()" "evidenced g m res g'"
    using trade_evidenced [OF assms] by blast+
  have told: "heard g' = heard g @ hs \<and> (\<forall>f \<in> set hs. transaction_id f = link_txid g) \<and> sorted_wrt (<) (map sequence hs)"
    if "hears g hs g'" for hs
    using that heard_order(1) [OF that] by (simp add: hears_def)
  show ?thesis
    using ok told unfolding evidenced_def by (elim exE conjE) (intro exI conjI, assumption | blast)+
qed

lemma link_evidence_witness:
  "\<exists>g' res hs. link_trade tape_ops tape_now (plain_mon 1) (demo_link (spaced [2, 0, 5] demo_talk)) = Some (g', Inr res) \<and>
    heard g' = hs \<and> sorted_wrt (<) (map sequence hs) \<and> selected_slot res = 2"
proof -
  obtain g' where run: "link_trade tape_ops tape_now (plain_mon 1) (demo_link (spaced [2, 0, 5] demo_talk)) = Some (g', Inr
      \<lparr>offered_mon = plain_mon 1, received_mon = plain_mon 12, commit_confirmed = True, selected_slot = 2, link_closed = True\<rparr>)"
    using trade_on_tape [of 100 demo_txid 0 "[2, 0, 5]" "demo_link (spaced [2, 0, 5] demo_talk)" "plain_mon 1" demo_party 2]
    by (auto simp: demo_talk_def)
  show ?thesis using link_evidence [OF run] run by auto
qed

text \<open>
  C20. Events that arrive together are lost. When a read of the transport holds several whole frames
  and the first of them is the one waited for, the frames behind it are dropped: the state and the
  result are the same as if they had not been sent. So an adapter that sends two events close
  together, with a read that takes both (they have no more than the 512 bytes it asks for), makes the wait for the second time out, while the same
  events in two reads are both found.
\<close>

theorem coalesced_event_lost:
  assumes "link_txid g = u" and "decode_buffer g = []" and "0 < link_timeout g" and "window g u = None"
    and "wf_frame f1" and "wf_frame f2" and "transaction_id f1 = u" and "transaction_id f2 = u"
    and "sequence f1 < sequence f2" and "length (encode f1 @ encode f2) \<le> 512"
  shows "\<exists>g1 g2 h1 h2.
    wait_for tape_ops tape_now [message_type f1] (g\<lparr>transport := tape [encode f1 @ encode f2] k out\<rparr>) = Some (g1, Inr f1) \<and>
    wait_for tape_ops tape_now [message_type f2] g1 = Some (g2, Inl (timeout_error [message_type f2])) \<and>
    wait_for tape_ops tape_now [message_type f1] (g\<lparr>transport := tape [encode f1, encode f2] k out\<rparr>) = Some (h1, Inr f1) \<and>
    wait_for tape_ops tape_now [message_type f2] h1 = Some (h2, Inr f2)"
proof -
  let ?w = "(window g)(u \<mapsto> sequence f1)"
  let ?g1 = "\<lambda>rs. g\<lparr>transport := tape rs (k + 1) out, window := ?w, heard := heard g @ [f1]\<rparr>"
  have acc: "replay_accept (window g) f1 = Inr ?w" using assms(4,7) by (simp add: replay_accept_def)
  have acc2: "replay_accept ?w f2 = Inr (?w(u \<mapsto> sequence f2))" using assms(8,9) by (simp add: replay_accept_def Let_def)
  have one: "wait_for tape_ops tape_now [message_type f1] (g\<lparr>transport := tape [encode f1 @ encode f2] k out\<rparr>) =
      Some (?g1 [], Inr f1)"
    using wait_for_tape [where f = f1 and fs = "[f2]" and rs = "[]" and k = k and out = out and w = ?w
        and wanted = "[message_type f1]" and g = "g\<lparr>transport := tape [encode f1 @ encode f2] k out\<rparr>"] acc assms by simp
  have two: "wait_for tape_ops tape_now [message_type f1] (g\<lparr>transport := tape [encode f1, encode f2] k out\<rparr>) =
      Some (?g1 [encode f2], Inr f1)"
    using wait_for_tape [where f = f1 and fs = "[]" and rs = "[encode f2]" and k = k and out = out and w = ?w
        and wanted = "[message_type f1]" and g = "g\<lparr>transport := tape [encode f1, encode f2] k out\<rparr>"] acc assms by simp
  have "\<exists>h. wait_for tape_ops tape_now [message_type f2] (?g1 [encode f2]) = Some (h, Inr f2)"
    using wait_for_tape [where f = f2 and fs = "[]" and rs = "[]" and k = "k + 1" and out = out
        and w = "?w(u \<mapsto> sequence f2)" and wanted = "[message_type f2]" and g = "?g1 [encode f2]"] acc2 assms by simp
  moreover have "\<exists>h. wait_for tape_ops tape_now [message_type f2] (?g1 []) = Some (h, Inl (timeout_error [message_type f2]))"
    using wait_for_empty_tape [of "?g1 []" "k + 1" out "[message_type f2]"] by auto
  ultimately show ?thesis using one two by blast
qed

lemma coalesced_event_lost_witness:
  "\<exists>g1 g2. wait_for tape_ops tape_now [OFFER_READY] (demo_link
      [encode (event demo_txid OFFER_READY 1 []) @ encode (event demo_txid TRADE_SESSION_STARTED 2 [])]) =
        Some (g1, Inr (event demo_txid OFFER_READY 1 [])) \<and>
    wait_for tape_ops tape_now [TRADE_SESSION_STARTED] g1 = Some (g2, Inl (timeout_error [TRADE_SESSION_STARTED]))"
proof -
  have tape: "(demo_link [])\<lparr>transport := tape rs 0 []\<rparr> = demo_link rs" for rs
    by (simp add: demo_link_def)
  show ?thesis
    using coalesced_event_lost [of "demo_link []" demo_txid "event demo_txid OFFER_READY 1 []"
        "event demo_txid TRADE_SESSION_STARTED 2 []" 0 "[]"]
    by (auto simp: tape header_size_def crc_size_def)
qed

text \<open>
  C19. A trade is understood. Over any transport that hands over what the adapter sends as
  \<open>ByteTransport.read\<close> does (at most the bytes asked for, cut anywhere within an event but never with
  bytes of two events, with silence in between, each call taking at most a \<open>tick\<close>), if the adapter answers an offer with the seven events of a trade, each
  within the timeout, then \<open>trade_once\<close> returns the record that stood in the selected slot of the
  partner's party, committed and with the link closed, and has taken all seven events.
\<close>

theorem link_trade_understood:
  assumes "event_source ops now holds time tick"
    and "send ops SET_OFFER_MON (of_int (offer_slot g) # raw m) g = Some (g0, Inr ())"
    and "at_source holds (patience tick lag) u n (spaced qs (conversation u (offer_slot g) m party i n)) g0"
    and "timely lag qs" and "link_connected g"
    and "refuse_mail m = Inr ()" and "length party = 6" and "i < 6" and "0 \<le> n" and "n + 7 \<le> 0xFFFFFFFF"
  shows "\<exists>g'. link_trade ops now m g = Some (g', Inr \<lparr>offered_mon = m, received_mon = party ! i,
    commit_confirmed = True, selected_slot = int i, link_closed = True\<rparr>) \<and>
    at_source holds (patience tick lag) u (n + 7) [] g' \<and> same_session g0 g'"
  by (rule event_source.trade_heard [OF assms])

text \<open>The party of the example has 636 bytes as an event: its burst takes two reads.\<close>

lemma link_trade_understood_witness:
  "\<exists>g'. link_trade tape_ops tape_now (plain_mon 1) (demo_link (spaced [2, 0, 5] demo_talk)) = Some (g', Inr
    \<lparr>offered_mon = plain_mon 1, received_mon = plain_mon 12, commit_confirmed = True, selected_slot = 2, link_closed = True\<rparr>)"
proof -
  let ?g = "demo_link (spaced [2, 0, 5] demo_talk)"
  obtain g0 where g0: "send tape_ops SET_OFFER_MON (of_int (offer_slot ?g) # raw (plain_mon 1)) ?g = Some (g0, Inr ())"
      "at_tape 100 demo_txid 0 (spaced [2, 0, 5] demo_talk) g0"
    by (rule send_tape [of 100 demo_txid 0 "spaced [2, 0, 5] demo_talk" ?g "of_int (offer_slot ?g) # raw (plain_mon 1)" SET_OFFER_MON])
      (simp_all add: max_payload_def)
  show ?thesis
    using link_trade_understood [OF script_source.event_source_axioms g0(1), of 100 demo_txid 0 "[2, 0, 5]" demo_party 2] g0(2)
    by (auto simp: demo_talk_def)
qed

text \<open>
  C39. No session without the capabilities. If \<open>connect\<close> returns, the endpoint counts as connected and
  has heard, in its transaction, a \<open>CAPABILITIES\<close> event of four bytes in which all six capabilities
  the broker needs are set.
\<close>

theorem link_connect_capable:
  assumes "link_connect ops now g = Some (g', Inr ())"
  shows "link_connected g' \<and> (\<exists>hs cap. heard g' = heard g @ hs \<and> cap \<in> set hs \<and>
    (\<forall>f \<in> set hs. transaction_id f = link_txid g) \<and> message_type cap = CAPABILITIES \<and>
    length (payload cap) = 4 \<and> (\<forall>i < 6. bit (le_nat (payload cap)) i))"
  using connect_capable [OF assms] by (auto simp: hears_def subseq_singleton_left)

lemma link_connect_capable_witness:
  "\<exists>g'. link_connect tape_ops tape_now (demo_link [encode (event demo_txid CAPABILITIES 1 [63, 0, 0, 1])]) = Some (g', Inr ()) \<and>
    link_connected g'"
proof -
  let ?g = "demo_link [encode (event demo_txid CAPABILITIES 1 [63, 0, 0, 1])]"
  obtain g1 where g1: "send tape_ops HELLO (text_bytes ''frlg-trade-broker/0.1'') ?g = Some (g1, Inr ())"
      "at_tape 100 demo_txid 0 (spaced [] [event demo_txid CAPABILITIES 1 [63, 0, 0, 1]]) g1" "out_sequence g1 = 1"
    by (rule send_tape [of 100 demo_txid 0 "spaced [] [event demo_txid CAPABILITIES 1 [63, 0, 0, 1]]" ?g
          "text_bytes ''frlg-trade-broker/0.1''" HELLO]) (simp_all add: text_bytes_def max_payload_def silence_def)
  obtain g2 where g2: "send tape_ops GET_CAPABILITIES [] g1 = Some (g2, Inr ())"
      "at_tape 100 demo_txid 0 (spaced [] [event demo_txid CAPABILITIES 1 [63, 0, 0, 1]]) g2"
    by (rule send_tape [OF g1(2), of "[]" GET_CAPABILITIES]) (simp_all add: g1(3))
  have opened: "on_transport (transport_open tape_ops) ?g = Some (?g, Inr ())" "?g\<lparr>link_connected := True\<rparr> = ?g"
    by (simp_all add: on_transport_def tape_ops_def demo_link_def prog_defs)
  obtain g3 where "link_connect tape_ops tape_now ?g = Some (g3, Inr ())"
    by (rule script_source.session_opens [OF opened(1) _ g2], subst opened(2))
      (use g1(1) in simp_all)
  then show ?thesis using link_connect_capable by blast
qed

end
