(* ===== verification/Link_Returns.thy ===== *)
theory Link_Returns
  imports Gb_Link_Spec
begin

text \<open>
  The GB-Link endpoint comes back. The locale \<open>prompt_transport\<close> says what its waits need of a transport
  and a clock: every operation comes back, and a read with time to wait makes progress, which is
  that the clock advances or that fewer bytes are pending. The serial transport is one over every
  port whose clock advances.
\<close>

section \<open>Transports that make progress\<close>

locale prompt_transport =
  fixes ops :: "'t byte_transport"
    and now :: "('t, int) prog"
    and clock :: "'t \<Rightarrow> int"
    and pending :: "'t \<Rightarrow> nat"
  assumes now: "wpr True now (\<lambda>n t'. n = clock t' \<and>
      (clock t < clock t' \<or> clock t = clock t' \<and> pending t' \<le> pending t)) (\<lambda>_ _. True) t"
    and read: "0 < amount \<Longrightarrow> wpr True (transport_read ops amount w)
      (\<lambda>_ t'. clock t \<le> clock t' \<and> (0 < w \<longrightarrow> clock t < clock t' \<or> pending t' < pending t)) (\<lambda>_ _. True) t"
    and open_returns: "returns (transport_open ops) t"
    and write_returns: "returns (transport_write ops bs) t"
    and close_returns: "returns (transport_close ops) t"

lemma wpr_on_transport:
  "wpr t (on_transport m) Q E g \<longleftrightarrow>
    wpr t m (\<lambda>a x. Q a (g\<lparr>transport := x\<rparr>)) (\<lambda>e x. E e (g\<lparr>transport := x\<rparr>)) (transport g)"
  by (simp add: on_transport_def wpr_simps)

lemma returns_on_transport [simp]: "returns (on_transport m) g = returns m (transport g)"
  by (auto simp: on_transport_def returns_def zoom_def split: option.split)

text \<open>Feeding and scanning come back and do not touch the transport.\<close>

lemma wpr_feed_link: "wpr True (feed_link data) (\<lambda>_ g'. transport g' = transport g) (\<lambda>_ _. True) g"
  by (auto simp: wpr_def feed_link_def split: prod.split sum.split)

lemma wpr_scan: "wpr True (scan wanted fs) (\<lambda>_ g'. transport g' = transport g) (\<lambda>_ _. True) g"
proof (induction fs arbitrary: g)
  case (Cons f fs)
  have "wpr True (scan wanted fs) (\<lambda>_ g'. transport g' = transport g) (\<lambda>_ _. True)
      (g\<lparr>window := w, heard := hs\<rparr>)" for w hs
    using Cons [of "g\<lparr>window := w, heard := hs\<rparr>"] by simp
  then show ?case by (simp add: accept_link_def wpr_simps split: sum.split)
qed (simp add: wpr_simps)

context prompt_transport
begin

definition progress :: "int \<Rightarrow> ('t gb_link \<times> 't gb_link) set" where
  "progress deadline = inv_image (less_than <*lex*> less_than)
     (\<lambda>g. (nat (deadline - clock (transport g)), pending (transport g)))"

lemma wpr_wait_turn:
  "wpr True (wait_turn ops now wanted deadline)
    (\<lambda>_ g'. clock (transport g) < deadline \<longrightarrow> (g', g) \<in> progress deadline) (\<lambda>_ _. True) g"
  unfolding wait_turn_def wpr_andthen wpr_on_transport wpr_if wpr_ret
proof (rule wpr_mono [OF now], goal_cases)
  case (1 n t)
  let ?w = "min (milliseconds 250) (max 0 (deadline - n))"
  have moved: "(g', g) \<in> progress deadline"
    if "clock (transport g) < deadline" "clock t \<le> clock t'"
      "0 < ?w \<longrightarrow> clock t < clock t' \<or> pending t' < pending t" "transport g' = t'" for t' g'
  proof (cases "deadline \<le> n")
    case False
    then have "0 < ?w" by (simp add: milliseconds_def)
    then show ?thesis using that 1 False by (auto simp: progress_def)
  qed (use that 1 in \<open>auto simp: progress_def\<close>)
  have "wpr True (transport_read ops 512 ?w)
      (\<lambda>_ t'. clock t \<le> clock t' \<and> (0 < ?w \<longrightarrow> clock t < clock t' \<or> pending t' < pending t)) (\<lambda>_ _. True) t"
    by (rule read) simp
  then show ?case
    by (simp, elim wpr_mono)
      (auto intro!: moved wpr_mono [OF wpr_feed_link] wpr_mono [OF wpr_scan])
qed simp

lemma returns_wait_for: "returns (wait_for ops now wanted) g"
proof -
  have turn: "wpr True (andthen (on_transport now) (\<lambda>t. ret (t < deadline)))
      (\<lambda>go g1. go \<longrightarrow> wpr True (wait_turn ops now wanted deadline)
        (\<lambda>r g2. r = None \<longrightarrow> True \<and> (g2, g) \<in> progress deadline) (\<lambda>_ _. True) g1) (\<lambda>_ _. True) g"
    for g deadline
    unfolding wpr_andthen wpr_on_transport
  proof (rule wpr_mono [OF now], goal_cases)
    case (1 n t)
    show ?case
      unfolding wpr_ret
    proof (intro impI, rule wpr_mono [OF wpr_wait_turn], goal_cases)
      case (1 r g2)
      then show ?case using \<open>n = clock t \<and> _\<close> by (auto simp: progress_def)
    qed simp
  qed simp
  have "wf (progress deadline)" for deadline
    unfolding progress_def by (intro wf_inv_image wf_lex_prod wf_less_than)
  then have loop: "returns (loop (andthen (on_transport now) (\<lambda>t. ret (t < deadline)))
      (wait_turn ops now wanted deadline)) g" for g deadline
    by (rule loop_returns_wf [where I = "\<lambda>_. True", OF _ turn TrueI])
  have "returns now t" for t using now [of t] by (simp add: wpr_wp)
  then show ?thesis
    by (auto simp: wait_for_def Let_def loop intro!: returns_andthen split: option.split)
qed

lemma returns_send: "returns (send ops t pl) g"
  by (auto simp: send_def write_returns intro!: returns_andthen)

lemma endpoint_returns:
  "returns (link_connect ops now) g" "returns (link_trade ops now m) g" "returns (link_close ops) g"
  "returns (link_abort_if_safe ops now) g"
  by (auto simp: link_connect_def link_trade_def link_close_def link_abort_if_safe_def Let_def open_returns
      close_returns returns_send returns_wait_for intro!: returns_andthen)

end

interpretation taped: prompt_transport tape_ops tape_now ticks "\<lambda>_. 0"
  by unfold_locales (auto simp: tape_ops_def tape_now_def script_read_def wpr_simps wpr_def prog_defs returns_def split: prod.splits)

section \<open>The serial transport\<close>

text \<open>A port all of whose operations come back.\<close>

definition steady :: "'p serial_port \<Rightarrow> bool" where
  "steady sp \<longleftrightarrow> (\<forall>p. returns (port_import sp) p \<and> (\<forall>d b. returns (port_open sp d b) p) \<and>
     (\<forall>bs. returns (port_write sp bs) p) \<and> returns (port_flush sp) p \<and> returns (port_close sp) p)"

lemma returns_on_port [simp]: "returns (on_port m) s = returns m (port s)"
  by (auto simp: on_port_def returns_def zoom_def split: option.split)

lemma steady_returns:
  assumes "steady sp"
  shows "returns (write_outer sp channel pl) s" "returns (serial_open sp) s" "returns (serial_write sp bs) s"
    "returns (serial_close sp) s"
proof -
  show w: "returns (write_outer sp channel pl) s" for channel pl s
    using assms by (auto simp: write_outer_def need_port_def steady_def Let_def intro!: returns_andthen)
  show "returns (serial_open sp) s"
    using assms by (auto simp: serial_open_def steady_def w intro!: returns_andthen returns_try_except)
  show "returns (serial_write sp bs) s"
    by (auto simp: serial_write_def need_port_def w intro!: returns_andthen returns_each)
  show "returns (serial_close sp) s"
    using assms by (auto simp: serial_close_def steady_def intro!: returns_andthen returns_run_if)
qed

lemma serial_prompt:
  assumes "ticking sp clock" and "steady sp"
  shows "prompt_transport (serial_transport_ops sp) (on_port (port_now sp)) (\<lambda>s. clock (port s))
    (\<lambda>s. length (data_buffer s))"
proof (unfold_locales, goal_cases)
  case (1 s)
  show ?case
    unfolding Serial.wpr_on_port by (rule wpr_mono [OF ticking_now [OF assms(1)]]) auto
next
  case (2 amount w s)
  show ?case
    unfolding serial_transport_ops_def byte_transport.simps
    by (rule wpr_mono [OF wpr_serial_read [OF assms(1) 2, of w s]]) auto
qed (simp_all add: serial_transport_ops_def steady_returns [OF assms(2)])

lemma script_steady [simp]: "steady script_port"
  by (simp add: steady_def script_port_def returns_def prog_defs)

interpretation script_serial: prompt_transport "serial_transport_ops script_port" "on_port (port_now script_port)"
    "\<lambda>s. ticks (port s)" "\<lambda>s. length (data_buffer s)"
  by (rule serial_prompt) simp_all

end
