(* ===== verification/Cli.thy ===== *)
theory Cli
  imports Exchange_Spec Link_Returns
begin

text \<open>
  The command line, \<open>broker/main.py\<close>, and the loader of the Switch driver,
  \<open>broker/switch/trade_adapter.py\<close>. The state is the operating system, the lines printed, what a
  Python import works on and the serial port; the parsed arguments are a record, as \<open>argparse\<close> yields
  them. What an import does, the driver it yields and the \<open>serial\<close> package are arguments.
\<close>

record cli_args =
  arg_journal :: "string list"
  arg_status :: bool
  arg_mock_demo :: bool
  arg_placeholder :: "string list option"
  arg_gba :: "string option"
  arg_switch_checkout :: "string option"
  arg_phy :: string
  arg_keys :: "string option"
  arg_json_logs :: bool

text \<open>The defaults of \<open>build_parser\<close>.\<close>

definition cli_defaults :: cli_args where
  "cli_defaults = \<lparr>arg_journal = [''journal.json''], arg_status = False, arg_mock_demo = False,
     arg_placeholder = None, arg_gba = None, arg_switch_checkout = None, arg_phy = ''phy0'',
     arg_keys = None, arg_json_logs = False\<rparr>"

record ('e, 'p) shell =
  files :: os
  stdout :: "string list"
  stderr :: "string list"
  env :: 'e
  ports :: 'p

definition print_out :: "string \<Rightarrow> (('e, 'p) shell, unit) prog" where
  "print_out s = modify (\<lambda>sh. sh\<lparr>stdout := stdout sh @ [s]\<rparr>)"

definition print_err :: "string \<Rightarrow> (('e, 'p) shell, unit) prog" where
  "print_err s = modify (\<lambda>sh. sh\<lparr>stderr := stderr sh @ [s]\<rparr>)"

definition on_files :: "(os, 'a) prog \<Rightarrow> (('e, 'p) shell, 'a) prog" where
  "on_files m = zoom files (\<lambda>w sh. sh\<lparr>files := w\<rparr>) m"

definition on_env :: "('e, 'a) prog \<Rightarrow> (('e, 'p) shell, 'a) prog" where
  "on_env m = zoom env (\<lambda>e sh. sh\<lparr>env := e\<rparr>) m"

text \<open>\<open>JsonFormatter.format\<close> of level, logger and message.\<close>

definition json_line :: "string \<Rightarrow> string \<Rightarrow> string \<Rightarrow> string" where
  "json_line level logger msg =
     ''{'' @ json_string ''level'' @ '': '' @ json_string level @ '', '' @
     json_string ''logger'' @ '': '' @ json_string logger @ '', '' @
     json_string ''message'' @ '': '' @ json_string msg @ ''}''"

text \<open>The formatter that \<open>_configure_logging\<close> picks.\<close>

definition log_line :: "bool \<Rightarrow> string \<Rightarrow> string \<Rightarrow> string \<Rightarrow> string" where
  "log_line json_logs level logger msg = (if json_logs then json_line level logger msg else level @ '' '' @ msg)"

text \<open>A line of the JSON log, whatever the message holds, is an object with the three texts.\<close>

lemma json_line_loads:
  "json_loads (json_line level logger msg) = Some (JObj [(''level'', JStr level), (''logger'', JStr logger),
    (''message'', JStr msg)])"
  using loads_text_members [of "[(''level'', level), (''logger'', logger), (''message'', msg)]"]
  by (simp add: json_line_def)

definition demo_mon :: "string \<Rightarrow> exn + pokemon100" where
  "demo_mon label = (
     if length label \<noteq> 1 then Inl (Exn ValueError ''demo label must be one character'')
     else mk_pokemon ((replicate 100 0)[8 := of_char (hd label)]))"

section \<open>The driver of a checkout\<close>

text \<open>
  What \<open>load_external_session\<close> asks of Python: the path of the module file, whether it is a file and
  can be loaded, executing it, and its \<open>create_driver\<close>, if it exports one.
\<close>

record ('e, 'd) module_import =
  module_path :: "string \<Rightarrow> string"
  module_is_file :: "string \<Rightarrow> bool"
  module_has_loader :: "string \<Rightarrow> bool"
  exec_module :: "string \<Rightarrow> ('e, unit) prog"
  create_driver :: "'e \<Rightarrow> ((string \<times> string) list \<Rightarrow> ('e, 'd) prog) option"

definition load_external_session ::
    "('e, 'd) module_import \<Rightarrow> string \<Rightarrow> (string \<times> string) list \<Rightarrow> ('e, 'd session) prog" where
  "load_external_session imp checkout options = (
     let path = module_path imp checkout in
     if \<not> module_is_file imp path then
       raise (Exn EndpointError (path @ '' is missing; apply the reviewed broker-session integration to the '' @
         ''pinned frlg-ldn-trade-gba-bridge checkout. The legacy CLI cannot safely pause '' @
         ''between two trades in one session.''))
     else if \<not> module_has_loader imp path then
       raise (Exn EndpointError (''cannot load Switch driver module '' @ path))
     else
       andthen (exec_module imp path) (\<lambda>_.
       andthen (gets (create_driver imp)) (\<lambda>factory.
       case factory of
         None \<Rightarrow> raise (Exn EndpointError ''frlg_broker_driver.py must export create_driver(**options)'')
       | Some new_driver \<Rightarrow> andthen (new_driver options) (\<lambda>d. ret (session_init d)))))"

section \<open>The commands\<close>

definition show_status :: "string list \<Rightarrow> (('e, 'p) shell, int) prog" where
  "show_status path =
     andthen (on_files (store_exists path)) (\<lambda>there.
     if \<not> there then andthen (print_out ''No transaction journal exists.'') (\<lambda>_. ret 0)
     else
       andthen (on_files (load path)) (\<lambda>r.
       andthen (print_out (json_dumps (as_json_dict r))) (\<lambda>_.
       ret (if jstate r = ''RECOVERY_REQUIRED'' then 2 else 0))))"

text \<open>
  \<open>TradeCoordinator(journal=store, gba=gba, switch=switch).execute(placeholder)\<close>, with the endpoints as it
  leaves them.
\<close>

definition trade ::
    "string list \<Rightarrow> 's switch_endpoint \<Rightarrow> 'g gba_endpoint \<Rightarrow> pokemon100 \<Rightarrow> 's \<Rightarrow> 'g \<Rightarrow>
     (('e, 'p) shell, transaction_outcome \<times> 's \<times> 'g) prog" where
  "trade path sw gb placeholder s g = (\<lambda>sh.
     case execute path sw gb no_fault placeholder (start s g (files sh)) of
       None \<Rightarrow> None
     | Some (c, Inl e) \<Rightarrow> Some (sh\<lparr>files := system c\<rparr>, Inl e)
     | Some (c, Inr out) \<Rightarrow> Some (sh\<lparr>files := system c\<rparr>, Inr (out, switch c, gba c)))"

definition assert_that :: "bool \<Rightarrow> ('w, unit) prog" where
  "assert_that b = (if b then ret () else raise (Exn AssertionError ''''))"

definition run_mock :: "string list \<Rightarrow> (('e, 'p) shell, int) prog" where
  "run_mock path =
     andthen (lift (demo_mon ''A'')) (\<lambda>a_mon.
     andthen (lift (demo_mon ''B'')) (\<lambda>b_mon.
     andthen (lift (demo_mon ''P'')) (\<lambda>placeholder.
     andthen (print_out ''FRLG GBA <-> Switch Trade Broker (mock demo)'') (\<lambda>_.
     andthen (trade path mock_switch_endpoint mock_gba_endpoint placeholder
       (mock_switch_init b_mon None None) (mock_gba_init a_mon 2 True True False)) (\<lambda>(out, s, g).
     andthen (assert_that (gba_owned g = b_mon)) (\<lambda>_.
     andthen (assert_that (switch_owned s = a_mon)) (\<lambda>_.
     andthen (assert_that (broker_mon out = placeholder)) (\<lambda>_.
     andthen (print_out (''GBA=B      '' @ sha256 (gba_owned g))) (\<lambda>_.
     andthen (print_out (''Switch=A   '' @ sha256 (switch_owned s))) (\<lambda>_.
     andthen (print_out (''Broker=P   '' @ sha256 (broker_mon out))) (\<lambda>_.
     andthen (print_out (''Trade COMPLETE. transaction='' @ outcome_id out)) (\<lambda>_.
     ret 0))))))))))))"

definition missing_args :: "cli_args \<Rightarrow> string list" where
  "missing_args args = map fst (filter snd [
     (''--placeholder'', arg_placeholder args = None),
     (''--gba'', arg_gba args = None),
     (''--switch-checkout'', arg_switch_checkout args = None),
     (''--keys'', arg_keys args = None)])"

definition load_pokemon :: "string list \<Rightarrow> (os, pokemon100) prog" where
  "load_pokemon path = andthen (read_bytes (Path path)) (\<lambda>bs. lift (mk_pokemon bs))"

definition run_real ::
    "('e, 'd) module_import \<Rightarrow> 'd switch_driver \<Rightarrow> 'p serial_port \<Rightarrow> cli_args \<Rightarrow> (('e, 'p) shell, int) prog" where
  "run_real imp drv sp args = (
     if missing_args args \<noteq> [] then
       raise (Exn BrokerError (''real mode requires: '' @ join '', '' (missing_args args)))
     else
       andthen (on_files (load_pokemon (the (arg_placeholder args)))) (\<lambda>placeholder.
       andthen (lift (refuse_mail placeholder)) (\<lambda>_.
       andthen (gets ports) (\<lambda>p.
       andthen (on_files uuid4) (\<lambda>txid.
       andthen (lift (gb_link_init (serial_init p (the (arg_gba args)) 115200) (milliseconds 120000) 0 txid)) (\<lambda>g.
       andthen (on_env (load_external_session imp (the (arg_switch_checkout args))
         [(''phy'', arg_phy args), (''keys_path'', the (arg_keys args))])) (\<lambda>s.
       andthen (trade (arg_journal args) (session_endpoint drv)
         (gb_link_endpoint (serial_transport_ops sp) (on_port (port_now sp))) placeholder s g) (\<lambda>(out, _, _).
       andthen (print_out (''Trade COMPLETE. transaction='' @ outcome_id out)) (\<lambda>_.
       ret 0)))))))))"

definition main ::
    "('e, 'd) module_import \<Rightarrow> 'd switch_driver \<Rightarrow> 'p serial_port \<Rightarrow> cli_args \<Rightarrow> (('e, 'p) shell, int) prog" where
  "main imp drv sp args =
     try_except BaseException
       (if arg_status args then show_status (arg_journal args)
        else if arg_mock_demo args then run_mock (arg_journal args)
        else run_real imp drv sp args)
       (\<lambda>exc.
         if isinstance exc RecoveryRequired then
           andthen (print_err (''RECOVERY_REQUIRED: '' @ message exc)) (\<lambda>_. ret 2)
         else if isinstance exc BrokerError then
           andthen (print_err (''ERROR: '' @ message exc)) (\<lambda>_. ret 1)
         else raise exc)"

end
