(* ===== verification/Cli_Spec.thy ===== *)
theory Cli_Spec
  imports Cli
begin

text \<open>
  What the exit code and the commands promise: zero only for a completed transaction, a status command
  that changes no file, the mock demo as a whole, and that the whole stack over a serial port comes
  back.
\<close>

section \<open>Trades\<close>

definition completed_journal :: "string list \<Rightarrow> os \<Rightarrow> bool" where
  "completed_journal path w \<longleftrightarrow> (\<exists>r. durable w path (journal_bytes r) \<and> wf_record r \<and>
     map entry_state (history r) = map state_value forward \<and>
     map_of (locations r) = [''A'' \<mapsto> ''switch'', ''B'' \<mapsto> ''gba'', ''P'' \<mapsto> ''broker''])"

lemma wp_trade:
  assumes "wf_os (files sh)"
  shows "wp (trade path sw gb p s g) (\<lambda>_ sh'. names (files sh) (Path path) = None \<and> completed_journal path (files sh') \<and>
    (\<exists>w. sh' = sh\<lparr>files := w\<rparr>)) (\<lambda>_ _. True) sh"
proof (cases "execute path sw gb no_fault p (start s g (files sh))")
  case (Some r)
  obtain c res where run: "execute path sw gb no_fault p (start s g (files sh)) = Some (c, res)"
    using Some by (cases r) auto
  show ?thesis
  proof (cases res)
    case (Inr out)
    have "any.completed path (fault (files sh)) p undefined undefined out (start s g (files sh)) c"
      using execute_any [OF _ _ run] assms Inr by simp
    from any.completed_facts [OF this] show ?thesis
      using run Inr unfolding wp_def trade_def completed_journal_def by auto
  qed (use run in \<open>simp add: wp_def trade_def\<close>)
qed (simp add: wp_def trade_def)

lemma wp_on_files [wp_simps]:
  "wp (on_files m) Q E sh \<longleftrightarrow> wp m (\<lambda>a w. Q a (sh\<lparr>files := w\<rparr>)) (\<lambda>e w. E e (sh\<lparr>files := w\<rparr>)) (files sh)"
  by (simp add: on_files_def wp_simps)

lemma wp_print [wp_simps]:
  "wp (print_out s) Q E sh \<longleftrightarrow> Q () (sh\<lparr>stdout := stdout sh @ [s]\<rparr>)"
  "wp (print_err s) Q E sh \<longleftrightarrow> Q () (sh\<lparr>stderr := stderr sh @ [s]\<rparr>)"
  by (simp_all add: print_out_def print_err_def wp_simps)

lemma wp_assert [wp_simps]: "wp (assert_that b) Q E sh \<longleftrightarrow> (if b then Q () sh else E (Exn AssertionError '''') sh)"
  by (simp add: assert_that_def wp_simps)

lemma wp_run_mock:
  assumes "wf_os (files sh)"
  shows "wp (run_mock path) (\<lambda>n sh'. n = 0 \<and> names (files sh) (Path path) = None \<and> completed_journal path (files sh'))
    (\<lambda>_ _. True) sh"
proof -
  have t: "wp (trade path mock_switch_endpoint mock_gba_endpoint p s g)
      (\<lambda>_ sh'. names (files sh) (Path path) = None \<and> completed_journal path (files sh')) (\<lambda>_ _. True)
      (sh\<lparr>stdout := ls\<rparr>)" for p s g ls
    by (rule wp_mono [OF wp_trade]) (use assms in auto)
  show ?thesis
    unfolding run_mock_def wp_andthen wp_lift
    by (auto simp: wp_simps split: sum.split prod.split intro!: wp_mono [OF t])
qed

lemma wp_read_calls:
  assumes "\<And>b n. Q b (w\<lparr>calls := n\<rparr>)" and "\<And>e n. E e (w\<lparr>calls := n\<rparr>)"
  shows "wp (read_bytes p) Q E w"
  unfolding read_bytes_def wp_andthen
  by (rule wp_sys_id) (use assms in \<open>auto simp: wp_simps split: option.split\<close>)

lemma wp_on_env: "(\<And>a e. Q a (sh\<lparr>env := e\<rparr>)) \<Longrightarrow> wp (on_env m) Q (\<lambda>_ _. True) sh"
  unfolding on_env_def wp_zoom by (rule wp_any_error) assumption

lemma wp_run_real:
  assumes "wf_os (files sh)"
  shows "wp (run_real imp drv sp args) (\<lambda>n sh'. n = 0 \<and> names (files sh) (Path (arg_journal args)) = None \<and>
    completed_journal (arg_journal args) (files sh')) (\<lambda>_ _. True) sh"
proof -
  let ?path = "arg_journal args"
  have trading: "wp (trade ?path sw gb p s g) (\<lambda>a. wp (case a of (out, x, y) \<Rightarrow> andthen (print_out (f out)) (\<lambda>_. ret (0 :: int)))
      (\<lambda>n sh'. n = 0 \<and> names (files sh) (Path ?path) = None \<and> completed_journal ?path (files sh')) (\<lambda>_ _. True))
      (\<lambda>_ _. True) sh1" if "files sh1 = (files sh)\<lparr>calls := n\<rparr>" for sw gb p s g n f sh1
    by (rule wp_mono [OF wp_trade]) (use that assms in \<open>auto simp: wp_simps split: prod.split\<close>)
  show ?thesis
    unfolding run_real_def load_pokemon_def wp_if wp_raise wp_andthen wp_on_files
  proof (split if_split, intro conjI impI TrueI, rule wp_read_calls, goal_cases)
    case (1 b n)
    show ?case
      unfolding wp_lift wp_gets
      apply (split sum.split, intro conjI allI impI TrueI)+
      apply (simp only: wp_on_files wp_uuid4)
      apply (split sum.split, intro conjI allI impI TrueI)
      apply (rule wp_on_env)
      apply (rule trading, simp)
      done
  qed simp
qed

section \<open>The mock demo\<close>

lemma demo_mon_plain: "demo_mon [c] = Inr (Abs_pokemon100 ((replicate 100 0)[8 := of_char c]))"
  by (simp add: demo_mon_def mk_pokemon_def party_record_size_def)

lemma demo_mon_mail [simp]: "\<not> holds_mail (Abs_pokemon100 ((replicate 100 0)[8 := b]))"
proof -
  let ?p = "Abs_pokemon100 ((replicate 100 0)[8 := b])"
  have raw: "raw ?p = (replicate 100 0)[8 := b]" by simp
  have early: "slice i j (raw ?p) = replicate (j - i) 0" if "j \<le> 8" "i \<le> j" for i j
    using that unfolding raw slice_def by (simp add: drop_update_swap take_update_cancel min_def)
  have late: "slice 32 80 (raw ?p) = replicate 48 0"
    unfolding raw slice_def by (simp add: drop_update_cancel)
  have "decrypted_secure ?p = replicate 48 0"
    using xor_words_zero [of "replicate 48 0" 12] early [of 4 0] early [of 8 4] late
    by (simp add: decrypted_secure_def personality_def trainer_id_def pokemon_consts)
  moreover have "slice (i + 2) (i + 4) (replicate 48 (0::byte)) = replicate (min 2 (46 - i)) 0" for i
    by (simp add: slice_def min_def)
  ultimately have "held_item ?p = 0" by (simp add: held_item_def Let_def)
  then show ?thesis by (simp add: holds_mail_def pokemon_consts)
qed

lemma status_run:
  assumes "arg_status args" and "\<forall>n. fault (files sh) n = None" and "wf_record r" and "utf8_record r"
    and "contents (files sh) (Path (arg_journal args)) = Some (journal_bytes r)"
  shows "\<exists>sh'. main imp drv sp args sh = Some (sh', Inr (if jstate r = state_value RECOVERY_REQUIRED then 2 else 0)) \<and>
    stdout sh' = stdout sh @ [json_dumps (as_json_dict (sorted_dicts r))]"
proof -
  let ?path = "arg_journal args" and ?w = "(files sh)\<lparr>calls := Suc (calls (files sh))\<rparr>"
  have quiet: "quiet (files sh)" "quiet ?w" using assms(2) by auto
  have there: "names (files sh) (Path ?path) \<noteq> None" using assms(5) by (auto simp: contents_def)
  have ex: "store_exists ?path (files sh) = Some (?w, Inr True)"
    using store_exists_quiet [OF quiet(1)] there by simp
  have ld: "load ?path ?w = Some (?w\<lparr>calls := Suc (calls ?w)\<rparr>, Inr (sorted_dicts r))"
    by (rule load_quiet [OF quiet(2)])
      (use assms(5) in simp, rule parse_journal_bytes [OF wf_record_readable [OF assms(3)] assms(4)])
  have st: "jstate (sorted_dicts r) = jstate r" by (simp add: sorted_dicts_def)
  have name: "state_value RECOVERY_REQUIRED = ''RECOVERY_REQUIRED''" by (simp add: state_value.simps)
  show ?thesis
    using ex ld st assms(1)
    by (simp add: name main_def show_status_def on_files_def print_out_def prog_defs)
qed

lemma mock_demo_run:
  assumes "\<not> arg_status args" and "arg_mock_demo args" and "wf_os (files sh)" and "\<forall>n. fault (files sh) n = None"
    and "names (files sh) (Path (arg_journal args)) = None"
  shows "\<exists>sh'. main imp drv sp args sh = Some (sh', Inr 0) \<and> length (stdout sh') = length (stdout sh) + 5 \<and>
    completed_journal (arg_journal args) (files sh') \<and> stderr sh' = stderr sh"
proof -
  let ?m = "\<lambda>c. Abs_pokemon100 ((replicate 100 0)[8 := of_char c])"
  let ?a = "?m CHR ''A''" and ?b = "?m CHR ''B''" and ?p = "?m CHR ''P''" and ?path = "arg_journal args"
  let ?s = "mock_switch_init ?b None None" and ?g = "mock_gba_init ?a 2 True True False"
  have quiet: "fault (files sh) = (\<lambda>_. None)" using assms(4) by auto
  obtain c out where run: "execute ?path mock_switch_endpoint mock_gba_endpoint no_fault ?p (start ?s ?g (files sh)) =
      Some (c, Inr out)"
    and c: "mocked.completed ?path (\<lambda>_. None) ?p ?b ?a out (start ?s ?g (files sh)) c"
    using mocked.honest_run [of "start ?s ?g (files sh)" "\<lambda>_. None" ?path ?b ?a ?p] assms(3,5) quiet
    by (auto simp: refuse_mail_def)
  have own: "gba_owned (gba c) = ?b" "switch_owned (switch c) = ?a" "broker_mon out = ?p"
    using mocked.completed_facts [OF c] by (auto simp: honest_switch_def honest_gba_def)
  have journal: "completed_journal ?path (system c)"
    using mocked.completed_facts [OF c] unfolding completed_journal_def by auto
  have traded: "trade ?path mock_switch_endpoint mock_gba_endpoint ?p ?s ?g (sh\<lparr>stdout := ls\<rparr>) =
      Some (sh\<lparr>stdout := ls, files := system c\<rparr>, Inr (out, switch c, gba c))" for ls
    using run by (simp add: trade_def)
  show ?thesis
    using assms(1,2) own journal
    by (simp add: main_def run_mock_def demo_mon_plain traded [simplified] prog_defs print_out_def assert_that_def)
qed

text \<open>Examples: a shell over a system, the arguments, and an import that finds nothing.\<close>

definition demo_shell :: "os \<Rightarrow> (unit, script) shell" where
  "demo_shell w = \<lparr>files = w, stdout = [], stderr = [], env = (), ports = \<lparr>reads = [], ticks = 0, sent = []\<rparr>\<rparr>"

definition demo_import :: "(unit, partner) module_import" where
  "demo_import = \<lparr>module_path = id, module_is_file = (\<lambda>_. False), module_has_loader = (\<lambda>_. False),
     exec_module = (\<lambda>_. ret ()), create_driver = (\<lambda>_. None)\<rparr>"

lemma demo_shell_simps [simp]: "files (demo_shell w) = w" "stdout (demo_shell w) = []" "stderr (demo_shell w) = []"
  by (simp_all add: demo_shell_def)

lemma cli_defaults_simps [simp]:
  "arg_status cli_defaults = False" "arg_mock_demo cli_defaults = False" "arg_journal cli_defaults = [''journal.json'']"
  "arg_placeholder cli_defaults = None"
  by (simp_all add: cli_defaults_def)

text \<open>Without one of its four arguments real mode prints an error and returns 1, and nothing else happens.\<close>

lemma real_mode_arguments:
  assumes "\<not> arg_status args" and "\<not> arg_mock_demo args"
    and "arg_placeholder args = None \<or> arg_gba args = None \<or> arg_switch_checkout args = None \<or> arg_keys args = None"
  shows "\<exists>msg. main imp drv sp args sh = Some (sh\<lparr>stderr := stderr sh @ [msg]\<rparr>, Inr 1)"
proof -
  have missing: "missing_args args \<noteq> []" using assms(3) by (auto simp: missing_args_def)
  let ?e = "Exn BrokerError (''real mode requires: '' @ join '', '' (missing_args args))"
  have e: "isinstance ?e BaseException" "\<not> isinstance ?e RecoveryRequired" "isinstance ?e BrokerError"
    by (simp_all add: isinstance_simps)
  show ?thesis
    using assms(1,2) missing e
    by (intro exI [of _ "''ERROR: '' @ message ?e"]) (simp add: main_def run_real_def print_err_def prog_defs)
qed

section \<open>Properties\<close>

text \<open>
  C8. Exit code zero means a completed trade. If the command is not \<open>--status\<close> and \<open>main\<close> returns 0,
  then, whatever the endpoints, the driver, the import and the failing calls, there was no journal at
  the path before and there is now, durably, one that has gone through all states to \<open>COMPLETE\<close> with A
  on the Switch, B on the GBA and P with the broker.
\<close>

theorem exit_zero_complete:
  assumes "wf_os (files sh)" and "\<not> arg_status args" and "main imp drv sp args sh = Some (sh', Inr 0)"
  shows "names (files sh) (Path (arg_journal args)) = None \<and> completed_journal (arg_journal args) (files sh')"
proof -
  let ?Q = "\<lambda>n sh'. n = (0 :: int) \<longrightarrow> names (files sh) (Path (arg_journal args)) = None \<and>
    completed_journal (arg_journal args) (files sh')"
  have "wp (main imp drv sp args) ?Q (\<lambda>_ _. True) sh"
    unfolding main_def wp_try_except
    by (simp add: assms(2) wp_simps)
      (intro conjI impI wp_mono [OF wp_run_mock [OF assms(1)]] wp_mono [OF wp_run_real [OF assms(1)]], auto)
  then show ?thesis using assms(3) by (simp add: wp_def)
qed

lemma exit_zero_complete_witness:
  "\<exists>sh'. main demo_import partner_driver script_port (cli_defaults\<lparr>arg_mock_demo := True\<rparr>)
      (demo_shell (fresh_os (\<lambda>_. None))) = Some (sh', Inr 0) \<and> completed_journal [''journal.json''] (files sh')"
proof -
  let ?args = "cli_defaults\<lparr>arg_mock_demo := True\<rparr>" and ?sh = "demo_shell (fresh_os (\<lambda>_. None))"
  obtain sh' where run: "main demo_import partner_driver script_port ?args ?sh = Some (sh', Inr 0)"
    using mock_demo_run [of ?args ?sh demo_import partner_driver script_port] by auto
  show ?thesis using exit_zero_complete [OF _ _ run] run by auto
qed

text \<open>
  C34. The status command only looks. With \<open>--status\<close>, whatever calls fail, no file changes, neither what
  processes see nor what a power loss could leave, and neither the driver nor the serial port is touched.
\<close>

theorem status_changes_nothing:
  assumes "arg_status args" and "main imp drv sp args sh = Some (sh', res)"
  shows "contents (files sh') = contents (files sh) \<and> survives (files sh') = survives (files sh) \<and>
    env sh' = env sh \<and> ports sh' = ports sh"
proof -
  let ?I = "\<lambda>sh'. \<exists>n. files sh' = (files sh)\<lparr>calls := n\<rparr> \<and> env sh' = env sh \<and> ports sh' = ports sh"
  have exists: "wp (store_exists path) (\<lambda>_ w. \<exists>n. w = (files sh)\<lparr>calls := n\<rparr>) (\<lambda>_ w. \<exists>n. w = (files sh)\<lparr>calls := n\<rparr>) (files sh)"
    for path by (rule wp_store_exists) auto
  have load: "wp (load path) (\<lambda>_ w. \<exists>n. w = (files sh)\<lparr>calls := n\<rparr>) (\<lambda>_ w. \<exists>n. w = (files sh)\<lparr>calls := n\<rparr>) ((files sh)\<lparr>calls := n\<rparr>)"
    for path n by (rule wp_load_calls) auto
  have status: "wp (show_status path) (\<lambda>_. ?I) (\<lambda>_. ?I) sh" for path
    unfolding show_status_def wp_andthen wp_on_files
    by (rule wp_mono [OF exists]) (auto simp: wp_simps intro!: wp_mono [OF load])
  have "wp (main imp drv sp args) (\<lambda>_. ?I) (\<lambda>_. ?I) sh"
    unfolding main_def wp_try_except if_P [OF assms(1)]
    by (rule wp_mono [OF status]) (auto simp: wp_simps)
  then have "?I sh'" using assms(2) by (cases res) (simp_all add: wp_def)
  then show ?thesis by auto
qed

lemma status_changes_nothing_witness:
  "\<exists>sh'. main demo_import partner_driver script_port (cli_defaults\<lparr>arg_status := True\<rparr>)
      (demo_shell (one_file_os [''journal.json''] (journal_bytes demo_record) (\<lambda>_. None))) = Some (sh', Inr 0) \<and>
    contents (files sh') (Path [''journal.json'']) = Some (journal_bytes demo_record)"
proof -
  let ?args = "cli_defaults\<lparr>arg_status := True\<rparr>"
  let ?sh = "demo_shell (one_file_os [''journal.json''] (journal_bytes demo_record) (\<lambda>_. None))"
  obtain sh' where run: "main demo_import partner_driver script_port ?args ?sh =
      Some (sh', Inr (if jstate demo_record = state_value RECOVERY_REQUIRED then 2 else 0))"
    using status_run [of ?args ?sh demo_record demo_import partner_driver script_port] by auto
  have "jstate demo_record \<noteq> state_value RECOVERY_REQUIRED"
    by (simp add: demo_record_def new_record_def)
  then show ?thesis using status_changes_nothing [OF _ run] run by auto
qed

text \<open>
  C35. The status command tells. Over an intact journal and with no failing call, \<open>--status\<close> prints the
  journal's record as it is read back and returns 2 if it needs recovery and 0 if not.
\<close>

theorem status_reports:
  assumes "arg_status args" and "\<forall>n. fault (files sh) n = None" and "wf_record r" and "utf8_record r"
    and "contents (files sh) (Path (arg_journal args)) = Some (journal_bytes r)"
  shows "\<exists>sh'. main imp drv sp args sh = Some (sh', Inr (if jstate r = state_value RECOVERY_REQUIRED then 2 else 0)) \<and>
    stdout sh' = stdout sh @ [json_dumps (as_json_dict (sorted_dicts r))]"
  by (rule status_run [OF assms])

lemma status_reports_witness:
  "\<exists>sh'. main demo_import partner_driver script_port (cli_defaults\<lparr>arg_status := True\<rparr>)
      (demo_shell (one_file_os [''journal.json''] (journal_bytes demo_record) (\<lambda>_. None))) = Some (sh', Inr 0) \<and>
    stdout sh' = [json_dumps (as_json_dict (sorted_dicts demo_record))]"
proof -
  have "jstate demo_record \<noteq> state_value RECOVERY_REQUIRED"
    by (simp add: demo_record_def new_record_def)
  then show ?thesis
    using status_reports [of "cli_defaults\<lparr>arg_status := True\<rparr>"
        "demo_shell (one_file_os [''journal.json''] (journal_bytes demo_record) (\<lambda>_. None))" demo_record
        demo_import partner_driver script_port] by auto
qed

text \<open>
  C33. The mock demo. On a system with no journal and no failing call, \<open>--mock-demo\<close> returns 0 after five
  lines, none of its assertions fails, and leaves the journal of a completed trade.
\<close>

theorem mock_demo_succeeds:
  assumes "\<not> arg_status args" and "arg_mock_demo args" and "wf_os (files sh)" and "\<forall>n. fault (files sh) n = None"
    and "names (files sh) (Path (arg_journal args)) = None"
  shows "\<exists>sh'. main imp drv sp args sh = Some (sh', Inr 0) \<and> length (stdout sh') = length (stdout sh) + 5 \<and>
    completed_journal (arg_journal args) (files sh') \<and> stderr sh' = stderr sh"
  by (rule mock_demo_run [OF assms])

lemma mock_demo_succeeds_witness:
  "\<exists>sh'. main demo_import partner_driver script_port (cli_defaults\<lparr>arg_mock_demo := True\<rparr>)
      (demo_shell (fresh_os (\<lambda>_. None))) = Some (sh', Inr 0) \<and> length (stdout sh') = 5"
  using mock_demo_succeeds [of "cli_defaults\<lparr>arg_mock_demo := True\<rparr>" "demo_shell (fresh_os (\<lambda>_. None))"
      demo_import partner_driver script_port] by auto

text \<open>
  C16. The whole stack comes back. Over a serial port whose operations come back and whose clock
  advances, and a Switch driver whose operations come back, a run of the coordinator over
  \<open>SwitchTradeSession\<close>, \<open>GbLinkEndpoint\<close> and \<open>SerialTransport\<close> on a path without a journal comes back,
  whatever the adapter sends or fails to send and whatever calls of the operating system fail.
\<close>

theorem stack_returns:
  assumes "ticking sp time" and "steady sp"
    and "\<forall>d bs. returns (driver_connect drv) d \<and> returns (driver_wait drv) d \<and>
      returns (driver_set_offer drv bs) d \<and> returns (driver_trade drv) d \<and> returns (driver_close drv) d"
    and "names (system c) (Path path) = None"
  shows "returns (execute path (session_endpoint drv)
    (gb_link_endpoint (serial_transport_ops sp) (on_port (port_now sp))) hook p) c"
proof (rule returns_execute [OF _ assms(4)])
  have link: "prompt_transport (serial_transport_ops sp) (on_port (port_now sp)) (\<lambda>s. time (port s))
      (\<lambda>s. length (data_buffer s))"
    by (rule serial_prompt [OF assms(1,2)])
  have driven: "returns (on_driver m) s = returns m (driver s)" for m and s :: "'b session"
    by (auto simp: on_driver_def returns_def zoom_def split: option.split)
  show "answers (session_endpoint drv) (gb_link_endpoint (serial_transport_ops sp) (on_port (port_now sp)))"
    unfolding answers_def gb_link_endpoint_def gba_endpoint.simps session_endpoint_def switch_endpoint.simps
    using assms(3) prompt_transport.endpoint_returns [OF link]
    by (auto simp: session_connect_def session_wait_def session_trade_def session_close_def driven
        intro!: returns_rules)
qed

lemma stack_returns_witness:
  "returns (execute [''j''] (session_endpoint partner_driver)
      (gb_link_endpoint (serial_transport_ops script_port) (on_port (port_now script_port))) no_fault (plain_mon 1))
    (start (session_init \<lparr>partner_mon = plain_mon 2, partner_open = False, partner_offer = []\<rparr>)
      \<lparr>transport = serial_init \<lparr>reads = [[1, 2, 3]], ticks = 0, sent = []\<rparr> ''/dev/ttyACM0'' 115200,
        link_timeout = milliseconds 120000, offer_slot = 0, decode_buffer = [], window = Map.empty, link_txid = demo_txid,
        out_sequence = 0, link_connected = False, heard = []\<rparr> (fresh_os (\<lambda>_. None)))"
  by (rule stack_returns [OF script_ticking script_steady])
    (simp_all add: partner_driver_def returns_def prog_defs split: sum.split)

end
