(* ===== verification/Swap_Script.thy ===== *)
theory Swap_Script
  imports Transaction
begin

text \<open>
  The transaction without its journal: \<open>swap_script\<close> is the bare sequence of endpoint calls and checks,
  a program over the two endpoints alone. That \<open>TradeCoordinator.execute\<close> is an implementation of it
  is a simulation, built up from the statements by the rules of the collection \<open>simulation\<close>.
\<close>

named_theorems simulation "rules that build a simulation statement by statement"

section \<open>The script\<close>

definition on_switch :: "('s, 'a) prog \<Rightarrow> ('s \<times> 'g, 'a) prog" where
  "on_switch m = zoom fst (\<lambda>s (_, g). (s, g)) m"

definition on_gba :: "('g, 'a) prog \<Rightarrow> ('s \<times> 'g, 'a) prog" where
  "on_gba m = zoom snd (\<lambda>g (s, _). (s, g)) m"

definition script_switch :: "'s switch_endpoint \<Rightarrow> string \<Rightarrow> pokemon100 \<Rightarrow> ('s \<times> 'g, pokemon100) prog" where
  "script_switch sw name m =
     andthen (on_switch (switch_wait sw)) (\<lambda>_.
     andthen (on_switch (switch_trade sw m)) (\<lambda>res.
     andthen (lift (validate_result res m name)) (\<lambda>_.
     ret (received_mon res))))"

definition script_gba :: "'g gba_endpoint \<Rightarrow> pokemon100 \<Rightarrow> ('s \<times> 'g, pokemon100) prog" where
  "script_gba gb m =
     andthen (on_gba (gba_trade gb m)) (\<lambda>res.
     andthen (lift (validate_gba_result res m)) (\<lambda>_.
     ret (received_mon res)))"

definition swap_script ::
    "'s switch_endpoint \<Rightarrow> 'g gba_endpoint \<Rightarrow> pokemon100 \<Rightarrow> ('s \<times> 'g, pokemon100 \<times> pokemon100 \<times> pokemon100) prog" where
  "swap_script sw gb p =
     andthen (on_switch (switch_connect sw)) (\<lambda>_.
     andthen (on_gba (gba_connect gb)) (\<lambda>_.
     andthen (script_switch sw ''Switch stage 1'' p) (\<lambda>b_mon.
     andthen (lift (refuse_mail b_mon)) (\<lambda>_.
     andthen (script_gba gb b_mon) (\<lambda>a_mon.
     andthen (lift (refuse_mail a_mon)) (\<lambda>_.
     andthen (script_switch sw ''Switch stage 2'' a_mon) (\<lambda>returned.
     ret (b_mon, a_mon, returned))))))))"

text \<open>Closing both endpoints, whatever the first close does.\<close>

definition closing_script :: "'s switch_endpoint \<Rightarrow> 'g gba_endpoint \<Rightarrow> ('s \<times> 'g, unit) prog" where
  "closing_script sw gb =
     andthen (try_except Exception (on_gba (gba_close gb)) (\<lambda>_. ret ())) (\<lambda>_.
     try_except Exception (on_switch (switch_close sw)) (\<lambda>_. ret ()))"

section \<open>Simulation\<close>

text \<open>
  If \<open>m\<close> returns, then so does \<open>n\<close> on the endpoints of the run, with the same value and
  the same endpoints; and \<open>m\<close> is silent when it leaves the endpoints and the flags alone.
\<close>

definition simulates :: "(('s, 'g) run, 'a) prog \<Rightarrow> ('s \<times> 'g, 'a) prog \<Rightarrow> bool" where
  "simulates m n \<longleftrightarrow> (\<forall>c. wp m
     (\<lambda>a c'. n (switch c, gba c) = Some ((switch c', gba c'), Inr a)) (\<lambda>_ _. True) c)"

definition silent :: "(('s, 'g) run, 'a) prog \<Rightarrow> bool" where
  "silent m \<longleftrightarrow> (\<forall>c. wp m (\<lambda>_ c'. switch c' = switch c \<and> gba c' = gba c) (\<lambda>_ _. True) c)"

lemma simulates_run: "simulates m n \<Longrightarrow> m c = Some (c', Inr a) \<Longrightarrow>
    n (switch c, gba c) = Some ((switch c', gba c'), Inr a)"
  by (auto simp: simulates_def dest: spec [of _ c] wp_return)

lemma simulatesI: "(\<And>c c' a. m c = Some (c', Inr a) \<Longrightarrow> n (switch c, gba c) = Some ((switch c', gba c'), Inr a)) \<Longrightarrow>
    simulates m n"
  by (auto simp: simulates_def intro!: wpI)

lemma silent_run: "silent m \<Longrightarrow> m c = Some (c', Inr a) \<Longrightarrow> switch c' = switch c \<and> gba c' = gba c"
  by (auto simp: silent_def dest: spec [of _ c] wp_return)

lemma andthen_Inr: "andthen m f w = Some (w', Inr b) \<longleftrightarrow>
    (\<exists>w1 a. m w = Some (w1, Inr a) \<and> f a w1 = Some (w', Inr b))"
  by (auto simp: andthen_def split: option.splits sum.splits)

lemma simulates_andthen [simulation]:
  assumes "simulates m n" and "\<And>a. simulates (f a) (g a)"
  shows "simulates (andthen m f) (andthen n g)"
  by (rule simulatesI) (auto simp: andthen_Inr dest!: simulates_run [OF assms(1)] simulates_run [OF assms(2)])

lemma simulates_skip:
  assumes "silent m" and "\<And>a. simulates (f a) n"
  shows "simulates (andthen m f) n"
  by (rule simulatesI) (auto simp: andthen_Inr dest!: silent_run [OF assms(1)] simulates_run [OF assms(2)])

lemma simulates_basic [simulation]:
  "simulates (ret a) (ret a)" "simulates (lift r) (lift r)"
  "simulates (switch_call ev m) (on_switch m)" "simulates (gba_call ev k) (on_gba k)"
  by (simp_all add: simulates_def wp_def ret_def lift_def switch_call_def gba_call_def on_switch_def on_gba_def
      andthen_def modify_def zoom_def split: option.split sum.split prod.split)

lemma silent_basic:
  "silent (journal_step path new ch)" "silent (fault_hook hook b)" "silent (sys_call m)"
  "silent (keep_artifact path label mon)" "silent (gets k)"
  "silent (modify (\<lambda>c. c\<lparr>switch_connected := b1\<rparr>))" "silent (modify (\<lambda>c. c\<lparr>gba_connected := b1\<rparr>))"
  "silent (modify (\<lambda>c. c\<lparr>current := r, gba_connected := b1, switch_connected := b2\<rparr>))"
  "silent (if b3 then raise e else ret ())"
  by (simp_all add: silent_def wp_def journal_step_def fault_hook_def sys_call_def keep_artifact_def prog_defs
      split: option.split sum.split prod.split)

lemmas skips = silent_basic [THEN simulates_skip]

lemma andthen_assoc: "andthen (andthen m f) k = andthen m (\<lambda>a. andthen (f a) k)"
  by (rule ext) (simp add: andthen_def split: option.split sum.split prod.split)

lemma andthen_ret: "andthen (ret a) f = f a"
  by (rule ext) (simp add: andthen_def ret_def)

lemma simulates_exchange:
  "simulates (andthen (exchange path sw gb hook p) (\<lambda>out. ret (gba_mon out, switch_mon out, broker_mon out)))
     (swap_script sw gb p)"
  unfolding exchange_def connect_both_def stage1_def gba_stage_def stage2_def swap_script_def script_switch_def
    script_gba_def andthen_assoc andthen_ret transaction_outcome.select_convs
  by (rule skips simulation)+

section \<open>Closing\<close>

definition flagged :: "('s, 'g) run \<Rightarrow> bool" where
  "flagged c \<longleftrightarrow> gba_connected c \<and> switch_connected c"

lemma close_both_run:
  assumes "close_both sw gb c = Some (c', Inr u)" and "flagged c"
  shows "closing_script sw gb (switch c, gba c) = Some ((switch c', gba c'), Inr ())"
  using assms
  by (auto simp: close_both_def closing_script_def switch_call_def gba_call_def on_switch_def on_gba_def
      flagged_def prog_defs split: option.splits sum.splits prod.splits if_splits)

text \<open>What the stages do keeps both endpoints marked as connected.\<close>

definition keeps_open :: "(('s, 'g) run, 'a) prog \<Rightarrow> bool" where
  "keeps_open m \<longleftrightarrow> (\<forall>c c' a. m c = Some (c', Inr a) \<longrightarrow> flagged c \<longrightarrow> flagged c')"

lemma keeps_open_andthen [simulation]:
  "keeps_open m \<Longrightarrow> (\<And>a. keeps_open (f a)) \<Longrightarrow> keeps_open (andthen m f)"
  unfolding keeps_open_def andthen_Inr by blast

lemma keeps_open_basic [simulation]:
  "keeps_open (journal_step path new ch)" "keeps_open (fault_hook hook b)"
  "keeps_open (keep_artifact path label mon)" "keeps_open (gets k)" "keeps_open (ret x)" "keeps_open (lift r)"
  "keeps_open (switch_call ev m1)" "keeps_open (gba_call ev m2)" "keeps_open (if b3 then raise e else ret ())"
  by (auto simp: keeps_open_def flagged_def journal_step_def fault_hook_def sys_call_def keep_artifact_def
      switch_call_def gba_call_def prog_defs split: option.splits sum.splits prod.splits if_splits)

lemma flagged_exchange:
  assumes "exchange path sw gb hook p c = Some (c', Inr out)"
  shows "flagged c'"
proof -
  have opened: "flagged c1" if "connect_both sw gb c = Some (c1, Inr u)" for c1 u
    using that by (auto simp: connect_both_def andthen_Inr modify_def flagged_def switch_call_def gba_call_def
        zoom_def split: option.splits)
  have rest: "keeps_open (andthen (stage1 path sw hook p) (\<lambda>b. andthen (gba_stage path gb hook b) (\<lambda>a.
      andthen (stage2 path sw hook p a) (\<lambda>x. andthen (gets current) (\<lambda>r.
        ret \<lparr>outcome_id = tx_id r, gba_mon = b, switch_mon = a, broker_mon = x\<rparr>)))))"
    unfolding stage1_def gba_stage_def stage2_def by (rule simulation)+
  obtain c1 u where "connect_both sw gb c = Some (c1, Inr u)"
    "andthen (stage1 path sw hook p) (\<lambda>b. andthen (gba_stage path gb hook b) (\<lambda>a.
      andthen (stage2 path sw hook p a) (\<lambda>x. andthen (gets current) (\<lambda>r.
        ret \<lparr>outcome_id = tx_id r, gba_mon = b, switch_mon = a, broker_mon = x\<rparr>)))) c1 = Some (c', Inr out)"
    using assms unfolding exchange_def andthen_Inr [of "connect_both sw gb"] by blast
  then show ?thesis using opened rest [unfolded keeps_open_def] by blast
qed

section \<open>The whole run\<close>

lemma silent_first:
  assumes "andthen m f c = Some (c', Inr b)" and "silent m"
  obtains c1 a where "f a c1 = Some (c', Inr b)" "switch c1 = switch c" "gba c1 = gba c"
  using assms(1) silent_run [OF assms(2)] unfolding andthen_Inr by blast

lemma silent_lift: "silent (lift r)"
  by (simp add: silent_def wp_lift split: sum.split)

lemma execute_script:
  assumes "execute path sw gb hook p c = Some (c', Inr out)"
  shows "\<exists>s g. swap_script sw gb p (switch c, gba c) = Some ((s, g), Inr (gba_mon out, switch_mon out, broker_mon out)) \<and>
    closing_script sw gb (s, g) = Some ((switch c', gba c'), Inr ())"
proof -
  let ?swap = "exchange path sw gb hook p" and ?close = "close_both sw gb"
  let ?guarded = "try_except Exception ?swap (\<lambda>exc. andthen (mark_recovery path exc) (\<lambda>_. raise exc))"
  have inner: "?swap x = Some (y, Inr a)" if "?guarded x = Some (y, Inr a)" for x y a
    using that by (auto simp: try_except_def andthen_def raise_def split: option.splits sum.splits if_splits)
  have fin: "\<exists>y u. ?swap x = Some (y, Inr out) \<and> ?close y = Some (c', Inr u)"
    if "try_finally ?guarded ?close x = Some (c', Inr out)" for x
    using that inner [of x] by (auto simp: try_finally_def split: option.splits sum.splits)
  obtain x where "try_finally ?guarded ?close x = Some (c', Inr out)" and x: "switch x = switch c" "gba x = gba c"
    using assms unfolding execute_def
    by (elim silent_first [OF _ silent_lift] silent_first [OF _ silent_basic(3)] silent_first [OF _ silent_basic(8)]) simp
  then obtain y u where run: "?swap x = Some (y, Inr out)" "?close y = Some (c', Inr u)" using fin by blast
  have "andthen ?swap (\<lambda>out. ret (gba_mon out, switch_mon out, broker_mon out)) x =
      Some (y, Inr (gba_mon out, switch_mon out, broker_mon out))"
    using run(1) by (simp add: andthen_def ret_def)
  from simulates_run [OF simulates_exchange this] close_both_run [OF run(2) flagged_exchange [OF run(1)]]
  show ?thesis using x by auto
qed

end
