(* ===== verification/Adapter.thy ===== *)
theory Adapter
  imports Conversation
begin

text \<open>
  An adapter that keeps to the protocol of \<open>docs/protocol.md\<close>, as an interface and once made. The locale
  \<open>broker_adapter\<close> is a transport that reports the six capabilities when it is asked, answers an offer
  with the events of a trade, and hands its bytes over as \<open>event_source\<close> says. Over every such
  transport the GB-Link endpoint meets the contract the coordinator expects of a GBA endpoint.
\<close>

section \<open>The interface\<close>

text \<open>
  \<open>adapter x n rs t\<close>: the player behind the adapter \<open>t\<close> owns \<open>x\<close>, its last event had the number \<open>n\<close>, and
  the bursts \<open>rs\<close> have not been read yet. Which party the record stands in, in which place, how long the
  player takes and how the bytes are cut may be different at each trade.
\<close>

locale broker_adapter =
  fixes ops :: "'t byte_transport" and now :: "('t, int) prog"
    and adapter :: "pokemon100 \<Rightarrow> int \<Rightarrow> bytes list \<Rightarrow> 't \<Rightarrow> bool" and time :: "'t \<Rightarrow> int" and tick :: int and lag :: nat
  assumes source: "event_source ops now (adapter x n) time tick"
    and opened: "adapter x n [] t \<Longrightarrow> \<exists>t'. transport_open ops t = Some (t', Inr ()) \<and> adapter x n [] t'"
    and closed: "adapter x n [] t \<Longrightarrow> \<exists>t'. transport_close ops t = Some (t', Inr ()) \<and> adapter x n [] t'"
    and greeted: "adapter x n [] t \<Longrightarrow> wf_frame f \<Longrightarrow> message_type f = HELLO \<Longrightarrow>
      \<exists>t'. transport_write ops (encode f) t = Some (t', Inr ()) \<and> adapter x n [] t'"
    and asked: "adapter x n [] t \<Longrightarrow> wf_frame f \<Longrightarrow> message_type f = GET_CAPABILITIES \<Longrightarrow>
      \<exists>t' q bits. transport_write ops (encode f) t = Some (t', Inr ()) \<and> q \<le> lag \<and> length bits = 4 \<and>
        and (le_nat bits) 63 = 63 \<and> adapter x (n + 1) (spaced [q] [event (transaction_id f) CAPABILITIES (n + 1) bits]) t'"
    and offered: "adapter x n [] t \<Longrightarrow> wf_frame f \<Longrightarrow> message_type f = SET_OFFER_MON \<Longrightarrow>
      payload f = of_int slot # raw m \<Longrightarrow> 0 \<le> slot \<Longrightarrow> slot \<le> 5 \<Longrightarrow>
      \<exists>t' qs party i. transport_write ops (encode f) t = Some (t', Inr ()) \<and> timely lag qs \<and> length party = 6 \<and> i < 6 \<and>
        party ! i = x \<and> adapter m (n + 7) (spaced qs (conversation (transaction_id f) slot m party i n)) t'"

sublocale broker_adapter \<subseteq> heard: event_source ops now "adapter x n" time tick for x n
  by (rule source)

text \<open>A session with the adapter before the connect, ready to trade, and after the trade.\<close>

definition link_fresh ::
  "(pokemon100 \<Rightarrow> int \<Rightarrow> bytes list \<Rightarrow> 't \<Rightarrow> bool) \<Rightarrow> int \<Rightarrow> pokemon100 \<Rightarrow> 't gb_link \<Rightarrow> bool" where
  "link_fresh adapter slack x g \<longleftrightarrow> at_source (adapter x 0) slack (link_txid g) 0 [] g \<and> out_sequence g = 0 \<and>
     0 \<le> offer_slot g \<and> offer_slot g \<le> 5"

definition link_ready ::
  "(pokemon100 \<Rightarrow> int \<Rightarrow> bytes list \<Rightarrow> 't \<Rightarrow> bool) \<Rightarrow> int \<Rightarrow> pokemon100 \<Rightarrow> 't gb_link \<Rightarrow> bool" where
  "link_ready adapter slack x g \<longleftrightarrow> at_source (adapter x 1) slack (link_txid g) 1 [] g \<and> out_sequence g = 2 \<and>
     0 \<le> offer_slot g \<and> offer_slot g \<le> 5 \<and> link_connected g"

definition link_owner ::
  "(pokemon100 \<Rightarrow> int \<Rightarrow> bytes list \<Rightarrow> 't \<Rightarrow> bool) \<Rightarrow> bool \<Rightarrow> pokemon100 \<Rightarrow> 't gb_link \<Rightarrow> bool" where
  "link_owner adapter on x g \<longleftrightarrow> adapter x 8 [] (transport g) \<and> link_connected g = on"

lemma send_frame:
  assumes "mk_frame t (link_txid g) (out_sequence g + 1) pl 0 = Inr f"
    and "transport_write ops (encode f) (transport g) = Some (t', Inr ())"
  shows "send ops t pl g = Some (g\<lparr>out_sequence := out_sequence g + 1, transport := t'\<rparr>, Inr ())"
  using assms by (simp add: send_def on_transport_def prog_defs)

context broker_adapter
begin

lemma adapter_connect:
  assumes "link_fresh adapter (patience tick lag) x g"
  shows "\<exists>g'. link_connect ops now g = Some (g', Inr ()) \<and> link_ready adapter (patience tick lag) x g'"
proof -
  let ?u = "link_txid g" and ?v = "text_bytes ''frlg-trade-broker/0.1''"
  let ?hello = "\<lparr>message_type = HELLO, transaction_id = ?u, sequence = 1, payload = ?v, flags = 0\<rparr>"
  let ?ask = "\<lparr>message_type = GET_CAPABILITIES, transaction_id = ?u, sequence = 2, payload = [], flags = 0\<rparr>"
  have start: "adapter x 0 [] (transport g)" "out_sequence g = 0" using assms by (simp_all add: link_fresh_def at_source_def)
  have short: "length ?v \<le> max_payload" by (simp add: text_bytes_def max_payload_def)
  obtain t0 where t0: "transport_open ops (transport g) = Some (t0, Inr ())" "adapter x 0 [] t0"
    using opened [OF start(1)] by blast
  obtain t1 where t1: "transport_write ops (encode ?hello) t0 = Some (t1, Inr ())" "adapter x 0 [] t1"
    using greeted [OF t0(2), of ?hello] short by (auto simp: wf_frame_def)
  obtain t2 q bits where t2: "transport_write ops (encode ?ask) t1 = Some (t2, Inr ())" "q \<le> lag" "length bits = 4"
      "and (le_nat bits) 63 = 63" "adapter x 1 (spaced [q] [event ?u CAPABILITIES 1 bits]) t2"
    using asked [OF t1(2), of ?ask] by (auto simp: wf_frame_def)
  let ?g0 = "g\<lparr>transport := t0\<rparr>" and ?g1 = "g\<lparr>transport := t0, link_connected := True, out_sequence := 1, transport := t1\<rparr>"
  let ?g2 = "?g1\<lparr>out_sequence := 2, transport := t2\<rparr>"
  have open_port: "on_transport (transport_open ops) g = Some (?g0, Inr ())"
    using t0(1) by (simp add: on_transport_def prog_defs)
  have one: "send ops HELLO ?v (?g0\<lparr>link_connected := True\<rparr>) = Some (?g1, Inr ())"
    using send_frame [of HELLO "?g0\<lparr>link_connected := True\<rparr>" ?v ?hello ops t1] t1(1) start(2) short by (simp add: mk_frame_def)
  have two: "send ops GET_CAPABILITIES [] ?g1 = Some (?g2, Inr ())"
    using send_frame [of GET_CAPABILITIES ?g1 "[]" ?ask ops t2] t2(1) by (simp add: mk_frame_def)
  have "at_source (adapter x 1) (patience tick lag) ?u 0 (spaced [q] [event ?u CAPABILITIES 1 bits]) ?g2"
    using assms t2(5) by (simp add: link_fresh_def at_source_def del: spaced.simps)
  from heard.session_opens [OF open_port one two this] t2(2-4) obtain g' where
    "link_connect ops now g = Some (g', Inr ())" "at_source (adapter x 1) (patience tick lag) ?u 1 [] g'" "same_session ?g2 g'"
    by auto
  then show ?thesis using assms by (auto simp: link_ready_def link_fresh_def same_session_def at_source_def)
qed

lemma adapter_trade:
  assumes "link_ready adapter (patience tick lag) x g" and "refuse_mail m = Inr ()"
  shows "\<exists>g' i. link_trade ops now m g = Some (g', Inr \<lparr>offered_mon = m, received_mon = x,
    commit_confirmed = True, selected_slot = int i, link_closed = True\<rparr>) \<and> i < 6 \<and> link_owner adapter True m g'"
proof -
  let ?u = "link_txid g" and ?pl = "of_int (offer_slot g) # raw m"
  let ?offer = "\<lparr>message_type = SET_OFFER_MON, transaction_id = ?u, sequence = 3, payload = ?pl, flags = 0\<rparr>"
  have g: "0 \<le> offer_slot g" "offer_slot g \<le> 5" "link_connected g" "out_sequence g = 2" "adapter x 1 [] (transport g)"
    using assms(1) by (simp_all add: link_ready_def at_source_def)
  have short: "length ?pl \<le> max_payload" by (simp add: max_payload_def)
  obtain t qs party i where t: "transport_write ops (encode ?offer) (transport g) = Some (t, Inr ())" "timely lag qs"
      "length party = 6" "i < 6" "party ! i = x" "adapter m 8 (spaced qs (conversation ?u (offer_slot g) m party i 1)) t"
    using offered [OF g(5), of ?offer "offer_slot g" m] g(1,2) short by (auto simp: wf_frame_def)
  let ?g0 = "g\<lparr>out_sequence := 3, transport := t\<rparr>"
  have sending: "send ops SET_OFFER_MON ?pl g = Some (?g0, Inr ())"
    using send_frame [of SET_OFFER_MON g ?pl ?offer ops t] t(1) g(4) short by (simp add: mk_frame_def)
  have "at_source (adapter m 8) (patience tick lag) ?u 1 (spaced qs (conversation ?u (offer_slot g) m party i 1)) ?g0"
    using assms(1) t(6) by (simp add: link_ready_def at_source_def)
  from heard.trade_heard [OF sending this t(2) g(3) assms(2) t(3,4)]
  obtain g' where "link_trade ops now m g = Some (g', Inr \<lparr>offered_mon = m,
      received_mon = party ! i, commit_confirmed = True, selected_slot = int i, link_closed = True\<rparr>)"
    "at_source (adapter m 8) (patience tick lag) ?u 8 [] g'" "same_session ?g0 g'"
    by auto
  then show ?thesis using g(3) t(4,5) by (auto simp: link_owner_def at_source_def same_session_def)
qed

text \<open>The contract of the coordinator.\<close>

lemma adapter_contract: "gba_contract (gb_link_endpoint ops now) (link_fresh adapter (patience tick lag))
    (link_ready adapter (patience tick lag)) (link_owner adapter True) (link_owner adapter False) False"
proof (unfold_locales, goal_cases)
  case (1 x s)
  then show ?case using adapter_connect [of x s] by (simp add: delivers_def gb_link_endpoint_def)
next
  case (2 x s m)
  obtain g' i where "link_trade ops now m s = Some (g', Inr \<lparr>offered_mon = m, received_mon = x,
    commit_confirmed = True, selected_slot = int i, link_closed = True\<rparr>)" "i < 6" "link_owner adapter True m g'"
    using adapter_trade [OF 2] by blast
  then show ?case by (auto simp: delivers_def gb_link_endpoint_def)
next
  case (3 x s)
  then have "adapter x 8 [] (transport s)" by (simp add: link_owner_def)
  from closed [OF this] obtain t' where "transport_close ops (transport s) = Some (t', Inr ())" "adapter x 8 [] t'"
    by blast
  then show ?case
    by (simp add: delivers_def gb_link_endpoint_def link_close_def on_transport_def link_owner_def prog_defs)
qed

end

sublocale broker_adapter \<subseteq> link: gba_contract "gb_link_endpoint ops now" "link_fresh adapter (patience tick lag)"
    "link_ready adapter (patience tick lag)" "link_owner adapter True" "link_owner adapter False" False
  by (rule adapter_contract)

section \<open>An adapter\<close>

text \<open>
  Its player trades the record in place \<open>chosen\<close> of a party of six and puts the record offered there. The USB
  side yields at most \<open>burst\<close> bytes a read, each of which takes 50 milliseconds, and is silent for \<open>pause\<close>
  reads before each event.
\<close>

record adapter =
  outbox :: "bytes list"
  adapter_clock :: int
  player_party :: "pokemon100 list"
  chosen :: nat
  spoken :: int
  burst :: nat
  pause :: nat

definition answers_to :: "adapter \<Rightarrow> frame \<Rightarrow> frame list" where
  "answers_to a f = (
     if message_type f = GET_CAPABILITIES then [event (transaction_id f) CAPABILITIES (spoken a + 1) [63, 0, 0, 0]]
     else if message_type f = SET_OFFER_MON then
       (case mk_pokemon (tl (payload f)) of
          Inl _ \<Rightarrow> []
        | Inr m \<Rightarrow> conversation (transaction_id f) (uint (hd (payload f))) m (player_party a) (chosen a) (spoken a))
     else [])"

definition party_after :: "adapter \<Rightarrow> frame \<Rightarrow> pokemon100 list" where
  "party_after a f = (
     if message_type f = SET_OFFER_MON
     then (case mk_pokemon (tl (payload f)) of Inl _ \<Rightarrow> player_party a | Inr m \<Rightarrow> (player_party a)[chosen a := m])
     else player_party a)"

definition adapter_hears :: "frame \<Rightarrow> adapter \<Rightarrow> adapter" where
  "adapter_hears f a = (
     let fs = answers_to a f in
     a\<lparr>outbox := outbox a @ spaced (replicate (length fs) (pause a)) fs, spoken := spoken a + int (length fs),
       player_party := party_after a f\<rparr>)"

definition adapter_write :: "bytes \<Rightarrow> (adapter, unit) prog" where
  "adapter_write bs = modify (\<lambda>a. case feed [] bs of
     (_, Inl _) \<Rightarrow> a
   | (_, Inr fs) \<Rightarrow> fold adapter_hears fs a)"

definition adapter_read :: "nat \<Rightarrow> (adapter, bytes) prog" where
  "adapter_read n = andthen (gets (\<lambda>a. read_chunk (min n (burst a)) (outbox a))) (\<lambda>(r, rs).
     andthen (modify (\<lambda>a. a\<lparr>outbox := rs, adapter_clock := adapter_clock a + milliseconds 50\<rparr>)) (\<lambda>_. ret r))"

definition adapter_ops :: "adapter byte_transport" where
  "adapter_ops = \<lparr>transport_open = ret (), transport_read = (\<lambda>n _. adapter_read n),
     transport_write = adapter_write, transport_close = ret ()\<rparr>"

definition adapter_now :: "(adapter, int) prog" where
  "adapter_now = gets adapter_clock"

definition at_adapter :: "pokemon100 \<Rightarrow> int \<Rightarrow> bytes list \<Rightarrow> adapter \<Rightarrow> bool" where
  "at_adapter x n rs a \<longleftrightarrow> outbox a = rs \<and> length (player_party a) = 6 \<and> chosen a < 6 \<and> player_party a ! chosen a = x \<and>
     spoken a = n \<and> 0 < burst a \<and> pause a \<le> 150"

lemma adapter_written:
  "wf_frame f \<Longrightarrow> transport_write adapter_ops (encode f) a = Some (adapter_hears f a, Inr ())"
  using decode_loop_encodes [of "[f]"] by (simp add: adapter_ops_def adapter_write_def feed_def prog_defs)

lemma adapter_hears_offer:
  assumes "message_type f = SET_OFFER_MON" and "payload f = of_int slot # raw m" and "0 \<le> slot" and "slot \<le> 5"
  shows "adapter_hears f a = a\<lparr>outbox := outbox a @ spaced (replicate 7 (pause a))
      (conversation (transaction_id f) slot m (player_party a) (chosen a) (spoken a)),
    spoken := spoken a + 7, player_party := (player_party a)[chosen a := m]\<rparr>"
proof -
  have "uint (of_int slot :: byte) = slot" using assms(3,4) by (simp add: uint_word_of_int)
  then have "answers_to a f = conversation (transaction_id f) slot m (player_party a) (chosen a) (spoken a)"
    and "party_after a f = (player_party a)[chosen a := m]"
    using assms(1,2) by (simp_all add: answers_to_def party_after_def mk_pokemon_raw)
  moreover have "length (conversation u s m p i n) = 7" for u s m p i n by (simp add: conversation_def)
  ultimately show ?thesis by (simp add: adapter_hears_def)
qed

interpretation adapter_source: event_source adapter_ops adapter_now "at_adapter x n" adapter_clock "milliseconds 50" for x n
proof (unfold_locales, goal_cases)
  case (3 r rs a n w)
  let ?k = "min (min n (burst a)) (length r)"
  let ?a = "a\<lparr>outbox := (if ?k = length r then rs else drop ?k r # rs), adapter_clock := adapter_clock a + milliseconds 50\<rparr>"
  have "transport_read adapter_ops n w a = Some (?a, Inr (take ?k r))"
    using 3(1) by (auto simp: at_adapter_def adapter_ops_def adapter_read_def prog_defs min_def)
  then show ?case using 3 by (intro exI [of _ ?k] exI [of _ ?a]) (auto simp: at_adapter_def)
qed (auto simp: at_adapter_def adapter_now_def milliseconds_def prog_defs)

interpretation made: broker_adapter adapter_ops adapter_now at_adapter adapter_clock "milliseconds 50" 150
proof (unfold_locales, goal_cases)
  case (3 x n a f)
  have "adapter_hears f a = a"
    using 3(3) by (simp add: adapter_hears_def answers_to_def party_after_def)
  then show ?case using adapter_written [OF 3(2), of a] 3(1) by auto
next
  case (4 x n a f)
  have "adapter_hears f a = a\<lparr>outbox := spaced [pause a] [event (transaction_id f) CAPABILITIES (n + 1) [63, 0, 0, 0]], spoken := n + 1\<rparr>"
    using 4(1,3) by (simp add: adapter_hears_def answers_to_def party_after_def at_adapter_def)
  then show ?case
    using 4 adapter_written [OF 4(2), of a]
    by (intro exI [of _ "adapter_hears f a"] exI [of _ "pause a"] exI [of _ "[63, 0, 0, 0]"])
      (auto simp: at_adapter_def simp del: spaced.simps)
next
  case (5 x n a f slot m)
  then show ?case
    using adapter_written [OF 5(2), of a] adapter_hears_offer [OF 5(3-6), of a]
    by (intro exI [of _ "adapter_hears f a"] exI [of _ "replicate 7 (pause a)"] exI [of _ "player_party a"] exI [of _ "chosen a"])
      (auto simp: at_adapter_def timely_def)
qed (auto simp: at_adapter_def adapter_ops_def prog_defs)

text \<open>A new endpoint over an adapter that has said nothing.\<close>

lemma link_init_fresh:
  assumes "adapter x 0 [] t" and "slack < timeout" and "gb_link_init t timeout slot u = Inr g"
  shows "link_fresh adapter slack x g"
  using assms by (auto simp: gb_link_init_def link_fresh_def at_source_def split: if_splits)

end
