(* ===== verification/Evidence.thy ===== *)
theory Evidence
  imports Swap_Script Gb_Link_Spec Adapter Exchange_Spec
begin

text \<open>
  The coordinator over the endpoints it has in real mode: that \<open>execute\<close> implements the bare sequence of calls, and what the
  GB-Link endpoint has heard by the time a transaction over it is complete.
\<close>

section \<open>The calls of a script that returns\<close>

lemma on_switch_Inr: "on_switch m (s, g) = Some ((s', g'), Inr a) \<longleftrightarrow> g' = g \<and> m s = Some (s', Inr a)"
  by (auto simp: on_switch_def zoom_def split: option.splits)

lemma on_gba_Inr: "on_gba m (s, g) = Some ((s', g'), Inr a) \<longleftrightarrow> s' = s \<and> m g = Some (g', Inr a)"
  by (auto simp: on_gba_def zoom_def split: option.splits)

lemma lift_Inr: "lift r w = Some (w', Inr a) \<longleftrightarrow> w' = w \<and> r = Inr a"
  by (auto simp: lift_def)

lemma script_gba_calls:
  assumes "swap_script sw gb p (s, g) = Some ((s', g'), Inr (b, a, p'))"
  shows "\<exists>g1 res. gba_connect gb g = Some (g1, Inr ()) \<and> gba_trade gb b g1 = Some (g', Inr res) \<and>
    validate_gba_result res b = Inr () \<and> received_mon res = a"
  using assms
  by (auto simp: swap_script_def script_switch_def script_gba_def andthen_Inr on_switch_Inr on_gba_Inr lift_Inr
      ret_def)

section \<open>The GB-Link endpoint\<close>

lemma link_close_heard: "link_close ops g = Some (g', r) \<Longrightarrow> heard g' = heard g"
  by (auto simp: link_close_def on_transport_def prog_defs split: option.splits sum.splits)

lemma closing_heard:
  assumes "closing_script sw (gb_link_endpoint ops clk) (s, g) = Some ((s', g'), Inr ())"
  shows "heard g' = heard g"
proof -
  have "heard (snd w) = heard g"
    if "try_except Exception (on_gba (link_close ops)) (\<lambda>_. ret ()) (s, g) = Some (w, r)" for w and r :: "exn + unit"
    using that
    by (auto simp: try_except_def on_gba_def zoom_def ret_def link_close_heard split: option.splits sum.splits if_splits)
  moreover have "snd w' = snd w"
    if "try_except Exception (on_switch (switch_close sw)) (\<lambda>_. ret ()) w = Some (w', r)" for w w' and r :: "exn + unit"
    using that
    by (auto simp: try_except_def on_switch_def zoom_def ret_def split: option.splits sum.splits if_splits prod.splits)
  ultimately show ?thesis
    using assms by (fastforce simp: closing_script_def gb_link_endpoint_def andthen_Inr)
qed

text \<open>The session and the trade, in one conversation.\<close>

lemma link_conversation:
  assumes "link_connect ops clk g = Some (g1, Inr ())" and "link_trade ops clk b g1 = Some (g2, Inr res)"
    and "link_closed res"
  shows "\<exists>hs cap ready begun party slot mon com fin. heard g2 = heard g @ hs \<and>
    subseq [cap, ready, begun, party, slot, mon, com, fin] hs \<and>
    (\<forall>f \<in> set hs. transaction_id f = link_txid g) \<and> sorted_wrt (<) (map sequence hs) \<and>
    map message_type [cap, ready, begun, party, slot, mon, com, fin] = [CAPABILITIES, OFFER_READY,
      TRADE_SESSION_STARTED, PARTNER_PARTY, PARTNER_SELECTED_SLOT, PARTNER_SELECTED_MON, TRADE_COMMITTED,
      TRADE_LINK_CLOSED] \<and>
    (\<forall>i < 6. bit (le_nat (payload cap)) i) \<and>
    payload ready = slot_and_hash (offer_slot g) b \<and>
    payload slot = [of_int (selected_slot res)] \<and> payload mon = raw (received_mon res) \<and>
    raw (received_mon res) = slice (nat (selected_slot res) * 100) ((nat (selected_slot res) + 1) * 100) (payload party) \<and>
    payload com = sha256_digest (raw b) @ sha256_digest (raw (received_mon res)) \<and> payload fin = [0]"
proof -
  let ?g = "g\<lparr>link_connected := True\<rparr>"
  obtain hs1 cap where one: "hears ?g hs1 g1" "subseq [cap] hs1" "message_type cap = CAPABILITIES"
      "\<forall>i < 6. bit (le_nat (payload cap)) i"
    using connect_capable [OF assms(1)] by blast
  obtain hs2 ready begun party slot mon com fin n where two: "hears g1 hs2 g2"
      "subseq [ready, begun, party, slot, mon, com, fin] hs2"
      "message_type ready = OFFER_READY" "payload ready = slot_and_hash (offer_slot g1) b"
      "message_type begun = TRADE_SESSION_STARTED" "message_type party = PARTNER_PARTY"
      "message_type slot = PARTNER_SELECTED_SLOT" "payload slot = [of_nat n]"
      "message_type mon = PARTNER_SELECTED_MON" "payload mon = slice (n * 100) ((n + 1) * 100) (payload party)"
      "message_type com = TRADE_COMMITTED" "payload com = sha256_digest (raw b) @ sha256_digest (payload mon)"
      "raw (received_mon res) = payload mon" "selected_slot res = int n"
      "message_type fin = TRADE_LINK_CLOSED" "payload fin = [0]"
    using trade_evidenced [OF assms(2)] assms(3) unfolding evidenced_def by blast
  have all: "hears ?g (hs1 @ hs2) g2" by (rule hears_trans [OF one(1) two(1)])
  have sub: "subseq ([cap] @ [ready, begun, party, slot, mon, com, fin]) (hs1 @ hs2)"
    by (rule list_emb_append_mono [OF one(2) two(2)])
  have told: "heard g2 = heard g @ (hs1 @ hs2)" "\<forall>f \<in> set (hs1 @ hs2). transaction_id f = link_txid g"
    using all by (simp_all add: hears_def)
  have slot: "offer_slot g1 = offer_slot g" using one(1) by (simp add: hears_def)
  show ?thesis
    apply (rule exI [of _ "hs1 @ hs2"], rule exI [of _ cap], rule exI [of _ ready], rule exI [of _ begun],
        rule exI [of _ party], rule exI [of _ slot], rule exI [of _ mon], rule exI [of _ com], rule exI [of _ fin])
    using told sub heard_order(1) [OF all] one(3,4) two(3-) slot by simp
qed

text \<open>A run over the two real endpoints, with partners that keep to their contracts.\<close>

definition demo_adapter :: adapter where
  "demo_adapter = \<lparr>outbox = [], adapter_clock = 0, player_party = map plain_mon [10, 11, 12, 13, 3, 15], chosen = 4,
     spoken = 0, burst = 64, pause = 20\<rparr>"

lemma at_demo_adapter: "at_adapter (plain_mon 3) 0 [] demo_adapter"
  by (simp add: at_adapter_def demo_adapter_def)

lemma demo_patience: "patience (milliseconds 50) 150 < milliseconds 120000"
  by (simp add: patience_def milliseconds_def)

definition link_start :: "(partner session, adapter gb_link) run" where
  "link_start = start (session_init \<lparr>partner_mon = plain_mon 2, partner_open = False, partner_offer = []\<rparr>)
     (projr (gb_link_init demo_adapter (milliseconds 120000) 0 demo_txid)) (fresh_os (\<lambda>_. None))"

lemma link_start_gba: "gb_link_init demo_adapter (milliseconds 120000) 0 demo_txid = Inr (gba link_start)"
  by (simp add: link_start_def gb_link_init_def)

lemma link_run:
  "\<exists>c' out. execute [''j''] (session_endpoint partner_driver) (gb_link_endpoint adapter_ops adapter_now) no_fault
      (plain_mon 1) link_start = Some (c', Inr out)"
proof -
  have d: "partner_in False (plain_mon 2) \<lparr>partner_mon = plain_mon 2, partner_open = False, partner_offer = []\<rparr>"
    by (simp add: partner_in_def)
  note g = link_init_fresh [where adapter = at_adapter, OF at_demo_adapter demo_patience link_start_gba]
  show ?thesis
    using session_exchange [OF partner.driver_contract_axioms made.link.gba_contract_axioms _ _ _ _ _ d g, of "[''j'']" "plain_mon 1"]
    by (auto simp: link_start_def)
qed

section \<open>Properties\<close>

text \<open>
  C6. The coordinator implements the script of the protocol. If \<open>execute\<close> returns, whatever the journal,
  the hook and the operating system did, then the bare sequence of endpoint calls and checks, run
  on the same two endpoints, returns the same three records, and closing both endpoints from where
  it ends leaves them as \<open>execute\<close> does: no endpoint is called besides, none in another order, and
  what the transaction reports is what the endpoints reported.
\<close>

theorem execute_implements_script:
  assumes "execute path sw gb hook p c = Some (c', Inr out)"
  shows "\<exists>s g. swap_script sw gb p (switch c, gba c) = Some ((s, g), Inr (gba_mon out, switch_mon out, broker_mon out)) \<and>
    closing_script sw gb (s, g) = Some ((switch c', gba c'), Inr ())"
  by (rule execute_script [OF assms])

lemma execute_implements_script_witness:
  "\<exists>s g. swap_script mock_switch_endpoint mock_gba_endpoint (plain_mon 1) (switch demo_start, gba demo_start) =
    Some ((s, g), Inr (plain_mon 2, plain_mon 3, plain_mon 1))"
proof -
  obtain c' out where run: "execute [''j''] mock_switch_endpoint mock_gba_endpoint no_fault (plain_mon 1) demo_start =
      Some (c', Inr out)"
    and c': "mocked.completed [''j''] (\<lambda>_. None) (plain_mon 1) (plain_mon 2) (plain_mon 3) out demo_start c'"
    using mocked.honest_run [of demo_start "\<lambda>_. None" "[''j'']" "plain_mon 2" "plain_mon 3" "plain_mon 1"]
    by (auto simp: demo_start_def)
  show ?thesis
    using execute_implements_script [OF run] mocked.completed_facts [OF c'] by auto
qed

text \<open>
  C2. A completed transaction rests on evidence. When \<open>execute\<close> returns over the GB-Link endpoint,
  whatever the adapter sent and whatever the Switch endpoint, the journal and the system did, then
  the endpoint has heard, among the frames of its one transaction, whose sequence numbers rose
  strictly, in this order: the six capabilities, the acknowledgement of slot and hash of B, the begin
  of the session, a party, a slot, the record A as it is in that slot of the party, a commit with
  the hashes of B and A, and a clean close of the link; and A is the record the transaction reports
  as traded to the Switch, and B as traded to the GBA.
\<close>

theorem completed_on_evidence:
  assumes "execute path sw (gb_link_endpoint ops clk) hook p c = Some (c', Inr out)"
  shows "\<exists>hs cap ready begun party slot mon com fin n. heard (gba c') = heard (gba c) @ hs \<and>
    subseq [cap, ready, begun, party, slot, mon, com, fin] hs \<and>
    (\<forall>f \<in> set hs. transaction_id f = link_txid (gba c)) \<and> sorted_wrt (<) (map sequence hs) \<and>
    map message_type [cap, ready, begun, party, slot, mon, com, fin] = [CAPABILITIES, OFFER_READY,
      TRADE_SESSION_STARTED, PARTNER_PARTY, PARTNER_SELECTED_SLOT, PARTNER_SELECTED_MON, TRADE_COMMITTED,
      TRADE_LINK_CLOSED] \<and>
    (\<forall>i < 6. bit (le_nat (payload cap)) i) \<and>
    payload ready = slot_and_hash (offer_slot (gba c)) (gba_mon out) \<and>
    0 \<le> n \<and> n \<le> 5 \<and> payload slot = [of_int n] \<and> payload mon = raw (switch_mon out) \<and>
    raw (switch_mon out) = slice (nat n * 100) ((nat n + 1) * 100) (payload party) \<and>
    payload com = sha256_digest (raw (gba_mon out)) @ sha256_digest (raw (switch_mon out)) \<and> payload fin = [0]"
proof -
  let ?gb = "gb_link_endpoint ops clk"
  obtain s g where script: "swap_script sw ?gb p (switch c, gba c) =
        Some ((s, g), Inr (gba_mon out, switch_mon out, broker_mon out))"
      and closing: "closing_script sw ?gb (s, g) = Some ((switch c', gba c'), Inr ())"
    using execute_script [OF assms] by blast
  obtain g1 res where calls: "link_connect ops clk (gba c) = Some (g1, Inr ())"
      "link_trade ops clk (gba_mon out) g1 = Some (g, Inr res)" "validate_gba_result res (gba_mon out) = Inr ()"
      "received_mon res = switch_mon out"
    using script_gba_calls [OF script] by (auto simp: gb_link_endpoint_def)
  have ok: "link_closed res" "0 \<le> selected_slot res" "selected_slot res \<le> 5"
    using calls(3) by (auto simp: validate_gba_result_def split: sum.splits if_splits)
  show ?thesis
    using link_conversation [OF calls(1,2) ok(1)] ok(2,3) calls(4) closing_heard [OF closing]
    apply (elim exE)
    subgoal for hs cap ready begun party slot mon com fin
      by (rule exI [of _ hs], rule exI [of _ cap], rule exI [of _ ready], rule exI [of _ begun],
          rule exI [of _ party], rule exI [of _ slot], rule exI [of _ mon], rule exI [of _ com], rule exI [of _ fin],
          rule exI [of _ "selected_slot res"]) simp
    done
qed

lemma completed_on_evidence_witness:
  "\<exists>c' out hs. execute [''j''] (session_endpoint partner_driver) (gb_link_endpoint adapter_ops adapter_now) no_fault
      (plain_mon 1) link_start = Some (c', Inr out) \<and> heard (gba c') = heard (gba link_start) @ hs \<and>
    subseq [CAPABILITIES, TRADE_COMMITTED, TRADE_LINK_CLOSED] (map message_type hs)"
proof -
  obtain c' out where run: "execute [''j''] (session_endpoint partner_driver) (gb_link_endpoint adapter_ops adapter_now)
      no_fault (plain_mon 1) link_start = Some (c', Inr out)"
    using link_run by blast
  obtain hs cap ready begun party slot mon com fin where hs: "heard (gba c') = heard (gba link_start) @ hs"
      "subseq [cap, ready, begun, party, slot, mon, com, fin] hs"
      "map message_type [cap, ready, begun, party, slot, mon, com, fin] = [CAPABILITIES, OFFER_READY,
      TRADE_SESSION_STARTED, PARTNER_PARTY, PARTNER_SELECTED_SLOT, PARTNER_SELECTED_MON, TRADE_COMMITTED,
      TRADE_LINK_CLOSED]"
    using completed_on_evidence [OF run] by (elim exE conjE) (erule (2) that)
  have "subseq (map message_type [cap, ready, begun, party, slot, mon, com, fin]) (map message_type hs)"
    using subseq_map [OF hs(2)] .
  then have all: "subseq [CAPABILITIES, OFFER_READY, TRADE_SESSION_STARTED, PARTNER_PARTY, PARTNER_SELECTED_SLOT,
      PARTNER_SELECTED_MON, TRADE_COMMITTED, TRADE_LINK_CLOSED] (map message_type hs)"
    by (simp only: hs(3))
  have "subseq [CAPABILITIES, TRADE_COMMITTED, TRADE_LINK_CLOSED] [CAPABILITIES, OFFER_READY, TRADE_SESSION_STARTED,
      PARTNER_PARTY, PARTNER_SELECTED_SLOT, PARTNER_SELECTED_MON, TRADE_COMMITTED, TRADE_LINK_CLOSED]"
    by simp
  then have "subseq [CAPABILITIES, TRADE_COMMITTED, TRADE_LINK_CLOSED] (map message_type hs)"
    by (rule subseq_order.trans [OF _ all])
  then show ?thesis using run hs(1) by blast
qed



end
