(* ===== verification/Journal_Types.thy ===== *)
theory Journal_Types
  imports Journal_Spec
begin

text \<open>
  The type of a journal record. \<open>JournalRecord\<close> keeps its state as a string, which \<open>transition\<close> turns back
  into the enumeration, and texts that \<open>_write\<close> encodes; for a record that came off the disk neither goes
  wrong, nor after any transitions. The checks of \<open>from_json_dict\<close> do not look at the types of the other
  values nor for lone surrogates, so this is about files whose values have the types of the annotations
  (\<open>annotated\<close>) and whose texts are Unicode (\<open>texts_ok\<close>), whoever wrote them. The transaction id has to be
  ASCII besides, since Python reads the digits of other scripts as digits and the model does not.
\<close>

section \<open>Files whose values have the annotated types\<close>

definition entry_annotated :: "json \<Rightarrow> bool" where
  "entry_annotated j = (case j of
      JObj kvs \<Rightarrow> list_all (\<lambda>(k, v). if k = ''sequence'' then as_int v \<noteq> None else as_str v \<noteq> None) kvs
    | _ \<Rightarrow> False)"

definition value_annotated :: "string \<Rightarrow> json \<Rightarrow> bool" where
  "value_annotated k v = (
     if k \<in> {''schema_version'', ''sequence''} then as_int v \<noteq> None
     else if k = ''transaction_id'' then (case v of JStr s \<Rightarrow> ascii_text s | _ \<Rightarrow> False)
     else if k \<in> {''state'', ''created_at'', ''updated_at''} then as_str v \<noteq> None
     else if k = ''pokemon'' then as_map (as_opt as_str) v \<noteq> None
     else if k = ''locations'' then as_map as_str v \<noteq> None
     else if k = ''selected_gba_slot'' then as_opt as_int v \<noteq> None
     else if k = ''last_error'' then as_opt as_str v \<noteq> None
     else if k = ''history'' then (case v of JList es \<Rightarrow> list_all entry_annotated es | _ \<Rightarrow> False)
     else True)"

definition annotated :: "(string \<times> json) list \<Rightarrow> bool" where
  "annotated data \<longleftrightarrow> list_all (\<lambda>(k, v). value_annotated k v) data"

text \<open>Those of them that are journals: the fields, and their values.\<close>

definition acceptable :: "(string \<times> json) list \<Rightarrow> bool" where
  "acceptable data \<longleftrightarrow> set (map fst data) \<subseteq> set record_keys \<and> set required_keys \<subseteq> set (map fst data) \<and>
     (case map_of data ''history'' of Some (JList es) \<Rightarrow> \<forall>e \<in> set es. entry_error e = None | _ \<Rightarrow> True) \<and>
     (\<exists>txid st n. map_of data ''transaction_id'' = Some (JStr txid) \<and> uuid_text_ok txid \<and>
       map_of data ''state'' = Some (JStr st) \<and> st \<in> range state_value \<and>
       map_of data ''schema_version'' = Some (JInt 1) \<and> map_of data ''sequence'' = Some (JInt n) \<and> 0 \<le> n)"

lemma annotated_value: "annotated data \<Longrightarrow> map_of data k = Some v \<Longrightarrow> value_annotated k v"
  by (auto simp: annotated_def list_all_iff dest: map_of_SomeD)

lemma entry_typed:
  assumes "entry_annotated e" and "entry_error e = None"
  shows "\<exists>h. entry_of e = Some h"
proof -
  obtain kvs where e: "e = JObj kvs" using assms(1) by (auto simp: entry_annotated_def split: json.splits)
  have keys: "set entry_keys \<subseteq> set (map fst kvs)" using assms(2) by (simp add: e entry_error_def bad_keys_None)
  have val: "\<exists>v. map_of kvs k = Some v \<and> (if k = ''sequence'' then as_int v \<noteq> None else as_str v \<noteq> None)"
    if "k \<in> set entry_keys" for k
  proof -
    have "map_of kvs k \<noteq> None" using keys that by (auto simp: map_of_eq_None_iff)
    then obtain v where "map_of kvs k = Some v" by blast
    then show ?thesis using assms(1) by (auto simp: e entry_annotated_def list_all_iff dest!: map_of_SomeD)
  qed
  have "\<exists>i. Option.bind (map_of kvs ''sequence'') as_int = Some i" "\<exists>s. Option.bind (map_of kvs ''state'') as_str = Some s"
    "\<exists>a. Option.bind (map_of kvs ''at'') as_str = Some a" "\<exists>n. Option.bind (map_of kvs ''note'') as_str = Some n"
    using val [of "''sequence''"] val [of "''state''"] val [of "''at''"] val [of "''note''"] by (auto simp: entry_keys_def)
  then show ?thesis by (auto simp: e entry_of_def)
qed

lemma those_Some: "(\<And>x. x \<in> set xs \<Longrightarrow> \<exists>y. f x = Some y) \<Longrightarrow> \<exists>ys. those (map f xs) = Some ys"
  by (induction xs) (fastforce split: option.split)+

lemma field_annotated:
  assumes "annotated data" and "set required_keys \<subseteq> set (map fst data)"
  shows "k \<in> set required_keys \<Longrightarrow> \<exists>v. map_of data k = Some v \<and> field_of data k JNull = v \<and> value_annotated k v"
    and "value_annotated k JNull \<Longrightarrow> value_annotated k (field_of data k JNull)"
proof -
  show "k \<in> set required_keys \<Longrightarrow> \<exists>v. map_of data k = Some v \<and> field_of data k JNull = v \<and> value_annotated k v"
    using assms(2) annotated_value [OF assms(1), of k]
    by (cases "map_of data k") (auto simp: field_of_def map_of_eq_None_iff)
  show "value_annotated k JNull \<Longrightarrow> value_annotated k (field_of data k JNull)"
    using annotated_value [OF assms(1), of k] by (auto simp: field_of_def split: option.split)
qed

lemma typed_record_annotated:
  assumes "annotated data" and "set required_keys \<subseteq> set (map fst data)"
  shows "\<exists>r. typed_record data hist txid st schema seq = Some r"
proof -
  note req = field_annotated(1) [OF assms]
  have "\<exists>s. as_str (field_of data ''created_at'' JNull) = Some s" "\<exists>s. as_str (field_of data ''updated_at'' JNull) = Some s"
    "\<exists>s. as_map (as_opt as_str) (field_of data ''pokemon'' JNull) = Some s"
    "\<exists>s. as_map as_str (field_of data ''locations'' JNull) = Some s"
    using req [of "''created_at''"] req [of "''updated_at''"] req [of "''pokemon''"] req [of "''locations''"]
    by (auto simp: required_keys_def value_annotated_def)
  moreover have "\<exists>s. as_opt as_int (field_of data ''selected_gba_slot'' JNull) = Some s"
    "\<exists>s. as_opt as_str (field_of data ''last_error'' JNull) = Some s"
    using field_annotated(2) [OF assms, of "''selected_gba_slot''"] field_annotated(2) [OF assms, of "''last_error''"]
    by (auto simp: value_annotated_def)
  ultimately show ?thesis by (auto simp: typed_record_def)
qed

text \<open>On such a file the checks end, with a record exactly if the file is a journal.\<close>

definition judged :: "(string \<times> json) list \<Rightarrow> (exn + journal_record) option \<Rightarrow> bool" where
  "judged data res \<longleftrightarrow> (\<exists>e. res = Some (Inl e) \<and> class_of e = JournalError \<and> \<not> acceptable data) \<or>
     (\<exists>r. res = Some (Inr r) \<and> acceptable data)"

lemma judged_invalid: "\<not> acceptable data \<Longrightarrow> judged data (invalid_journal m)"
  by (simp add: judged_def invalid_journal_def)

lemma judged_checks:
  assumes "annotated data" and "set (map fst data) \<subseteq> set record_keys" and "set required_keys \<subseteq> set (map fst data)"
    and "\<forall>e \<in> set es. entry_annotated e \<and> entry_error e = None"
    and "case map_of data ''history'' of Some (JList es) \<Rightarrow> \<forall>e \<in> set es. entry_error e = None | _ \<Rightarrow> True"
  shows "judged data (check_record data es)"
proof -
  note req = field_annotated(1) [OF assms(1,3)]
  obtain txid where txid: "map_of data ''transaction_id'' = Some (JStr txid)" "field_of data ''transaction_id'' JNull = JStr txid"
    using req [of "''transaction_id''"] by (auto simp: required_keys_def value_annotated_def split: json.splits)
  obtain st where st: "map_of data ''state'' = Some (JStr st)" "field_of data ''state'' JNull = JStr st"
    using req [of "''state''"] by (auto simp: required_keys_def value_annotated_def elim: as_str.elims)
  obtain n where n: "map_of data ''schema_version'' = Some (JInt n)" "field_of data ''schema_version'' JNull = JInt n"
    using req [of "''schema_version''"] by (auto simp: required_keys_def value_annotated_def elim: as_int.elims)
  obtain i where i: "map_of data ''sequence'' = Some (JInt i)" "field_of data ''sequence'' JNull = JInt i"
    using req [of "''sequence''"] by (auto simp: required_keys_def value_annotated_def elim: as_int.elims)
  obtain hist where hist: "those (map entry_of es) = Some hist"
    using those_Some [of es entry_of] assms(4) entry_typed by blast
  obtain r where r: "typed_record data hist txid st n i = Some r"
    using typed_record_annotated [OF assms(1,3)] by blast
  have states: "st \<in> range state_value \<longleftrightarrow> state_of_value st \<noteq> None"
    by (auto dest: state_value_of)
  have accept: "acceptable data \<longleftrightarrow> uuid_text_ok txid \<and> st \<in> range state_value \<and> n = 1 \<and> 0 \<le> i"
    using assms(2,3,5) txid(1) st(1) n(1) i(1) by (auto simp: acceptable_def)
  show ?thesis
    unfolding check_record_def txid(2) st(2) n(2) i(2) accept judged_def invalid_journal_def
    using hist r by (auto simp: states schema_check_def sequence_check_def)
qed

lemma annotated_judged:
  assumes "annotated data"
  shows "judged data (from_json_dict data)"
proof -
  obtain es where es: "field_of data ''history'' (JList []) = JList es" "\<forall>e \<in> set es. entry_annotated e"
      "(case map_of data ''history'' of Some (JList es) \<Rightarrow> \<forall>e \<in> set es. entry_error e = None | _ \<Rightarrow> True) \<longleftrightarrow>
        (\<forall>e \<in> set es. entry_error e = None)"
    using annotated_value [OF assms, of "''history''"]
    by (cases "map_of data ''history''") (auto simp: field_of_def value_annotated_def list_all_iff split: json.splits)
  show ?thesis
  proof (cases "first_some entry_error es")
    case None
    show ?thesis
    proof (cases "bad_keys ''JournalRecord'' record_keys required_keys (map fst data)")
      case None2: None
      have "judged data (check_record data es)"
        by (rule judged_checks) (use assms es None None2 in \<open>auto simp: bad_keys_None first_some_None\<close>)
      then show ?thesis using es(1) None None2 by (simp add: from_json_dict_def iterate_def)
    next
      case (Some m)
      then have "\<not> acceptable data"
        using bad_keys_None [of "''JournalRecord''" record_keys required_keys "map fst data"] by (auto simp: acceptable_def)
      then show ?thesis using es(1) None Some by (simp add: from_json_dict_def iterate_def judged_invalid)
    qed
  next
    case (Some m)
    then have "\<not> (\<forall>e \<in> set es. entry_error e = None)" using first_some_None [of entry_error es] by auto
    then have "\<not> acceptable data" using es(3) by (simp add: acceptable_def)
    then show ?thesis using es(1) Some by (simp add: from_json_dict_def iterate_def judged_invalid)
  qed
qed

section \<open>Typed records\<close>

definition typed :: "journal_record \<Rightarrow> bool" where
  "typed r \<longleftrightarrow> schema_version r = 1 \<and> uuid_text_ok (tx_id r) \<and> jstate r \<in> range state_value \<and> 0 \<le> jseq r"

lemma typed_record_fields:
  "typed_record data hist txid st schema seq = Some r \<Longrightarrow>
    tx_id r = txid \<and> jstate r = st \<and> schema_version r = schema \<and> jseq r = seq"
  by (auto simp: typed_record_def split: option.splits)

lemma schema_check_Inr: "schema_check j = Some (Inr u) \<Longrightarrow> as_int j = Some n \<Longrightarrow> n = 1"
  by (cases j) (auto simp: schema_check_def split: if_splits)

lemma sequence_check_Inr: "sequence_check j = Some (Inr u) \<Longrightarrow> as_int j = Some n \<Longrightarrow> 0 \<le> n"
  by (cases j) (auto simp: sequence_check_def split: if_splits)

lemma check_record_typed:
  assumes "check_record data entries = Some (Inr r)"
  shows "typed r"
proof -
  from assms obtain txid st s schema seq hist where ok: "uuid_text_ok txid" "state_of_value st = Some s"
      "schema_check (field_of data ''schema_version'' JNull) = Some (Inr ())"
      "sequence_check (field_of data ''sequence'' JNull) = Some (Inr ())"
      "as_int (field_of data ''schema_version'' JNull) = Some schema"
      "as_int (field_of data ''sequence'' JNull) = Some seq"
      "typed_record data hist txid st schema seq = Some r"
    unfolding check_record_def invalid_journal_def
    by (auto simp: bind_eq_Some_conv split: json.splits if_splits option.splits sum.splits)
  then show ?thesis
    using typed_record_fields [OF ok(7)] schema_check_Inr [OF ok(3,5)] sequence_check_Inr [OF ok(4,6)]
    by (auto simp: typed_def dest: state_value_of)
qed

lemma parsed_typed: "parse_journal path bs = Some (Inr r) \<Longrightarrow> typed r"
  by (auto simp: parse_journal_def from_json_dict_def invalid_journal_def check_record_typed
      split: json.splits option.splits if_splits sum.splits)

section \<open>Texts\<close>

lemma texts_field: "texts_ok (JObj data) \<Longrightarrow> texts_ok (field_of data k JNull)"
  by (auto simp: field_of_def split: option.split dest: map_of_SomeD)

lemma texts_str: "as_str j = Some s \<Longrightarrow> texts_ok j \<Longrightarrow> utf8_ok s"
  by (cases j) auto

lemma texts_opt: "as_opt as_str j = Some x \<Longrightarrow> texts_ok j \<Longrightarrow> pred_option utf8_ok x"
  by (cases j) auto

lemma texts_members:
  assumes "\<And>j v. f j = Some v \<Longrightarrow> texts_ok j \<Longrightarrow> P v"
  shows "those (map (\<lambda>(k, v). map_option (Pair k) (f v)) kvs) = Some us \<Longrightarrow>
    \<forall>(k, v) \<in> set kvs. utf8_ok k \<and> texts_ok v \<Longrightarrow> \<forall>(k, v) \<in> set us. utf8_ok k \<and> P v"
  by (induction kvs arbitrary: us) (auto split: option.splits intro: assms)

lemma texts_map:
  assumes "as_map f j = Some us" and "texts_ok j" and "\<And>j v. f j = Some v \<Longrightarrow> texts_ok j \<Longrightarrow> P v"
  shows "\<forall>(k, v) \<in> set us. utf8_ok k \<and> P v"
proof -
  obtain kvs where "j = JObj kvs" using assms(1) by (cases j) auto
  then show ?thesis using texts_members [of f P kvs us, OF assms(3)] assms(1,2) by simp
qed

definition utf8_entry :: "history_entry \<Rightarrow> bool" where
  "utf8_entry e \<longleftrightarrow> utf8_ok (entry_state e) \<and> utf8_ok (entry_at e) \<and> utf8_ok (entry_note e)"

lemma texts_entry: "entry_of e = Some h \<Longrightarrow> texts_ok e \<Longrightarrow> utf8_entry h"
  by (auto simp: entry_of_def utf8_entry_def bind_eq_Some_conv split: json.splits option.splits
      dest!: map_of_SomeD texts_str)

lemma texts_entries:
  "those (map entry_of es) = Some hs \<Longrightarrow> \<forall>e \<in> set es. texts_ok e \<Longrightarrow> \<forall>h \<in> set hs. utf8_entry h"
  by (induction es arbitrary: hs) (auto split: option.splits dest: texts_entry)

lemma texts_typed_record:
  assumes "typed_record data hist txid st schema seq = Some r" and "texts_ok (JObj data)"
    and "utf8_ok txid" and "utf8_ok st" and "\<forall>h \<in> set hist. utf8_entry h"
  shows "utf8_record r"
proof -
  note f = texts_field [OF assms(2)]
  from assms(1) obtain c u ps ls sl er where r: "r = \<lparr>schema_version = schema, tx_id = txid, jstate = st,
        jseq = seq, created_at = c, updated_at = u, hashes = ps, locations = ls, gba_slot = sl,
        last_error = er, history = hist\<rparr>"
      "as_str (field_of data ''created_at'' JNull) = Some c" "as_str (field_of data ''updated_at'' JNull) = Some u"
      "as_map (as_opt as_str) (field_of data ''pokemon'' JNull) = Some ps"
      "as_map as_str (field_of data ''locations'' JNull) = Some ls"
      "as_opt as_str (field_of data ''last_error'' JNull) = Some er"
    by (auto simp: typed_record_def split: option.splits)
  show ?thesis
    using texts_str [OF r(2) f] texts_str [OF r(3) f] texts_map [OF r(4) f texts_opt]
      texts_map [OF r(5) f texts_str] texts_opt [OF r(6) f] assms(3-5)
    by (simp add: r(1) utf8_record_def utf8_entry_def)
qed

lemma texts_check_record:
  assumes "check_record data es = Some (Inr r)" and "texts_ok (JObj data)" and "\<forall>e \<in> set es. texts_ok e"
  shows "utf8_record r"
proof -
  from assms(1) obtain txid st schema seq hist where ok: "field_of data ''transaction_id'' JNull = JStr txid"
      "field_of data ''state'' JNull = JStr st" "those (map entry_of es) = Some hist"
      "typed_record data hist txid st schema seq = Some r"
    unfolding check_record_def invalid_journal_def
    by (auto simp: bind_eq_Some_conv split: json.splits if_splits option.splits sum.splits)
  show ?thesis
    using texts_field [OF assms(2), of "''transaction_id''"] texts_field [OF assms(2), of "''state''"]
      texts_entries [OF ok(3) assms(3)] texts_typed_record [OF ok(4) assms(2)] by (simp add: ok(1,2))
qed

text \<open>A record with which neither \<open>transition\<close> nor \<open>_write\<close> goes wrong.\<close>

definition sound_record :: "journal_record \<Rightarrow> bool" where
  "sound_record r \<longleftrightarrow> typed r \<and> utf8_record r"

lemma texts_history:
  assumes "iterate j = Some es" and "first_some entry_error es = None" and "texts_ok j"
  shows "\<forall>e \<in> set es. texts_ok e"
proof (cases j)
  case (JObj kvs)
  then have "kvs = []" using assms(1,2) by (cases kvs) (auto simp: iterate_def entry_error_def)
  then show ?thesis using assms(1) JObj by (simp add: iterate_def)
next
  case (JStr s)
  then have "s = []" using assms(1,2) by (cases s) (auto simp: iterate_def entry_error_def)
  then show ?thesis using assms(1) JStr by (simp add: iterate_def)
qed (use assms in \<open>auto simp: iterate_def\<close>)

lemma parsed_sound:
  assumes "parse_journal path bs = Some (Inr r)"
  shows "sound_record r"
proof -
  obtain data where data: "from_json_dict data = Some (Inr r)" "texts_ok (JObj data)"
    using assms by (auto simp: parse_journal_def split: if_splits option.splits json.splits sum.splits)
  then obtain es where es: "iterate (field_of data ''history'' (JList [])) = Some es"
      "first_some entry_error es = None" "check_record data es = Some (Inr r)"
    by (auto simp: from_json_dict_def invalid_journal_def split: option.splits)
  have "texts_ok (field_of data ''history'' (JList []))"
    using data(2) by (auto simp: field_of_def split: option.split dest: map_of_SomeD)
  then show ?thesis
    using texts_check_record [OF es(3) data(2)] texts_history [OF es(1,2)] parsed_typed [OF assms]
    by (simp add: sound_record_def)
qed

text \<open>The arguments of a transition, their texts Unicode.\<close>

definition unicode_change :: "change \<Rightarrow> bool" where
  "unicode_change ch \<longleftrightarrow> utf8_ok (ch_note ch) \<and> pred_option utf8_ok (new_error ch) \<and>
     (\<forall>(k, v) \<in> set (new_hashes ch). utf8_ok k \<and> pred_option utf8_ok v) \<and>
     (\<forall>(k, v) \<in> set (new_locations ch). utf8_ok k \<and> utf8_ok v)"

lemma set_alist_update: "set (AList.update k v d) \<subseteq> insert (k, v) (set d)"
  by (induction d) auto

lemma set_dict_update: "set (dict_update d us) \<subseteq> set d \<union> set us"
proof (induction us arbitrary: d)
  case (Cons u us)
  obtain k v where u: "u = (k, v)" by (cases u)
  show ?case
    using Cons.IH [of "AList.update k v d"] set_alist_update [of k v d] by (auto simp: dict_update_def u)
qed (simp add: dict_update_def)

lemma sound_advance:
  assumes "sound_record r" and "unicode_change ch" and "ascii_text at"
  shows "sound_record (advance new ch at r)"
proof -
  have "\<forall>(k, v) \<in> set (dict_update (hashes r) (new_hashes ch)). utf8_ok k \<and> pred_option utf8_ok v"
    "\<forall>(k, v) \<in> set (dict_update (locations r) (new_locations ch)). utf8_ok k \<and> utf8_ok v"
    using assms(1,2) set_dict_update [of "hashes r" "new_hashes ch"]
      set_dict_update [of "locations r" "new_locations ch"]
    by (auto simp: sound_record_def utf8_record_def unicode_change_def)
  then show ?thesis
    using assms by (auto simp: sound_record_def typed_def utf8_record_def unicode_change_def advance_def utf8_ok_ascii)
qed

lemma check_hashes_error: "check_hashes hs us = Inl e \<Longrightarrow> class_of e = JournalError"
  by (induction hs us rule: check_hashes.induct) (auto split: option.splits if_splits)

lemma transition_check_error:
  "typed r \<Longrightarrow> transition_check r new ch = Inl e \<Longrightarrow> class_of e \<in> {InvalidTransition, JournalError}"
  by (auto simp: typed_def transition_check_def state_enum_def dest: check_hashes_error
      split: option.splits sum.splits if_splits)

lemma wp_transition_sound:
  assumes "wf_os x" and "clock_ok x" and "sound_record r" and "unicode_change ch"
  shows "wp (transition path new ch) (\<lambda>_ (r', y). sound_record r' \<and> wf_os y \<and> clock_ok y)
    (\<lambda>e (r', y). sound_record r' \<and> wf_os y \<and> clock_ok y \<and>
      class_of e \<in> {InvalidTransition, JournalError, OSError}) (r, x)"
proof -
  have "typed r" "ascii_text (clock x (calls x))" using assms(2,3) by (simp_all add: sound_record_def clock_ok_def)
  then show ?thesis
    by (intro wp_transition [OF assms(1)])
      (use assms transition_check_error [of r new ch] in
        \<open>auto simp: sound_advance stored_def written_def frame_os_def clock_ok_def\<close>)
qed

lemma domain_exceptions:
  assumes "class_of e \<in> {InvalidTransition, JournalError, OSError}"
  shows "isinstance e Exception"
proof -
  have "isinstance (Exn InvalidTransition m) Exception" "isinstance (Exn JournalError m) Exception"
    "isinstance (Exn OSError m) Exception" for m
    by (simp_all add: isinstance_simps)
  then show ?thesis using assms by (cases e) auto
qed

lemma attempts_sound:
  assumes "wf_os x" and "clock_ok x" and "sound_record r" and "\<forall>(new, ch) \<in> set cs. unicode_change ch"
  shows "wp (attempts path cs) (\<lambda>_ (r', y). sound_record r' \<and> wf_os y \<and> clock_ok y) (\<lambda>_ _. False) (r, x)"
  using assms
proof (induction cs arbitrary: r x)
  case (Cons c cs)
  obtain new ch where c: "c = (new, ch)" by (cases c)
  show ?case
    unfolding c attempts.simps wp_andthen wp_try_except wp_ret
    by (rule wp_mono [OF wp_transition_sound [OF Cons.prems(1-3)]])
      (use Cons c domain_exceptions in \<open>auto split: prod.splits\<close>)
qed (simp add: wp_ret)

section \<open>Loading\<close>

text \<open>What the journal that was loaded, or the error instead, is like.\<close>

definition load_result :: "os \<Rightarrow> (string \<times> json) list \<Rightarrow> exn + journal_record \<Rightarrow> bool" where
  "load_result w data res \<longleftrightarrow> (case res of
      Inl e \<Rightarrow> class_of e = JournalError \<and> (acceptable data \<longrightarrow> fault w \<noteq> (\<lambda>_. None))
    | Inr r \<Rightarrow> sound_record r \<and> acceptable data)"

lemma parse_annotated:
  assumes "utf8_ok (bytes_text bs)" and "json_loads (bytes_text bs) = Some (JObj data)"
    and "texts_ok (JObj data)" and "annotated data"
  shows "judged data (parse_journal path bs)"
  using annotated_judged [OF assms(4)] assms(1-3) by (auto simp: judged_def parse_journal_def)

lemma load_annotated:
  assumes "contents w (Path path) = Some bs"
    and "utf8_ok (bytes_text bs)" and "json_loads (bytes_text bs) = Some (JObj data)"
    and "texts_ok (JObj data)" and "annotated data"
  shows "\<exists>w1 res. load path w = Some (w1, res) \<and> load_result w data res"
proof -
  obtain res where res: "parse_journal (path_str path) bs = Some res" "load_result w data res"
    using parse_annotated [OF assms(2-), of "path_str path"] parsed_sound [of "path_str path" bs]
    by (auto simp: judged_def load_result_def)
  show ?thesis
  proof (cases "fault w (calls w)")
    case None
    then have "load path w = Some (w\<lparr>calls := Suc (calls w)\<rparr>, res)"
      using res(1) assms(1) by (simp add: load_def read_bytes_def prog_defs sys_def checked_def)
    then show ?thesis using res(2) by blast
  next
    case (Some m)
    moreover have "isinstance (Exn OSError m) OSError" by (simp add: isinstance_simps)
    ultimately have "\<exists>w1 m. load path w = Some (w1, Inl (Exn JournalError m))"
      by (simp add: load_def read_bytes_def prog_defs sys_def)
    moreover have "fault w \<noteq> (\<lambda>_. None)" using Some by auto
    ultimately show ?thesis by (auto simp: load_result_def)
  qed
qed

section \<open>Properties\<close>

text \<open>
  C13. A loaded journal is sound, and stays so. Take any file that holds a JSON object, whoever wrote it,
  whose values have the JSON types that \<open>JournalRecord\<close> and \<open>HistoryEntry\<close> are annotated with, whose
  texts are Unicode text and whose transaction id is in ASCII. Then \<open>load\<close> ends: if reading does not fail, it returns a record exactly if the
  object has the fields of a journal, schema 1, a UUID, a state of the enumeration and a sequence that is
  not negative (\<open>acceptable\<close>), and otherwise it raises \<open>JournalError\<close>. A record that it returns has such
  values and only texts that can be encoded; any transitions afterwards, failed ones included, keep that;
  and at every such point a further transition that raises, raises \<open>InvalidTransition\<close>, \<open>JournalError\<close> or
  an \<open>OSError\<close>: never a \<open>ValueError\<close> or \<open>KeyError\<close> out of the state machine. (Of a file with values of other
  types this is not true: the code loads \<open>"locations": null\<close>, and the next transition raises
  \<open>AttributeError\<close>.)
\<close>

theorem loaded_records_typed:
  assumes "contents w (Path path) = Some bs"
    and "utf8_ok (bytes_text bs)" and "json_loads (bytes_text bs) = Some (JObj data)"
    and "texts_ok (JObj data)" and "annotated data" and "wf_os x" and "clock_ok x"
  shows "\<exists>w1 res. load path w = Some (w1, res) \<and> load_result w data res \<and>
    (\<forall>r cs r' y out. res = Inr r \<longrightarrow> (\<forall>(new, ch) \<in> set cs. unicode_change ch) \<longrightarrow>
      attempts path cs (r, x) = Some ((r', y), out) \<longrightarrow> sound_record r' \<and>
      (\<forall>new ch s e. unicode_change ch \<longrightarrow> transition path new ch (r', y) = Some (s, Inl e) \<longrightarrow>
        class_of e \<in> {InvalidTransition, JournalError, OSError}))"
proof -
  obtain w1 res where load: "load path w = Some (w1, res)" "load_result w data res"
    using load_annotated [OF assms(1-5)] by blast
  have "sound_record r' \<and> (\<forall>new ch s e. unicode_change ch \<longrightarrow> transition path new ch (r', y) = Some (s, Inl e) \<longrightarrow>
      class_of e \<in> {InvalidTransition, JournalError, OSError})"
    if "res = Inr r" "\<forall>(new, ch) \<in> set cs. unicode_change ch" "attempts path cs (r, x) = Some ((r', y), out)"
    for r cs r' y out
  proof -
    have "sound_record r" using load(2) that(1) by (simp add: load_result_def)
    then have y: "sound_record r' \<and> wf_os y \<and> clock_ok y"
      using attempts_sound [OF assms(6,7) _ that(2), of r path] that(3) by (cases out) (simp_all add: wp_def)
    then have "class_of e \<in> {InvalidTransition, JournalError, OSError}"
      if "unicode_change ch" "transition path new ch (r', y) = Some (s, Inl e)" for new ch s e
      using wp_transition_sound [of y r' ch path new] that by (simp add: wp_def split: prod.splits)
    then show ?thesis using y by blast
  qed
  then show ?thesis using load by blast
qed

lemma annotated_json:
  assumes "sort_json (as_json_dict r) = JObj fs" and "ascii_text (tx_id r)"
  shows "annotated fs"
proof -
  have entry: "entry_annotated (sort_json (entry_json e))" for e
    by (auto simp: entry_json_def entry_annotated_def list_all_iff)
  have "\<forall>(k, v) \<in> set (json_fields r). value_annotated k (sort_json v)"
    unfolding json_fields_def list.set ball_simps(5,7) prod.case
    by (intro conjI) (use assms(2) entry in \<open>simp_all add: value_annotated_def sort_json_map list_all_iff
      del: sort_json.simps(2) as_map.simps\<close>)
  then show ?thesis
    using assms(1) by (auto simp: annotated_def list_all_iff as_json_dict_def)
qed

lemma loaded_records_typed_witness:
  "\<exists>w1 res. load [''j''] (one_file_os [''j''] (journal_bytes demo_record) (\<lambda>_. None)) = Some (w1, res) \<and>
    (\<exists>r. res = Inr r \<and> sound_record r)"
proof -
  note demo = wf_record_readable [OF demo_record(1)]
  obtain fs where fs: "sort_json (as_json_dict demo_record) = JObj fs"
      "from_json_dict fs = Some (Inr (sorted_dicts demo_record))"
    using from_json_sorted [OF demo] by blast
  have annotated: "annotated fs"
    by (rule annotated_json [OF fs(1)]) (simp add: demo_record_def new_record_def)
  have texts: "utf8_ok (bytes_text (journal_bytes demo_record))"
    "json_loads (bytes_text (journal_bytes demo_record)) = Some (JObj fs)" "texts_ok (JObj fs)"
    using utf8_ok_dumps [OF texts_ok_as_json_dict [OF demo_record(2)]] loads_dumps [OF plain_as_json_dict [OF demo]]
      texts_ok_sort [OF texts_ok_as_json_dict [OF demo_record(2)]] fs(1)
    by (simp_all add: journal_bytes_def del: texts_ok.simps)
  let ?w = "one_file_os [''j''] (journal_bytes demo_record) (\<lambda>_. None)"
  have "acceptable fs" using annotated_judged [OF annotated] fs(2) by (simp add: judged_def)
  moreover obtain w1 res where "load [''j''] ?w = Some (w1, res)" "load_result ?w fs res"
    using loaded_records_typed [OF one_file_os_simps(3) texts annotated wf_fresh_os clock_ok_fresh,
      of "[''j'']" "\<lambda>_. None"] by blast
  ultimately show ?thesis by (auto simp: load_result_def split: sum.splits)
qed

end
